(* ===== verification/Dezh_Prelude.thy ===== *)
theory Dezh_Prelude
  imports Main "HOL-Library.Word"
begin

text \<open>
  Shared vocabulary of the development: machine integer types, the three-valued result
  of a Rust function (value, error value, panic), little-endian byte codecs, byte slices,
  addressable byte memory, and the bit-set order on words that every authority decision
  of the system is phrased in.
\<close>

unbundle bit_operations_syntax

section \<open>Machine integers\<close>

type_synonym u8 = "8 word"
type_synonym u16 = "16 word"
type_synonym u32 = "32 word"
type_synonym u64 = "64 word"

text \<open>Memory reached through an accessor: an offset and the byte at it.\<close>

type_synonym mem = "nat \<Rightarrow> u8"

named_theorems dezh_defs \<open>definitions of constants and small helpers, unfolded on demand\<close>
named_theorems bitset_simps \<open>bitwise characterisations of authority operations\<close>

section \<open>Results of Rust functions\<close>

text \<open>
  A Rust function returns a value, returns an error value, or panics. All three are
  values of the model, so that a property can say that a panic does not happen.
\<close>

datatype ('e, 'a) outcome = Ok 'a | Err 'e | Panic

fun obind :: "('e, 'a) outcome \<Rightarrow> ('a \<Rightarrow> ('e, 'b) outcome) \<Rightarrow> ('e, 'b) outcome" where
  "obind (Ok x) f = f x"
| "obind (Err e) f = Err e"
| "obind Panic f = Panic"

lemma obind_eq_Ok_iff [simp]: "obind m f = Ok y \<longleftrightarrow> (\<exists>x. m = Ok x \<and> f x = Ok y)"
  by (cases m) auto

lemma obind_eq_Err_iff: "obind m f = Err e \<longleftrightarrow> m = Err e \<or> (\<exists>x. m = Ok x \<and> f x = Err e)"
  by (cases m) auto

lemma obind_eq_Panic_iff: "obind m f = Panic \<longleftrightarrow> m = Panic \<or> (\<exists>x. m = Ok x \<and> f x = Panic)"
  by (cases m) auto

lemma obind_cong [fundef_cong]:
  "m = m' \<Longrightarrow> (\<And>x. m' = Ok x \<Longrightarrow> f x = g x) \<Longrightarrow> obind m f = obind m' g"
  by (cases m') auto

section \<open>The bit-set order on words\<close>

text \<open>
  Authority is a bit set in a machine word everywhere in the system; \<open>a & !b == 0\<close> is
  the subset test of the source.
\<close>

definition word_subset :: "'a::len word \<Rightarrow> 'a word \<Rightarrow> bool" where
  "word_subset a b \<longleftrightarrow> a AND NOT b = 0"

lemma word_subset_iff: "word_subset a b \<longleftrightarrow> (\<forall>n. bit a n \<longrightarrow> bit b n)"
proof -
  have "(a AND NOT b = 0) \<longleftrightarrow> (\<forall>n < LENGTH('a). bit a n \<longrightarrow> bit b n)"
    by (auto simp: bit_eq_iff bit_simps)
  then show ?thesis
    unfolding word_subset_def using bit_imp_le_length by blast
qed

lemma word_subset_refl [simp]: "word_subset a a"
  by (simp add: word_subset_iff)

lemma word_subset_trans [trans]: "word_subset a b \<Longrightarrow> word_subset b c \<Longrightarrow> word_subset a c"
  by (simp add: word_subset_iff)

lemma word_subset_antisym: "word_subset a b \<Longrightarrow> word_subset b a \<Longrightarrow> a = b"
  by (auto simp: word_subset_iff intro!: bit_word_eqI)

lemma word_subset_zero [simp]: "word_subset 0 a"
  by (simp add: word_subset_iff)

lemma word_and_eq_zero_iff: "(a :: 'a::len word) AND b = 0 \<longleftrightarrow> (\<forall>n. \<not> (bit a n \<and> bit b n))"
proof -
  have "(a AND b = 0) \<longleftrightarrow> (\<forall>n < LENGTH('a). \<not> (bit a n \<and> bit b n))"
    by (auto simp: bit_eq_iff bit_simps)
  then show ?thesis
    using bit_imp_le_length by blast
qed

lemma word_and_mask_eq_iff: "(a :: 'a::len word) AND b = b \<longleftrightarrow> word_subset b a"
proof
  assume "a AND b = b"
  then show "word_subset b a"
    unfolding word_subset_iff by (metis bit_and_iff)
next
  assume "word_subset b a"
  then show "a AND b = b"
    unfolding word_subset_iff by (auto intro!: bit_word_eqI simp: bit_and_iff)
qed

lemma and_single_bit_ne_zero:
  assumes "k < LENGTH('a)"
  shows "(a :: 'a::len word) AND push_bit k 1 \<noteq> 0 \<longleftrightarrow> bit a k"
  using assms by (auto simp: word_and_eq_zero_iff bit_exp_iff)

lemma unat_of_nat_small: "k < 2 ^ LENGTH('a) \<Longrightarrow> unat (of_nat k :: 'a::len word) = k"
  by (simp add: unsigned_of_nat take_bit_nat_eq_self)

lemma unat_u32_less: "unat (w :: u32) < 2 ^ 32"
  using unsigned_less [of w] by simp

section \<open>Little-endian byte codecs\<close>

text \<open>\<open>to_le_bytes\<close> and \<open>from_le_bytes\<close> of the integer types, for any width.\<close>

definition to_le :: "nat \<Rightarrow> 'a::len word \<Rightarrow> u8 list" where
  "to_le n v = map (\<lambda>i. ucast (drop_bit (8 * i) v)) [0..<n]"

primrec from_le :: "u8 list \<Rightarrow> 'a::len word" where
  "from_le [] = 0"
| "from_le (b # bs) = ucast b OR push_bit 8 (from_le bs)"

lemma length_to_le [simp]: "length (to_le n v) = n"
  by (simp add: to_le_def)

lemma bit_from_le:
  "bit (from_le bs :: 'a::len word) k \<longleftrightarrow>
     k < LENGTH('a) \<and> k div 8 < length bs \<and> bit (bs ! (k div 8)) (k mod 8)"
proof (induction bs arbitrary: k)
  case Nil
  then show ?case by simp
next
  case (Cons b bs)
  show ?case
  proof (cases "k < 8")
    case True
    then show ?thesis by (auto simp: bit_simps)
  next
    case False
    then have "k div 8 = Suc ((k - 8) div 8)" and "(k - 8) mod 8 = k mod 8"
      by (simp_all add: le_div_geq le_mod_geq)
    moreover have "\<not> bit (ucast b :: 'a word) k"
      using False bit_imp_le_length [of b k] by (auto simp: bit_simps)
    ultimately show ?thesis
      using False Cons.IH [of "k - 8"] by (auto simp: bit_simps)
  qed
qed

lemma nth_to_le: "i < n \<Longrightarrow> to_le n v ! i = ucast (drop_bit (8 * i) v)"
  by (simp add: to_le_def)

lemma from_le_to_le:
  fixes v :: "'a::len word"
  assumes "LENGTH('a) \<le> 8 * n"
  shows "from_le (to_le n v) = v"
proof (rule bit_word_eqI)
  fix k assume k: "k < LENGTH('a)"
  with assms have "k div 8 < n" by (simp add: less_mult_imp_div_less mult.commute)
  with k show "bit (from_le (to_le n v) :: 'a word) k = bit v k"
    by (simp add: bit_from_le nth_to_le bit_simps)
qed

lemma to_le_from_le:
  assumes "8 * length bs \<le> LENGTH('a)"
  shows "to_le (length bs) (from_le bs :: 'a::len word) = bs"
proof (rule nth_equalityI)
  show "length (to_le (length bs) (from_le bs :: 'a word)) = length bs" by simp
next
  fix i assume "i < length (to_le (length bs) (from_le bs :: 'a word))"
  then have i: "i < length bs" by simp
  show "to_le (length bs) (from_le bs :: 'a word) ! i = bs ! i"
  proof (rule bit_word_eqI)
    fix k assume k: "k < LENGTH(8)"
    then have "8 * i + k < LENGTH('a)" using i assms by simp
    moreover have "(8 * i + k) div 8 = i" and "(8 * i + k) mod 8 = k" using k by simp_all
    ultimately show "bit (to_le (length bs) (from_le bs :: 'a word) ! i) k = bit (bs ! i) k"
      using i k by (simp add: nth_to_le bit_simps bit_from_le)
  qed
qed

section \<open>Slices\<close>

text \<open>\<open>&xs[a..b]\<close> where the caller has established \<open>a \<le> b\<close> and \<open>b \<le> length xs\<close>.\<close>

definition slice :: "nat \<Rightarrow> nat \<Rightarrow> 'a list \<Rightarrow> 'a list" where
  "slice a b xs = take (b - a) (drop a xs)"

lemma length_slice [simp]: "b \<le> length xs \<Longrightarrow> length (slice a b xs) = b - a"
  by (simp add: slice_def)

lemma slice_append_left [simp]: "length xs = a \<Longrightarrow> slice a b (xs @ ys) = slice 0 (b - a) ys"
  by (simp add: slice_def)

lemma slice_0_eq [simp]: "length xs = b \<Longrightarrow> slice 0 b (xs @ ys) = xs"
  by (simp add: slice_def)

lemma slice_skip: "length xs \<le> a \<Longrightarrow> slice a b (xs @ ys) = slice (a - length xs) (b - length xs) ys"
  by (simp add: slice_def)

text \<open>\<open>out[a..a+len].copy_from_slice(src)\<close>, in range.\<close>

definition splice :: "'a list \<Rightarrow> nat \<Rightarrow> 'a list \<Rightarrow> 'a list" where
  "splice out a src = take a out @ src @ drop (a + length src) out"

lemma length_splice [simp]: "a + length src \<le> length out \<Longrightarrow> length (splice out a src) = length out"
  by (simp add: splice_def)

section \<open>Byte memory\<close>

definition mem_write :: "mem \<Rightarrow> nat \<Rightarrow> u8 list \<Rightarrow> mem" where
  "mem_write m off bs = (\<lambda>i. if off \<le> i \<and> i < off + length bs then bs ! (i - off) else m i)"

definition mem_read :: "mem \<Rightarrow> nat \<Rightarrow> nat \<Rightarrow> u8 list" where
  "mem_read m off n = map (\<lambda>i. m (off + i)) [0..<n]"

lemma length_mem_read [simp]: "length (mem_read m off n) = n"
  by (simp add: mem_read_def)

lemma nth_mem_read [simp]: "i < n \<Longrightarrow> mem_read m off n ! i = m (off + i)"
  by (simp add: mem_read_def)

lemma mem_read_write_same: "length bs = n \<Longrightarrow> mem_read (mem_write m off bs) off n = bs"
  by (rule nth_equalityI) (simp_all add: mem_write_def)

lemma mem_read_write_other:
  "off + length bs \<le> off' \<or> off' + n \<le> off \<Longrightarrow> mem_read (mem_write m off bs) off' n = mem_read m off' n"
  by (rule nth_equalityI) (auto simp: mem_write_def)

lemma mem_write_outside: "i < off \<or> off + length bs \<le> i \<Longrightarrow> mem_write m off bs i = m i"
  by (auto simp: mem_write_def)

lemma mem_read_cong: "(\<And>i. off \<le> i \<Longrightarrow> i < off + n \<Longrightarrow> m i = m' i) \<Longrightarrow> mem_read m off n = mem_read m' off n"
  by (rule nth_equalityI) simp_all

section \<open>Trimming\<close>

text \<open>Rust's \<open>str::trim\<close>: the Unicode white space below code point 256, for console arguments.\<close>

definition char_whitespace :: "char \<Rightarrow> bool" where
  "char_whitespace c \<longleftrightarrow> (of_char c :: nat) \<in> {9, 10, 11, 12, 13, 32, 133, 160}"

definition trim_by :: "('a \<Rightarrow> bool) \<Rightarrow> 'a list \<Rightarrow> 'a list" where
  "trim_by ws xs = rev (dropWhile ws (rev (dropWhile ws xs)))"

lemma trim_by_id: "(\<And>x. x \<in> set xs \<Longrightarrow> \<not> ws x) \<Longrightarrow> trim_by ws xs = xs"
proof -
  assume "\<And>x. x \<in> set xs \<Longrightarrow> \<not> ws x"
  moreover have "dropWhile ws ys = ys" if "set ys = set xs" "\<And>x. x \<in> set xs \<Longrightarrow> \<not> ws x" for ys
    using that by (cases ys) auto
  ultimately show ?thesis by (simp add: trim_by_def)
qed

end
