(* ===== verification/Boot_Contract.thy ===== *)
theory Boot_Contract
  imports Dezh_Prelude
begin

text \<open>
  The boot contract of \<^verbatim>\<open>dezh-kernel/src/lib.rs\<close>: what a boot path hands to the kernel
  (memory map, initial services, capability seeds, install manifest) and the validation
  that turns it into a plan or refuses it. Every check is in the order of the source, so
  that the error reported is the source's.
\<close>

section \<open>Data\<close>

datatype BootTarget = QemuVirtioX86_64 | QemuVirtioRiscV64

datatype MemoryKind = Usable | Reserved | Bootloader | Kernel | Framebuffer | Mmio

record MemoryRegion =
  start :: u64
  len :: u64
  kind :: MemoryKind

text \<open>\<open>self.start.checked_add(self.len)\<close>\<close>

definition end_of :: "MemoryRegion \<Rightarrow> u64 option" where
  "end_of r = (if unat (start r) + unat (len r) < 2 ^ 64 then Some (start r + len r) else None)"

datatype KernelCapability =
  AllocateFrames | MapAddressSpace | StartService | SendIpc | OpenVirtioDevice
  | OpenCairnRoot | OpenWasmRuntime

record CapabilitySeed =
  service :: string
  capability :: KernelCapability

datatype ServiceKind = Init | Cairn | WasmRuntime | VirtioBlock | VirtioNet

record ServiceSpec =
  name :: string
  skind :: ServiceKind
  required_caps :: "KernelCapability list"

record DiskLayout =
  marker_sector :: u64
  cairn_current_sector :: u64
  cairn_previous_sector :: u64
  root_metadata_sector :: u64
  root_metadata_sectors :: u64

definition DiskLayout_qemu_v0 :: DiskLayout where
  "DiskLayout_qemu_v0 =
     \<lparr> marker_sector = 0, cairn_current_sector = 2, cairn_previous_sector = 3,
       root_metadata_sector = 4, root_metadata_sectors = 4 \<rparr>"

record InstallManifest =
  version :: u32
  target :: BootTarget
  root_service :: string
  block_service :: string
  layout :: DiskLayout

definition InstallManifest_qemu_v0 :: InstallManifest where
  "InstallManifest_qemu_v0 =
     \<lparr> version = 0, target = QemuVirtioX86_64, root_service = ''cairn'',
       block_service = ''virtio-block'', layout = DiskLayout_qemu_v0 \<rparr>"

definition InstallManifest_qemu_riscv_v0 :: InstallManifest where
  "InstallManifest_qemu_riscv_v0 =
     \<lparr> version = 0, target = QemuVirtioRiscV64, root_service = ''cairn'',
       block_service = ''virtio-block'', layout = DiskLayout_qemu_v0 \<rparr>"

record BootInfo =
  btarget :: BootTarget
  memory :: "MemoryRegion list"
  init_services :: "ServiceSpec list"
  capability_seeds :: "CapabilitySeed list"
  install_manifest :: InstallManifest

definition qemu_minimal :: "MemoryRegion list \<Rightarrow> BootInfo" where
  "qemu_minimal mem = \<lparr>
     btarget = QemuVirtioX86_64,
     memory = mem,
     init_services = [
       \<lparr> name = ''init'', skind = Init, required_caps = [StartService, SendIpc] \<rparr>,
       \<lparr> name = ''cairn'', skind = Cairn, required_caps = [OpenCairnRoot, SendIpc] \<rparr>,
       \<lparr> name = ''wasm-runtime'', skind = WasmRuntime, required_caps = [OpenWasmRuntime, SendIpc] \<rparr>,
       \<lparr> name = ''virtio-block'', skind = VirtioBlock, required_caps = [OpenVirtioDevice, SendIpc] \<rparr>],
     capability_seeds = [
       \<lparr> service = ''init'', capability = StartService \<rparr>,
       \<lparr> service = ''init'', capability = SendIpc \<rparr>,
       \<lparr> service = ''cairn'', capability = OpenCairnRoot \<rparr>,
       \<lparr> service = ''cairn'', capability = SendIpc \<rparr>,
       \<lparr> service = ''wasm-runtime'', capability = OpenWasmRuntime \<rparr>,
       \<lparr> service = ''wasm-runtime'', capability = SendIpc \<rparr>,
       \<lparr> service = ''virtio-block'', capability = OpenVirtioDevice \<rparr>,
       \<lparr> service = ''virtio-block'', capability = SendIpc \<rparr>],
     install_manifest = InstallManifest_qemu_v0 \<rparr>"

definition qemu_minimal_riscv :: "MemoryRegion list \<Rightarrow> BootInfo" where
  "qemu_minimal_riscv mem =
     (qemu_minimal mem)\<lparr> btarget := QemuVirtioRiscV64,
                          install_manifest := InstallManifest_qemu_riscv_v0 \<rparr>"

record KernelPlan =
  ptarget :: BootTarget
  usable_bytes :: u64
  services :: "ServiceSpec list"
  pseeds :: "CapabilitySeed list"
  pmanifest :: InstallManifest

datatype BootError =
  EmptyMemoryMap | EmptyRegion | RegionOverflow | OverlappingRegions | NoUsableMemory
  | MissingInitService | MissingRequiredCapability string KernelCapability
  | AmbientCapabilitySeed | MissingInstallService | InvalidInstallTarget | InvalidRootStorage

section \<open>Validation\<close>

text \<open>The first loop of \<open>validate_memory_map\<close>: \<open>(start, end, kind)\<close> of each region.\<close>

fun normalize :: "MemoryRegion list \<Rightarrow> (BootError, (u64 \<times> u64 \<times> MemoryKind) list) outcome" where
  "normalize [] = Ok []"
| "normalize (r # rs) =
     (if len r = 0 then Err EmptyRegion
      else case end_of r of
        None \<Rightarrow> Err RegionOverflow
      | Some e \<Rightarrow> obind (normalize rs) (\<lambda>ns. Ok ((start r, e, kind r) # ns)))"

text \<open>The second loop: sorted by start, no region begins before the previous one ends.\<close>

fun scan_sorted :: "(u64 \<times> u64 \<times> MemoryKind) list \<Rightarrow> u64 option \<Rightarrow> bool \<Rightarrow> (BootError, bool) outcome" where
  "scan_sorted [] prev has_usable = Ok has_usable"
| "scan_sorted ((s, e, k) # rs) prev has_usable =
     (if (case prev of None \<Rightarrow> False | Some p \<Rightarrow> s < p) then Err OverlappingRegions
      else scan_sorted rs (Some e) (has_usable \<or> k = Usable))"

definition validate_memory_map :: "MemoryRegion list \<Rightarrow> (BootError, unit) outcome" where
  "validate_memory_map regions =
     (if regions = [] then Err EmptyMemoryMap
      else obind (normalize regions) (\<lambda>normalized.
        obind (scan_sorted (sort_key fst normalized) None False) (\<lambda>has_usable.
          if has_usable then Ok () else Err NoUsableMemory)))"

definition has_seed :: "CapabilitySeed list \<Rightarrow> string \<Rightarrow> KernelCapability \<Rightarrow> bool" where
  "has_seed seeds svc cap \<longleftrightarrow> list_ex (\<lambda>s. service s = svc \<and> capability s = cap) seeds"

fun check_required :: "CapabilitySeed list \<Rightarrow> string \<Rightarrow> KernelCapability list \<Rightarrow> (BootError, unit) outcome" where
  "check_required seeds svc [] = Ok ()"
| "check_required seeds svc (c # cs) =
     (if has_seed seeds svc c then check_required seeds svc cs
      else Err (MissingRequiredCapability svc c))"

fun check_services :: "CapabilitySeed list \<Rightarrow> ServiceSpec list \<Rightarrow> (BootError, unit) outcome" where
  "check_services seeds [] = Ok ()"
| "check_services seeds (s # ss) =
     obind (check_required seeds (name s) (required_caps s)) (\<lambda>_. check_services seeds ss)"

definition validate_services :: "ServiceSpec list \<Rightarrow> CapabilitySeed list \<Rightarrow> (BootError, unit) outcome" where
  "validate_services svcs seeds =
     (if \<not> list_ex (\<lambda>s. skind s = Init) svcs then Err MissingInitService
      else if list_ex (\<lambda>seed. \<not> list_ex (\<lambda>s. name s = service seed) svcs) seeds
        then Err AmbientCapabilitySeed
      else check_services seeds svcs)"

definition validate_install_manifest ::
    "InstallManifest \<Rightarrow> ServiceSpec list \<Rightarrow> BootTarget \<Rightarrow> (BootError, unit) outcome" where
  "validate_install_manifest m svcs tgt =
     (if target m \<noteq> tgt then Err InvalidInstallTarget
      else if \<not> list_ex (\<lambda>s. name s = root_service m) svcs
            \<or> \<not> list_ex (\<lambda>s. name s = block_service m) svcs then Err MissingInstallService
      else let l = layout m in
        if root_metadata_sectors l = 0
           \<or> marker_sector l = cairn_current_sector l
           \<or> marker_sector l = cairn_previous_sector l
           \<or> marker_sector l = root_metadata_sector l
           \<or> cairn_current_sector l = cairn_previous_sector l
           \<or> root_metadata_sector l \<le> cairn_previous_sector l
        then Err InvalidRootStorage else Ok ())"

text \<open>The sum is a \<open>u64\<close> sum: it wraps in the model, and \<open>usable_bytes_exact\<close> below shows it never does.\<close>

definition plan_boot :: "BootInfo \<Rightarrow> (BootError, KernelPlan) outcome" where
  "plan_boot info =
     obind (validate_memory_map (memory info)) (\<lambda>_.
     obind (validate_services (init_services info) (capability_seeds info)) (\<lambda>_.
     obind (validate_install_manifest (install_manifest info) (init_services info) (btarget info)) (\<lambda>_.
       Ok \<lparr> ptarget = btarget info,
            usable_bytes = sum_list (map len (filter (\<lambda>r. kind r = Usable) (memory info))),
            services = init_services info,
            pseeds = capability_seeds info,
            pmanifest = install_manifest info \<rparr>)))"

section \<open>The memory map\<close>

text \<open>A region as a half-open interval of natural numbers.\<close>

definition region_lo :: "MemoryRegion \<Rightarrow> nat" where "region_lo r = unat (start r)"
definition region_hi :: "MemoryRegion \<Rightarrow> nat" where "region_hi r = unat (start r) + unat (len r)"

definition region_ok :: "MemoryRegion \<Rightarrow> bool" where
  "region_ok r \<longleftrightarrow> len r \<noteq> 0 \<and> region_hi r < 2 ^ 64"

definition norm_of :: "MemoryRegion \<Rightarrow> u64 \<times> u64 \<times> MemoryKind" where
  "norm_of r = (start r, start r + len r, kind r)"

lemma normalize_Ok_iff: "normalize rs = Ok ns \<longleftrightarrow> list_all region_ok rs \<and> ns = map norm_of rs"
  by (induction rs arbitrary: ns)
    (auto simp: end_of_def region_ok_def region_hi_def norm_of_def split: if_splits)

lemma normalize_not_Panic: "normalize rs \<noteq> Panic"
  by (induction rs) (auto simp: obind_eq_Panic_iff split: option.splits)

lemma unat_region_end: "region_ok r \<Longrightarrow> unat (start r + len r) = region_hi r"
  by (simp add: region_ok_def region_hi_def unat_word_ariths)

text \<open>How many regions claim an address.\<close>

definition claims :: "nat \<Rightarrow> MemoryRegion list \<Rightarrow> nat" where
  "claims a rs = length (filter (\<lambda>r. region_lo r \<le> a \<and> a < region_hi r) rs)"

fun ordered_from :: "nat \<Rightarrow> MemoryRegion list \<Rightarrow> bool" where
  "ordered_from p [] \<longleftrightarrow> True"
| "ordered_from p (r # rs) \<longleftrightarrow> p \<le> region_lo r \<and> ordered_from (region_hi r) rs"

lemma ordered_from_mono: "ordered_from p rs \<Longrightarrow> q \<le> p \<Longrightarrow> ordered_from q rs"
  by (cases rs) auto

lemma ordered_from_bound: "ordered_from p rs \<Longrightarrow> r \<in> set rs \<Longrightarrow> p \<le> region_lo r"
proof (induction rs arbitrary: p)
  case (Cons a rs)
  then show ?case
    using ordered_from_mono [of "region_hi a" rs p]
    by (fastforce simp: region_hi_def region_lo_def)
qed simp

lemma scan_sorted_map:
  assumes "list_all region_ok rs" and "case prev of None \<Rightarrow> p = 0 | Some e \<Rightarrow> p = unat e"
  shows "scan_sorted (map norm_of rs) prev u =
    (if ordered_from p rs then Ok (u \<or> list_ex (\<lambda>r. kind r = Usable) rs) else Err OverlappingRegions)"
  using assms
proof (induction rs arbitrary: prev p u)
  case (Cons r rs)
  then have ok: "region_ok r" by simp
  have test: "(case prev of None \<Rightarrow> False | Some e \<Rightarrow> start r < e) \<longleftrightarrow> \<not> p \<le> region_lo r"
    using Cons.prems(2) by (auto simp: region_lo_def word_less_nat_alt split: option.splits)
  have "scan_sorted (map norm_of rs) (Some (start r + len r)) (u \<or> kind r = Usable) =
     (if ordered_from (region_hi r) rs
      then Ok ((u \<or> kind r = Usable) \<or> list_ex (\<lambda>r. kind r = Usable) rs)
      else Err OverlappingRegions)"
    using Cons.prems ok by (intro Cons.IH) (simp_all add: unat_region_end)
  then show ?case
    by (simp add: norm_of_def [of r] test)
qed simp

text \<open>
  For regions sorted by start, the scan's comparison with the previous end is the same as:
  no address is claimed twice.
\<close>

lemma ordered_from_claims: "ordered_from p rs \<Longrightarrow> claims a rs \<le> (if a < p then 0 else 1)"
proof (induction rs arbitrary: p)
  case (Cons r rs)
  then have "claims a rs \<le> (if a < region_hi r then 0 else 1)" and "p \<le> region_lo r" by simp_all
  moreover have "region_lo r \<le> region_hi r" by (simp add: region_lo_def region_hi_def)
  ultimately show ?case by (auto simp: claims_def split: if_splits)
qed (simp add: claims_def)

lemma claims_ordered_from:
  assumes "sorted (map region_lo rs)" and "list_all region_ok rs" and "\<And>a. claims a rs \<le> 1"
    and "\<forall>r \<in> set rs. p \<le> region_lo r"
  shows "ordered_from p rs"
  using assms
proof (induction rs arbitrary: p)
  case (Cons r rs)
  have "region_hi r \<le> region_lo x" if x: "x \<in> set rs" for x
  proof (rule ccontr)
    assume "\<not> region_hi r \<le> region_lo x"
    moreover have "region_lo r \<le> region_lo x" using Cons.prems(1) x by simp
    moreover have "region_lo x < region_hi x"
      using Cons.prems(2) x by (auto simp: region_ok_def region_lo_def region_hi_def list_all_iff unat_gt_0)
    ultimately have "x \<in> set (filter (\<lambda>q. region_lo q \<le> region_lo x \<and> region_lo x < region_hi q) rs)"
      and "claims (region_lo x) (r # rs) = Suc (claims (region_lo x) rs)"
      using x by (auto simp: claims_def)
    moreover from this(1) have "claims (region_lo x) rs > 0"
      by (simp only: claims_def length_pos_if_in_set)
    ultimately have "claims (region_lo x) (r # rs) > 1" by simp
    with Cons.prems(3) [of "region_lo x"] show False by simp
  qed
  moreover have "claims a rs \<le> 1" for a
    using Cons.prems(3) [of a] by (auto simp: claims_def split: if_splits)
  ultimately have "ordered_from (region_hi r) rs"
    using Cons.prems by (intro Cons.IH) simp_all
  with Cons.prems(4) show ?case by simp
qed simp

lemma sort_key_norm: "sort_key fst (map norm_of rs) = map norm_of (sort_key start rs)"
proof -
  have "map norm_of (insort_key start r xs) = insort_key fst (norm_of r) (map norm_of xs)" for r xs
    by (induction xs) (auto simp: norm_of_def)
  then show ?thesis by (induction rs) simp_all
qed

lemma sorted_region_lo: "sorted (map region_lo (sort_key start rs))"
proof -
  have "sorted (map start xs) \<Longrightarrow> sorted (map region_lo xs)" for xs
    by (induction xs) (auto simp: region_lo_def word_le_nat_alt)
  then show ?thesis by (simp add: sorted_sort_key)
qed

lemma claims_sort: "claims a (sort_key start rs) = claims a rs"
  by (simp add: claims_def filter_sort)

lemma list_all_sort: "list_all P (sort_key f rs) = list_all P rs"
  by (simp add: list_all_iff)

lemma list_ex_sort: "list_ex P (sort_key f rs) = list_ex P rs"
  by (simp add: list_ex_iff)

lemma scan_sort_key:
  assumes "list_all region_ok rs"
  shows "scan_sorted (sort_key fst (map norm_of rs)) None False =
    (if \<forall>a. claims a rs \<le> 1 then Ok (list_ex (\<lambda>r. kind r = Usable) rs) else Err OverlappingRegions)"
proof -
  let ?s = "sort_key start rs"
  have ok: "list_all region_ok ?s" using assms by (simp add: list_all_sort)
  have "ordered_from 0 ?s \<longleftrightarrow> (\<forall>a. claims a rs \<le> 1)"
    using ordered_from_claims [of 0 ?s] claims_ordered_from [OF sorted_region_lo ok, of 0]
    by (auto simp: claims_sort)
  then show ?thesis
    by (simp add: sort_key_norm scan_sorted_map [OF ok, where prev = None and p = 0] list_ex_sort)
qed

text \<open>The whole validation, every outcome of it.\<close>

lemma validate_memory_map_Ok_iff:
  "validate_memory_map rs = Ok () \<longleftrightarrow>
     rs \<noteq> [] \<and> list_all region_ok rs \<and> (\<forall>a. claims a rs \<le> 1) \<and> list_ex (\<lambda>r. kind r = Usable) rs"
  using scan_sort_key [of rs] normalize_Ok_iff [of rs "map norm_of rs"]
  by (cases "normalize rs") (auto simp: validate_memory_map_def normalize_Ok_iff split: if_splits)

subsection \<open>The usable total\<close>

lemma sum_list_sort: "sum_list (map (f :: _ \<Rightarrow> nat) (sort_key k rs)) = sum_list (map f rs)"
proof -
  have "sum_list (map f (insort_key k r xs)) = f r + sum_list (map f xs)" for r xs
    by (induction xs) auto
  then show ?thesis by (induction rs) simp_all
qed

lemma ordered_from_total:
  "ordered_from p rs \<Longrightarrow> list_all region_ok rs \<Longrightarrow> p < 2 ^ 64 \<Longrightarrow>
     p + sum_list (map (\<lambda>r. unat (len r)) rs) < 2 ^ 64"
proof (induction rs arbitrary: p)
  case (Cons r rs)
  then have "region_hi r + sum_list (map (\<lambda>r. unat (len r)) rs) < 2 ^ 64"
    by (intro Cons.IH) (simp_all add: region_ok_def)
  with Cons.prems(1) show ?case by (simp add: region_hi_def region_lo_def)
qed simp

lemma unat_sum_list:
  "sum_list (map (\<lambda>r. unat (f r)) xs) < 2 ^ LENGTH('a) \<Longrightarrow>
     unat (sum_list (map f xs) :: 'a::len word) = sum_list (map (\<lambda>r. unat (f r)) xs)"
  by (induction xs) (simp_all add: unat_word_ariths)

lemma sum_list_filter_le: "sum_list (map (f :: _ \<Rightarrow> nat) (filter P xs)) \<le> sum_list (map f xs)"
  by (induction xs) auto

section \<open>Properties\<close>

text \<open>
  C21. A memory map is accepted exactly when it is non-empty, every region is non-empty and
  ends below \<open>2^64\<close>, no address is claimed by two regions, and some region is usable: the
  sort and the adjacent comparison of the source neither miss an overlap nor report a
  spurious one.
\<close>

theorem memory_map_accepted_iff:
  "validate_memory_map rs = Ok () \<longleftrightarrow>
     rs \<noteq> [] \<and>
     list_all (\<lambda>r. len r \<noteq> 0 \<and> unat (start r) + unat (len r) < 2 ^ 64) rs \<and>
     (\<forall>a. length (filter (\<lambda>r. unat (start r) \<le> a \<and> a < unat (start r) + unat (len r)) rs) \<le> 1) \<and>
     list_ex (\<lambda>r. kind r = Usable) rs"
  using validate_memory_map_Ok_iff [of rs]
  by (simp add: region_ok_def [abs_def] region_hi_def claims_def region_lo_def)

text \<open>
  C24. The usable-byte total of an accepted plan is the true sum of the usable regions: the
  \<open>u64\<close> sum cannot wrap, because an accepted map's regions are disjoint below \<open>2^64\<close>.
\<close>

theorem usable_bytes_exact:
  assumes "plan_boot info = Ok plan"
  shows "unat (usable_bytes plan) =
    sum_list (map (\<lambda>r. unat (len r)) (filter (\<lambda>r. kind r = Usable) (memory info)))"
proof -
  let ?rs = "memory info" and ?s = "sort_key start (memory info)"
  from assms have valid: "validate_memory_map ?rs = Ok ()"
    and plan: "usable_bytes plan = sum_list (map len (filter (\<lambda>r. kind r = Usable) ?rs))"
    by (auto simp: plan_boot_def)
  from valid have ok: "list_all region_ok ?s" and cl: "\<And>a. claims a ?s \<le> 1"
    by (simp_all add: validate_memory_map_Ok_iff list_all_sort claims_sort)
  then have "ordered_from 0 ?s"
    by (intro claims_ordered_from) (simp_all add: sorted_region_lo)
  with ok have "sum_list (map (\<lambda>r. unat (len r)) ?rs) < 2 ^ 64"
    using ordered_from_total [of 0 ?s] sum_list_sort [of "\<lambda>r. unat (len r)" start ?rs] by simp
  then have "sum_list (map (\<lambda>r. unat (len r)) (filter (\<lambda>r. kind r = Usable) ?rs)) < 2 ^ LENGTH(64)"
    using sum_list_filter_le [of "\<lambda>r. unat (len r)" "\<lambda>r. kind r = Usable" ?rs] by simp
  then show ?thesis
    unfolding plan by (rule unat_sum_list)
qed

definition sample_memory :: "MemoryRegion list" where
  "sample_memory =
     [\<lparr> start = 0, len = 0x100000, kind = Reserved \<rparr>,
      \<lparr> start = 0x100000, len = 0x4000000, kind = Usable \<rparr>,
      \<lparr> start = 0x4100000, len = 0x100000, kind = Kernel \<rparr>]"

lemma sample_memory_plan:
  "plan_boot (qemu_minimal_riscv sample_memory) = Ok
     \<lparr> ptarget = QemuVirtioRiscV64, usable_bytes = 0x4000000,
       services = init_services (qemu_minimal sample_memory),
       pseeds = capability_seeds (qemu_minimal sample_memory),
       pmanifest = InstallManifest_qemu_riscv_v0 \<rparr>"
  by (simp add: plan_boot_def validate_memory_map_def validate_services_def
      validate_install_manifest_def qemu_minimal_riscv_def qemu_minimal_def sample_memory_def
      InstallManifest_qemu_riscv_v0_def DiskLayout_qemu_v0_def end_of_def has_seed_def
      word_less_nat_alt)

theorem usable_bytes_exact_witness:
  "unat (0x4000000 :: u64) =
     sum_list (map (\<lambda>r. unat (len r))
       (filter (\<lambda>r. kind r = Usable) (memory (qemu_minimal_riscv sample_memory))))"
  using usable_bytes_exact [OF sample_memory_plan] by simp

lemma check_required_Ok_iff:
  "check_required seeds svc cs = Ok () \<longleftrightarrow> list_all (has_seed seeds svc) cs"
  by (induction cs) auto

lemma check_services_Ok_iff:
  "check_services seeds ss = Ok () \<longleftrightarrow>
     list_all (\<lambda>s. list_all (has_seed seeds (name s)) (required_caps s)) ss"
  by (induction ss) (auto simp: check_required_Ok_iff)

text \<open>
  C23. No ambient authority at boot: a plan is produced only when every capability a service
  requires is seeded for that very service, every seed names a service of the plan, an init
  service exists and the install manifest's services are among them; and the plan carries
  exactly the seeds it was validated with.
\<close>

theorem plan_has_no_ambient_authority:
  assumes "plan_boot info = Ok plan"
  shows "pseeds plan = capability_seeds info \<and> services plan = init_services info \<and>
    (\<exists>s \<in> set (services plan). skind s = Init) \<and>
    (\<forall>s \<in> set (services plan). \<forall>c \<in> set (required_caps s).
       \<exists>seed \<in> set (pseeds plan). service seed = name s \<and> capability seed = c) \<and>
    (\<forall>seed \<in> set (pseeds plan). \<exists>s \<in> set (services plan). name s = service seed) \<and>
    root_service (pmanifest plan) \<in> name ` set (services plan) \<and>
    block_service (pmanifest plan) \<in> name ` set (services plan) \<and>
    target (pmanifest plan) = ptarget plan"
proof -
  from assms have vs: "validate_services (init_services info) (capability_seeds info) = Ok ()"
    and vm: "validate_install_manifest (install_manifest info) (init_services info) (btarget info) = Ok ()"
    and p: "ptarget plan = btarget info" "services plan = init_services info"
      "pseeds plan = capability_seeds info" "pmanifest plan = install_manifest info"
    by (auto simp: plan_boot_def)
  from vs have "(\<exists>s \<in> set (init_services info). skind s = Init) \<and>
    (\<forall>s \<in> set (init_services info). \<forall>c \<in> set (required_caps s).
       \<exists>seed \<in> set (capability_seeds info). service seed = name s \<and> capability seed = c) \<and>
    (\<forall>seed \<in> set (capability_seeds info). \<exists>s \<in> set (init_services info). name s = service seed)"
    by (auto simp: validate_services_def check_services_Ok_iff list_all_iff has_seed_def
        list_ex_iff split: if_splits)
  moreover from vm have "root_service (install_manifest info) \<in> name ` set (init_services info) \<and>
    block_service (install_manifest info) \<in> name ` set (init_services info) \<and>
    target (install_manifest info) = btarget info"
    by (auto simp: validate_install_manifest_def list_ex_iff Let_def intro: rev_image_eqI split: if_splits)
  ultimately show ?thesis by (simp only: p) blast
qed

theorem plan_has_no_ambient_authority_witness:
  "\<exists>plan. plan_boot (qemu_minimal_riscv sample_memory) = Ok plan \<and>
     (\<forall>seed \<in> set (pseeds plan). \<exists>s \<in> set (services plan). name s = service seed)"
  using plan_has_no_ambient_authority [OF sample_memory_plan] sample_memory_plan by blast

end
