(* ===== verification/Authority.thy ===== *)
theory Authority
  imports Dezh_Prelude
begin

text \<open>
  The intent-derivation algebra of \<^verbatim>\<open>dezh-kernel/src/lib.rs\<close> (module \<open>authority\<close>):
  authority is a capability bit set, an intent is a ceiling, and derivation and delegation
  are intersections. The laws are stated once, in a locale over the attenuating operation
  and in an extension of it over the operation that reports what was dropped; the kernel's
  operations interpret them here, the package-signing ones in theory \<open>Sig\<close>, and the
  object-capability ones in theory \<open>Ocap\<close>.
\<close>

section \<open>Attenuation, as an interface\<close>

locale attenuation =
  fixes att :: "'a::len word \<Rightarrow> 'a word \<Rightarrow> 'a word"
  assumes att_bit: "bit (att r c) n \<longleftrightarrow> bit r n \<and> bit c n"
begin

lemma att_within_ceiling: "word_subset (att r c) c"
  by (simp add: word_subset_iff att_bit)

lemma att_within_request: "word_subset (att r c) r"
  by (simp add: word_subset_iff att_bit)

lemma att_greatest: "word_subset x r \<Longrightarrow> word_subset x c \<Longrightarrow> word_subset x (att r c)"
  by (simp add: word_subset_iff att_bit)

lemma att_idem: "att (att r c) c = att r c"
  by (rule bit_word_eqI) (auto simp: att_bit)

lemma att_swap: "att (att r c) d = att (att r d) c"
  by (rule bit_word_eqI) (auto simp: att_bit)

text \<open>A chain of attenuations keeps exactly the bits that every ceiling keeps.\<close>

lemma att_chain_bit:
  "bit (fold (\<lambda>c r. att r c) cs r) n \<longleftrightarrow> bit r n \<and> list_all (\<lambda>c. bit c n) cs"
  by (induction cs arbitrary: r) (auto simp: att_bit)

end

locale reported_attenuation = attenuation att
  for att :: "'a::len word \<Rightarrow> 'a word \<Rightarrow> 'a word" +
  fixes dropped :: "'a word \<Rightarrow> 'a word \<Rightarrow> 'a word"
  assumes dropped_bit: "bit (dropped r c) n \<longleftrightarrow> bit r n \<and> \<not> bit c n"
begin

text \<open>What is granted and what is reported as dropped partition the request.\<close>

lemma partition_union: "att r c OR dropped r c = r"
  by (rule bit_word_eqI) (auto simp: att_bit dropped_bit bit_or_iff)

lemma partition_disjoint: "att r c AND dropped r c = 0"
  by (simp add: word_and_eq_zero_iff att_bit dropped_bit)

lemma nothing_dropped_iff: "dropped r c = 0 \<longleftrightarrow> word_subset r c"
proof
  assume "dropped r c = 0"
  then have "\<not> bit (dropped r c) n" for n by simp
  then show "word_subset r c" by (auto simp: word_subset_iff dropped_bit)
next
  assume "word_subset r c"
  then show "dropped r c = 0"
    by (auto intro!: bit_word_eqI simp: word_subset_iff dropped_bit)
qed

lemma granted_all_iff: "att r c = r \<longleftrightarrow> dropped r c = 0"
proof
  assume "att r c = r"
  then have "bit r n \<Longrightarrow> bit c n" for n by (metis att_bit)
  then show "dropped r c = 0" by (simp add: nothing_dropped_iff word_subset_iff)
next
  assume "dropped r c = 0"
  then show "att r c = r"
    unfolding nothing_dropped_iff
    by (auto intro!: bit_word_eqI simp: word_subset_iff att_bit)
qed

end

section \<open>The kernel's operations\<close>

type_synonym Caps = u32

definition derive :: "Caps \<Rightarrow> Caps \<Rightarrow> Caps" where
  "derive requested intent_ceiling = requested AND intent_ceiling"

definition beyond_intent :: "Caps \<Rightarrow> Caps \<Rightarrow> Caps" where
  "beyond_intent requested intent_ceiling = requested AND NOT intent_ceiling"

definition delegate :: "Caps \<Rightarrow> Caps \<Rightarrow> Caps" where
  "delegate requested holder = requested AND holder"

definition is_subset :: "Caps \<Rightarrow> Caps \<Rightarrow> bool" where
  "is_subset a b \<longleftrightarrow> a AND NOT b = 0"

lemma is_subset_iff: "is_subset a b \<longleftrightarrow> word_subset a b"
  by (simp add: is_subset_def word_subset_def)

interpretation intent: reported_attenuation derive beyond_intent
proof
  show "bit (derive r c) n \<longleftrightarrow> bit r n \<and> bit c n" for r c n
    by (simp add: derive_def bit_and_iff)
  show "bit (beyond_intent r c) n \<longleftrightarrow> bit r n \<and> \<not> bit c n" for r c n
    using bit_imp_le_length [of r n] by (auto simp: beyond_intent_def bit_simps)
qed

interpretation delegation: attenuation delegate
  by unfold_locales (simp add: delegate_def bit_and_iff)

section \<open>Properties\<close>

text \<open>
  C25. Derivation is the only way authority comes to exist, and no sequence of derivations
  widens it: deriving a request under any sequence of intent ceilings leaves a capability
  exactly when it was requested and every ceiling of the sequence allows it, so the result
  is within the request and within each ceiling, and the order of the intents is irrelevant.
\<close>

theorem derivation_chain_exact:
  "bit (fold (\<lambda>c r. derive r c) cs requested) n \<longleftrightarrow>
     bit requested n \<and> list_all (\<lambda>c. bit c n) cs"
  by (rule intent.att_chain_bit)

text \<open>
  C26. What an intent grants and what is reported as beyond the intent account for the
  request exactly and never overlap; the report is empty exactly when the request is a
  subset of the ceiling, that is, exactly when the whole request was granted.
\<close>

theorem derive_beyond_partition:
  "derive r c OR beyond_intent r c = r \<and> derive r c AND beyond_intent r c = 0 \<and>
   (beyond_intent r c = 0 \<longleftrightarrow> is_subset r c) \<and> (derive r c = r \<longleftrightarrow> beyond_intent r c = 0)"
  by (simp add: intent.partition_union intent.partition_disjoint intent.nothing_dropped_iff
      intent.granted_all_iff is_subset_iff)

text \<open>
  A holder that received its authority by delegation from a derived set cannot pass on
  more than the intent allowed, however often the authority is passed on.
\<close>

lemma delegation_within_intent:
  "is_subset (fold (\<lambda>req held. delegate held req) reqs (derive r c)) c"
  unfolding is_subset_iff word_subset_iff
  by (simp add: delegation.att_chain_bit intent.att_bit)

end
