(* ===== verification/Ocap.thy ===== *)
theory Ocap
  imports Authority
begin

text \<open>
  Object capabilities with generation-stamped revocation: \<^verbatim>\<open>dezh-core/src/ocap.rs\<close>, and
  its two kernel clients, namespace authority (\<^verbatim>\<open>dezh-boot/src/ocap/ns.rs\<close>) and device
  authority (\<^verbatim>\<open>dezh-boot/src/ocap/device.rs\<close>). The clients share one contract, the locale
  \<open>kill_switch\<close>, which both interpret.
\<close>

section \<open>Handles and the authority table\<close>

type_synonym Rights = u8

definition R_READ :: Rights where "R_READ = 1"
definition R_WRITE :: Rights where "R_WRITE = 2"
definition R_APPEND :: Rights where "R_APPEND = 4"
definition R_DELEGATE :: Rights where "R_DELEGATE = 8"
definition GEN_NEVER :: u32 where "GEN_NEVER = 0"

lemmas rights_defs = R_READ_def R_WRITE_def R_APPEND_def R_DELEGATE_def GEN_NEVER_def

record Cap =
  object :: nat
  rights :: Rights
  generation :: u32

datatype CapCheck = CapOk | Revoked | Denied | NoSuchObject

text \<open>\<open>CapTable<N>\<close> is the array of live generations; \<open>N\<close> is its length.\<close>

type_synonym CapTable = "u32 list"

definition new_table :: "nat \<Rightarrow> CapTable" where
  "new_table N = replicate N 1"

definition mint :: "CapTable \<Rightarrow> nat \<Rightarrow> Rights \<Rightarrow> Cap option" where
  "mint t obj r =
     (if obj \<ge> length t then None
      else Some \<lparr> object = obj, rights = r, generation = t ! obj \<rparr>)"

definition derive_cap :: "CapTable \<Rightarrow> Cap \<Rightarrow> Rights \<Rightarrow> Cap option" where
  "derive_cap t parent keep =
     (if rights parent AND R_DELEGATE = 0 then None
      else Some \<lparr> object = object parent, rights = rights parent AND keep,
                  generation = generation parent \<rparr>)"

definition is_live :: "CapTable \<Rightarrow> Cap \<Rightarrow> bool" where
  "is_live t c \<longleftrightarrow>
     object c < length t \<and> generation c \<noteq> GEN_NEVER \<and> generation c = t ! object c"

definition check_cap :: "CapTable \<Rightarrow> Cap \<Rightarrow> Rights \<Rightarrow> CapCheck" where
  "check_cap t c want =
     (if object c \<ge> length t then NoSuchObject
      else if generation c = GEN_NEVER \<or> generation c \<noteq> t ! object c then Revoked
      else if rights c AND want \<noteq> want then Denied
      else CapOk)"

definition revoke :: "CapTable \<Rightarrow> nat \<Rightarrow> CapTable" where
  "revoke t obj = (if obj < length t then t[obj := t ! obj + 1] else t)"

definition generation_of :: "CapTable \<Rightarrow> nat \<Rightarrow> u32" where
  "generation_of t obj = (if obj < length t then t ! obj else GEN_NEVER)"

lemma check_cap_Ok_iff: "check_cap t c want = CapOk \<longleftrightarrow> is_live t c \<and> word_subset want (rights c)"
  by (auto simp: check_cap_def is_live_def word_and_mask_eq_iff)

lemma length_revoke [simp]: "length (revoke t obj) = length t"
  by (simp add: revoke_def)

lemma generation_revoke:
  "generation_of (revoke t obj) p =
     generation_of t p + (if p = obj \<and> obj < length t then 1 else 0)"
  by (simp add: revoke_def generation_of_def)

interpretation handle_rights: attenuation "\<lambda>r m. r AND m :: Rights"
  by unfold_locales (simp add: bit_and_iff)

section \<open>Histories of the authority\<close>

text \<open>
  A history of mints, derivations and revocations. Beside the table, the history records
  every handle ever issued with the number of revocations its object had seen when its
  root was minted (its epoch) and the rights of that root.
\<close>

datatype ocap_event = Mint nat Rights | Derive nat Rights | Revoke nat

record issued =
  handle :: Cap
  epoch :: nat
  root_rights :: Rights

record ocap_sys =
  table :: CapTable
  issued_caps :: "issued list"
  revocations :: "nat \<Rightarrow> nat"

definition ocap_init :: "nat \<Rightarrow> ocap_sys" where
  "ocap_init N = \<lparr> table = new_table N, issued_caps = [], revocations = (\<lambda>_. 0) \<rparr>"

fun ocap_step :: "ocap_sys \<Rightarrow> ocap_event \<Rightarrow> ocap_sys" where
  "ocap_step s (Mint obj r) =
     (case mint (table s) obj r of
        None \<Rightarrow> s
      | Some c \<Rightarrow> s\<lparr> issued_caps := issued_caps s @
          [\<lparr> handle = c, epoch = revocations s obj, root_rights = r \<rparr>] \<rparr>)"
| "ocap_step s (Derive i keep) =
     (if i < length (issued_caps s) then
        let p = issued_caps s ! i in
        (case derive_cap (table s) (handle p) keep of
           None \<Rightarrow> s
         | Some c \<Rightarrow> s\<lparr> issued_caps := issued_caps s @ [p\<lparr> handle := c \<rparr>] \<rparr>)
      else s)"
| "ocap_step s (Revoke obj) =
     s\<lparr> table := revoke (table s) obj,
        revocations := (if obj < length (table s)
          then (revocations s)(obj := Suc (revocations s obj)) else revocations s) \<rparr>"

definition ocap_run :: "nat \<Rightarrow> ocap_event list \<Rightarrow> ocap_sys" where
  "ocap_run N es = fold (\<lambda>e s. ocap_step s e) es (ocap_init N)"

definition issued_ok :: "ocap_sys \<Rightarrow> issued \<Rightarrow> bool" where
  "issued_ok s x \<longleftrightarrow>
     object (handle x) < length (table s) \<and>
     generation (handle x) = of_nat (1 + epoch x) \<and>
     epoch x \<le> revocations s (object (handle x)) \<and>
     word_subset (rights (handle x)) (root_rights x)"

definition ocap_inv :: "ocap_sys \<Rightarrow> bool" where
  "ocap_inv s \<longleftrightarrow>
     (\<forall>obj < length (table s). table s ! obj = of_nat (1 + revocations s obj)) \<and>
     list_all (issued_ok s) (issued_caps s)"

lemma ocap_inv_init: "ocap_inv (ocap_init N)"
  by (simp add: ocap_inv_def ocap_init_def new_table_def)

lemma ocap_step_inv:
  assumes "ocap_inv s"
  shows "ocap_inv (ocap_step s e)"
proof (cases e)
  case (Mint obj r)
  with assms show ?thesis
    by (auto simp: ocap_inv_def list_all_iff issued_ok_def mint_def)
next
  case (Derive i keep)
  show ?thesis
  proof (cases "i < length (issued_caps s) \<and> rights (handle (issued_caps s ! i)) AND R_DELEGATE \<noteq> 0")
    case True
    then have "issued_ok s (issued_caps s ! i)"
      using assms by (simp add: ocap_inv_def list_all_length)
    then have "issued_ok s ((issued_caps s ! i)\<lparr> handle := \<lparr> object = object (handle (issued_caps s ! i)),
        rights = rights (handle (issued_caps s ! i)) AND keep,
        generation = generation (handle (issued_caps s ! i)) \<rparr> \<rparr>)"
      using word_subset_trans [OF handle_rights.att_within_request] by (simp add: issued_ok_def)
    then show ?thesis
      using True assms Derive
      by (auto simp: ocap_inv_def list_all_iff issued_ok_def derive_cap_def Let_def)
  next
    case False
    with assms Derive show ?thesis by (auto simp: derive_cap_def Let_def)
  qed
next
  case (Revoke obj)
  with assms show ?thesis
    by (auto simp: ocap_inv_def list_all_iff issued_ok_def revoke_def nth_list_update le_Suc_eq)
qed

lemma ocap_run_inv: "ocap_inv (ocap_run N es)"
proof -
  have "ocap_inv s \<Longrightarrow> ocap_inv (fold (\<lambda>e s. ocap_step s e) es s)" for s
    by (induction es arbitrary: s) (auto intro: ocap_step_inv)
  then show ?thesis by (simp add: ocap_run_def ocap_inv_init)
qed

lemma of_nat_eq_small:
  assumes "a \<le> b" "b < a + 2 ^ LENGTH('a)"
  shows "(of_nat a :: 'a::len word) = of_nat b \<longleftrightarrow> a = b"
proof
  assume "(of_nat a :: 'a word) = of_nat b"
  then have "(2 ^ LENGTH('a)) dvd (b - a)"
    using assms(1) mod_eq_dvd_iff_nat [of a b "2 ^ LENGTH('a)"]
    by (simp add: word_of_nat_eq_iff take_bit_eq_mod)
  with assms(2) show "a = b"
    using assms(1) by (auto dest: dvd_imp_le)
qed simp

text \<open>
  C16. Per-object revocation over any history: as long as an object has been revoked fewer
  than \<open>2^32 - 1\<close> times, a handle issued for it, directly or through any chain of
  derivations, authorises an operation exactly when the object has not been revoked since
  the handle's root was minted and the handle carries the wanted rights; and those rights
  are always within the rights of the root. Handles to other objects are not affected.
\<close>

theorem handle_valid_iff_not_revoked_since:
  assumes "x \<in> set (issued_caps (ocap_run N es))"
    and "revocations (ocap_run N es) (object (handle x)) < 2 ^ 32 - 1"
  shows "(check_cap (table (ocap_run N es)) (handle x) want = CapOk \<longleftrightarrow>
           revocations (ocap_run N es) (object (handle x)) = epoch x \<and>
           word_subset want (rights (handle x))) \<and>
         word_subset (rights (handle x)) (root_rights x)"
proof -
  let ?s = "ocap_run N es" and ?o = "object (handle x)"
  have inv: "ocap_inv ?s" by (rule ocap_run_inv)
  with assms(1) have x: "issued_ok ?s x" by (auto simp: ocap_inv_def list_all_iff)
  then have gen: "table ?s ! ?o = of_nat (1 + revocations ?s ?o)"
    using inv by (simp add: ocap_inv_def issued_ok_def)
  have le: "1 + epoch x \<le> 1 + revocations ?s ?o" using x by (simp add: issued_ok_def)
  have small: "1 + revocations ?s ?o < (1 + epoch x) + 2 ^ LENGTH(32)" using assms(2) by simp
  have "1 + epoch x < 2 ^ LENGTH(32)" using assms(2) le by simp
  then have "(of_nat 0 :: u32) \<noteq> of_nat (1 + epoch x)"
    using of_nat_eq_small [of 0 "1 + epoch x", where 'a = 32] by simp
  then have "(of_nat (1 + epoch x) :: u32) \<noteq> 0" by simp
  moreover have "(of_nat (1 + epoch x) :: u32) = of_nat (1 + revocations ?s ?o) \<longleftrightarrow>
      1 + epoch x = 1 + revocations ?s ?o"
    by (rule of_nat_eq_small [OF le small])
  ultimately have "is_live (table ?s) (handle x) \<longleftrightarrow> revocations ?s ?o = epoch x"
    using x gen by (auto simp: is_live_def issued_ok_def GEN_NEVER_def)
  then show ?thesis
    using x by (simp add: check_cap_Ok_iff issued_ok_def)
qed

lemma new_table_4: "new_table 4 = [1, 1, 1, 1]"
  by (simp add: new_table_def numeral_eq_Suc)

theorem handle_valid_iff_not_revoked_since_witness:
  "let s = ocap_run 4 [Mint 2 11, Derive 0 1, Mint 3 1, Revoke 2] in
     check_cap (table s) (handle (issued_caps s ! 1)) R_READ \<noteq> CapOk \<and>
     check_cap (table s) (handle (issued_caps s ! 2)) R_READ = CapOk"
proof -
  let ?s = "ocap_run 4 [Mint 2 11, Derive 0 1, Mint 3 1, Revoke 2]"
  have s: "?s = \<lparr> table = [1, 1, 2, 1], issued_caps =
      [\<lparr> handle = \<lparr> object = 2, rights = 11, generation = 1 \<rparr>, epoch = 0, root_rights = 11 \<rparr>,
       \<lparr> handle = \<lparr> object = 2, rights = 1, generation = 1 \<rparr>, epoch = 0, root_rights = 11 \<rparr>,
       \<lparr> handle = \<lparr> object = 3, rights = 1, generation = 1 \<rparr>, epoch = 0, root_rights = 1 \<rparr>],
      revocations = (\<lambda>_. 0)(2 := 1) \<rparr>"
    by (simp add: ocap_run_def ocap_init_def new_table_4 mint_def derive_cap_def revoke_def
        rights_defs Let_def)
  show ?thesis
    using handle_valid_iff_not_revoked_since
        [of "issued_caps ?s ! 1" 4 "[Mint 2 11, Derive 0 1, Mint 3 1, Revoke 2]" R_READ]
      handle_valid_iff_not_revoked_since
        [of "issued_caps ?s ! 2" 4 "[Mint 2 11, Derive 0 1, Mint 3 1, Revoke 2]" R_READ]
    unfolding s by (simp add: rights_defs)
qed

text \<open>
  C27. The generation counter wraps: a handle that authorises an operation is refused as revoked
  after any number of revocations of its object that is not a multiple of \<open>2^32\<close>, so after
  every number from 1 to \<open>2^32 - 1\<close>, and after \<open>2^32\<close> of them it authorises the operation
  again. Revocation is permanent only below that bound.
\<close>

theorem revocation_wraps_around:
  assumes "check_cap t c want = CapOk"
  shows "check_cap (((\<lambda>t. revoke t (object c)) ^^ n) t) c want = (if 2 ^ 32 dvd n then CapOk else Revoked)"
proof -
  let ?obj = "object c"
  have obj: "?obj < length t" and live: "generation c = t ! ?obj" "generation c \<noteq> GEN_NEVER" "rights c AND want = want"
    using assms by (auto simp: check_cap_def split: if_splits)
  have "((\<lambda>t. revoke t ?obj) ^^ n) t = t[?obj := t ! ?obj + of_nat n]"
    using obj by (induction n) (auto simp: revoke_def algebra_simps)
  moreover have "(of_nat n :: u32) = 0 \<longleftrightarrow> 2 ^ 32 dvd n" by (simp add: word_of_nat_eq_0_iff)
  ultimately show ?thesis using obj live by (auto simp: check_cap_def)
qed

theorem revocation_wraps_around_witness:
  "check_cap (((\<lambda>t. revoke t 1) ^^ (2 ^ 32)) [1, 5]) \<lparr> object = 1, rights = R_READ, generation = 5 \<rparr> R_READ = CapOk \<and>
   check_cap (((\<lambda>t. revoke t 1) ^^ (2 ^ 32 - 1)) [1, 5]) \<lparr> object = 1, rights = R_READ, generation = 5 \<rparr> R_READ = Revoked"
proof -
  let ?c = "\<lparr> object = 1, rights = R_READ, generation = 5 \<rparr> :: Cap"
  have ok: "check_cap [1, 5] ?c R_READ = CapOk" by (simp add: check_cap_def GEN_NEVER_def)
  have "\<not> 2 ^ 32 dvd (2 ^ 32 - 1 :: nat)" by simp
  then show ?thesis using revocation_wraps_around [OF ok, of "2 ^ 32"] revocation_wraps_around [OF ok, of "2 ^ 32 - 1"]
    by (simp only: Cap.simps if_False dvd_refl if_True simp_thms)
qed

section \<open>Held authority: the kernel's clients\<close>

text \<open>
  Both clients hold one handle per object in a fixed array beside the table, mint the
  handles of the named objects on first use, re-mint on a grant and bump the generation on
  a revocation. They differ in the array size, the number of named objects and the rights.
\<close>

record held_auth =
  auth_table :: CapTable
  auth_handle :: "Cap option list"
  auth_init_done :: bool

definition auth_new :: "nat \<Rightarrow> held_auth" where
  "auth_new N = \<lparr> auth_table = new_table N, auth_handle = replicate N None, auth_init_done = False \<rparr>"

definition auth_init :: "nat \<Rightarrow> Rights \<Rightarrow> held_auth \<Rightarrow> held_auth" where
  "auth_init named r s =
     (if auth_init_done s then s
      else s\<lparr> auth_handle := fold (\<lambda>i hs. hs[i := mint (auth_table s) i r]) [0..<named] (auth_handle s),
              auth_init_done := True \<rparr>)"

definition auth_ok :: "nat \<Rightarrow> Rights \<Rightarrow> nat \<Rightarrow> held_auth \<Rightarrow> (unit, bool \<times> held_auth) outcome" where
  "auth_ok named r obj s =
     (let s' = auth_init named r s in
      if obj \<ge> length (auth_handle s') then Panic
      else Ok (case auth_handle s' ! obj of
                 None \<Rightarrow> False
               | Some h \<Rightarrow> check_cap (auth_table s') h R_READ = CapOk, s'))"

definition auth_revoke :: "nat \<Rightarrow> Rights \<Rightarrow> nat \<Rightarrow> held_auth \<Rightarrow> held_auth" where
  "auth_revoke named r obj s =
     (let s' = auth_init named r s in s'\<lparr> auth_table := revoke (auth_table s') obj \<rparr>)"

definition auth_remint :: "nat \<Rightarrow> Rights \<Rightarrow> nat \<Rightarrow> held_auth \<Rightarrow> (unit, held_auth) outcome" where
  "auth_remint named r obj s =
     (let s' = auth_init named r s in
      if obj \<ge> length (auth_handle s') then Panic
      else Ok (s'\<lparr> auth_handle := (auth_handle s')[obj := mint (auth_table s') obj r] \<rparr>))"

text \<open>Namespace authority: eight objects, five of them named, read, write and delegate rights.\<close>

definition NS_RIGHTS :: Rights where "NS_RIGHTS = R_READ OR R_WRITE OR R_DELEGATE"

definition ns_authority_init :: "held_auth \<Rightarrow> held_auth" where
  "ns_authority_init = auth_init 5 NS_RIGHTS"

definition ns_authority_ok :: "nat \<Rightarrow> held_auth \<Rightarrow> (unit, bool \<times> held_auth) outcome" where
  "ns_authority_ok = auth_ok 5 NS_RIGHTS"

definition ns_revoke_local :: "nat \<Rightarrow> held_auth \<Rightarrow> held_auth" where
  "ns_revoke_local = auth_revoke 5 NS_RIGHTS"

definition ns_remint_local :: "nat \<Rightarrow> held_auth \<Rightarrow> (unit, held_auth) outcome" where
  "ns_remint_local = auth_remint 5 NS_RIGHTS"

text \<open>Device authority: four objects, two of them named, read and write rights.\<close>

definition DEV_RIGHTS :: Rights where "DEV_RIGHTS = R_READ OR R_WRITE"

definition dev_authority_init :: "held_auth \<Rightarrow> held_auth" where
  "dev_authority_init = auth_init 2 DEV_RIGHTS"

definition dev_authority_ok :: "nat \<Rightarrow> held_auth \<Rightarrow> (unit, bool \<times> held_auth) outcome" where
  "dev_authority_ok = auth_ok 2 DEV_RIGHTS"

definition dev_name_id :: "string \<Rightarrow> nat option" where
  "dev_name_id n = (if n = ''block'' then Some 0 else if n = ''net'' then Some 1 else None)"

definition dev_authority_set :: "string \<Rightarrow> bool \<Rightarrow> held_auth \<Rightarrow> (unit, held_auth) outcome" where
  "dev_authority_set arg grant s =
     (case dev_name_id (trim_by char_whitespace arg) of
        None \<Rightarrow> Ok s
      | Some obj \<Rightarrow> if grant then auth_remint 2 DEV_RIGHTS obj s else Ok (auth_revoke 2 DEV_RIGHTS obj s))"

section \<open>The contract of held authority\<close>

datatype switch_op = SwitchRevoke nat | SwitchGrant nat

fun switch_obj :: "switch_op \<Rightarrow> nat" where
  "switch_obj (SwitchRevoke obj) = obj"
| "switch_obj (SwitchGrant obj) = obj"

fun switch :: "(nat \<Rightarrow> 's \<Rightarrow> 's) \<Rightarrow> (nat \<Rightarrow> 's \<Rightarrow> 's) \<Rightarrow> switch_op \<Rightarrow> 's \<Rightarrow> 's" where
  "switch off on (SwitchRevoke obj) s = off obj s"
| "switch off on (SwitchGrant obj) s = on obj s"

text \<open>
  The laws a client may rely on. \<open>age\<close> counts the revocations of an object since its handle
  was last minted, modulo the width of the generation; \<open>spent\<close> marks a generation that is the
  never-live value.
\<close>

locale kill_switch =
  fixes live :: "'s \<Rightarrow> nat \<Rightarrow> bool"
    and cut :: "nat \<Rightarrow> 's \<Rightarrow> 's"
    and grant :: "nat \<Rightarrow> 's \<Rightarrow> 's"
    and wf :: "'s \<Rightarrow> bool"
    and objs :: "nat set"
    and age :: "'s \<Rightarrow> nat \<Rightarrow> nat"
    and spent :: "'s \<Rightarrow> nat \<Rightarrow> bool"
  assumes live_iff: "wf s \<Longrightarrow> p \<in> objs \<Longrightarrow> live s p \<longleftrightarrow> age s p = 0 \<and> \<not> spent s p"
    and cut_age: "wf s \<Longrightarrow> obj \<in> objs \<Longrightarrow> p \<in> objs \<Longrightarrow>
      age (cut obj s) p = (if p = obj then (age s p + 1) mod 2 ^ 32 else age s p)"
    and cut_spent: "wf s \<Longrightarrow> obj \<in> objs \<Longrightarrow> p \<in> objs \<Longrightarrow> p \<noteq> obj \<Longrightarrow> spent (cut obj s) p = spent s p"
    and grant_age: "wf s \<Longrightarrow> obj \<in> objs \<Longrightarrow> p \<in> objs \<Longrightarrow>
      age (grant obj s) p = (if p = obj then 0 else age s p)"
    and grant_spent: "wf s \<Longrightarrow> obj \<in> objs \<Longrightarrow> p \<in> objs \<Longrightarrow> spent (grant obj s) p = spent s p"
    and cut_wf: "wf s \<Longrightarrow> obj \<in> objs \<Longrightarrow> wf (cut obj s)"
    and grant_wf: "wf s \<Longrightarrow> obj \<in> objs \<Longrightarrow> wf (grant obj s)"
begin

abbreviation step_switch :: "switch_op \<Rightarrow> 's \<Rightarrow> 's" where
  "step_switch \<equiv> switch cut grant"

lemma switch_wf: "wf s \<Longrightarrow> switch_obj opr \<in> objs \<Longrightarrow> wf (step_switch opr s)"
  by (cases opr) (simp_all add: cut_wf grant_wf)

lemma switch_other:
  assumes "wf s" "switch_obj opr \<in> objs" "p \<in> objs" "switch_obj opr \<noteq> p"
  shows "age (step_switch opr s) p = age s p" and "spent (step_switch opr s) p = spent s p"
  using assms by (cases opr; simp add: cut_age cut_spent grant_age grant_spent)+

lemma switches_other:
  assumes "wf s" "p \<in> objs" "\<forall>opr \<in> set ops. switch_obj opr \<in> objs \<and> switch_obj opr \<noteq> p"
  shows "live (fold step_switch ops s) p = live s p"
proof -
  have "wf (fold step_switch ops s) \<and> age (fold step_switch ops s) p = age s p \<and>
      spent (fold step_switch ops s) p = spent s p"
    using assms by (induction ops arbitrary: s) (auto simp: switch_wf switch_other)
  with assms show ?thesis by (simp add: live_iff)
qed

lemma switches_age:
  assumes "wf s" "p \<in> objs" "\<forall>opr \<in> set ops. switch_obj opr \<in> objs \<and> opr \<noteq> SwitchGrant p"
    and "age s p + count_list ops (SwitchRevoke p) < 2 ^ 32"
  shows "wf (fold step_switch ops s) \<and>
    age (fold step_switch ops s) p = age s p + count_list ops (SwitchRevoke p)"
  using assms
proof (induction ops arbitrary: s)
  case (Cons opr ops)
  have "age (step_switch opr s) p = age s p + (if opr = SwitchRevoke p then 1 else 0)"
  proof (cases opr)
    case (SwitchRevoke obj)
    with Cons.prems show ?thesis by (auto simp: cut_age)
  next
    case (SwitchGrant obj)
    with Cons.prems show ?thesis by (auto simp: grant_age)
  qed
  moreover have "wf (step_switch opr s)" using Cons.prems by (simp add: switch_wf)
  ultimately show ?case using Cons.prems Cons.IH [of "step_switch opr s"] by (auto split: if_splits)
qed simp

text \<open>A cut object stays dead until it is granted again, whatever happens to the others.\<close>

lemma cut_stays_dead:
  assumes "wf s" "p \<in> objs" "age s p = 0"
    and "\<forall>opr \<in> set ops. switch_obj opr \<in> objs \<and> opr \<noteq> SwitchGrant p"
    and "count_list ops (SwitchRevoke p) < 2 ^ 32 - 1"
  shows "\<not> live (fold step_switch ops (cut p s)) p"
proof -
  have "age (cut p s) p = 1" using assms by (simp add: cut_age)
  with assms switches_age [of "cut p s" p ops] cut_wf [of s p]
  have "wf (fold step_switch ops (cut p s))" and "age (fold step_switch ops (cut p s)) p > 0" by simp_all
  with assms(2) show ?thesis by (simp add: live_iff)
qed

lemma grant_revives:
  "wf s \<Longrightarrow> p \<in> objs \<Longrightarrow> \<not> spent s p \<Longrightarrow> live (grant p s) p"
  by (simp add: live_iff grant_wf grant_age grant_spent)

end

section \<open>Held authority satisfies the contract\<close>

definition auth_wf :: "nat \<Rightarrow> nat \<Rightarrow> Rights \<Rightarrow> held_auth \<Rightarrow> bool" where
  "auth_wf N named r s \<longleftrightarrow>
     auth_init_done s \<and> named \<le> N \<and> word_subset R_READ r \<and>
     length (auth_table s) = N \<and> length (auth_handle s) = N \<and>
     (\<forall>i < named. \<exists>g. auth_handle s ! i = Some \<lparr> object = i, rights = r, generation = g \<rparr>)"

definition auth_age :: "held_auth \<Rightarrow> nat \<Rightarrow> nat" where
  "auth_age s obj = unat (auth_table s ! obj - generation (the (auth_handle s ! obj)))"

definition auth_spent :: "held_auth \<Rightarrow> nat \<Rightarrow> bool" where
  "auth_spent s obj \<longleftrightarrow> auth_table s ! obj = GEN_NEVER"

definition auth_live :: "nat \<Rightarrow> Rights \<Rightarrow> held_auth \<Rightarrow> nat \<Rightarrow> bool" where
  "auth_live named r s obj \<longleftrightarrow> (\<exists>s'. auth_ok named r obj s = Ok (True, s'))"

definition auth_grant :: "nat \<Rightarrow> Rights \<Rightarrow> nat \<Rightarrow> held_auth \<Rightarrow> held_auth" where
  "auth_grant named r obj s = (case auth_remint named r obj s of Ok s' \<Rightarrow> s' | _ \<Rightarrow> s)"

lemma fold_minted:
  "length (fold (\<lambda>i hs. hs[i := f i]) [0..<k] hs) = length hs \<and>
    (k \<le> length hs \<longrightarrow> (\<forall>i < k. fold (\<lambda>i hs. hs[i := f i]) [0..<k] hs ! i = f i))"
  by (induction k) (auto simp: nth_list_update less_Suc_eq)

lemma auth_init_wf:
  assumes "named \<le> N" "word_subset R_READ r"
  shows "auth_wf N named r (auth_init named r (auth_new N))"
proof -
  let ?hs = "fold (\<lambda>i hs. hs[i := mint (new_table N) i r]) [0..<named] (replicate N None)"
  have "length ?hs = N" and "\<And>i. i < named \<Longrightarrow> ?hs ! i = mint (new_table N) i r"
    using assms(1) by (auto simp: fold_minted)
  with assms show ?thesis
    by (auto simp: auth_wf_def auth_init_def auth_new_def mint_def new_table_def)
qed

lemma auth_init_idle [simp]: "auth_wf N named r s \<Longrightarrow> auth_init named r s = s"
  by (simp add: auth_wf_def auth_init_def)

lemma unat_age_Suc: "unat (x + 1 - g :: u32) = Suc (unat (x - g)) mod 4294967296"
proof -
  have "x + 1 - g = (x - g) + 1" by simp
  then show ?thesis using unat_word_ariths(1) [of "x - g" 1] by (simp only:) simp
qed

lemma auth_kill_switch:
  "kill_switch (auth_live named r) (auth_revoke named r) (auth_grant named r)
     (auth_wf N named r) {..<named} auth_age auth_spent"
proof
  fix s p assume wf: "auth_wf N named r s" and p: "p \<in> {..<named}"
  then obtain g where g: "auth_handle s ! p = Some \<lparr> object = p, rights = r, generation = g \<rparr>"
    by (auto simp: auth_wf_def)
  from wf p have "p < length (auth_handle s)" "p < length (auth_table s)" "word_subset R_READ r"
    by (auto simp: auth_wf_def)
  with wf g show "auth_live named r s p \<longleftrightarrow> auth_age s p = 0 \<and> \<not> auth_spent s p"
    by (auto simp: auth_live_def auth_ok_def auth_age_def auth_spent_def check_cap_Ok_iff is_live_def
        unat_eq_0)
next
  fix s obj p assume wf: "auth_wf N named r s" and obj: "obj \<in> {..<named}" and p: "p \<in> {..<named}"
  then have len: "obj < length (auth_table s)" "p < length (auth_table s)" "obj < length (auth_handle s)"
    by (auto simp: auth_wf_def)
  show "auth_age (auth_revoke named r obj s) p =
      (if p = obj then (auth_age s p + 1) mod 2 ^ 32 else auth_age s p)"
    using wf len by (simp add: auth_age_def auth_revoke_def revoke_def unat_age_Suc)
  show "p \<noteq> obj \<Longrightarrow> auth_spent (auth_revoke named r obj s) p = auth_spent s p"
    using wf len by (simp add: auth_spent_def auth_revoke_def revoke_def)
  show "auth_age (auth_grant named r obj s) p = (if p = obj then 0 else auth_age s p)"
    using wf len by (simp add: auth_age_def auth_grant_def auth_remint_def mint_def)
  show "auth_spent (auth_grant named r obj s) p = auth_spent s p"
    using wf len by (simp add: auth_spent_def auth_grant_def auth_remint_def)
next
  fix s obj assume wf: "auth_wf N named r s" and obj: "obj \<in> {..<named}"
  then have len: "obj < length (auth_table s)" "obj < length (auth_handle s)"
    by (auto simp: auth_wf_def)
  show "auth_wf N named r (auth_revoke named r obj s)"
    using wf by (simp add: auth_wf_def auth_revoke_def auth_init_def)
  show "auth_wf N named r (auth_grant named r obj s)"
    using wf len
    by (auto simp: auth_wf_def auth_grant_def auth_remint_def auth_init_def mint_def nth_list_update)
qed

interpretation ns_authority: kill_switch "auth_live 5 NS_RIGHTS" ns_revoke_local
    "auth_grant 5 NS_RIGHTS" "auth_wf 8 5 NS_RIGHTS" "{..<5}" auth_age auth_spent
  unfolding ns_revoke_local_def by (rule auth_kill_switch)

interpretation dev_authority: kill_switch "auth_live 2 DEV_RIGHTS" "auth_revoke 2 DEV_RIGHTS"
    "auth_grant 2 DEV_RIGHTS" "auth_wf 4 2 DEV_RIGHTS" "{..<2}" auth_age auth_spent
  by (rule auth_kill_switch)

text \<open>
  C17. Revoking a namespace is a kill switch: from a state in which the console's handle for
  the namespace is current, once the namespace is revoked the authority check refuses it
  through any later sequence of revocations and grants of namespaces that does not grant this
  one again and revokes it fewer than \<open>2^32 - 1\<close> times more.
\<close>

theorem ns_revoke_is_a_kill_switch:
  assumes "auth_wf 8 5 NS_RIGHTS s" and "ns < 5" and "auth_age s ns = 0"
    and "\<forall>opr \<in> set ops. switch_obj opr < 5 \<and> opr \<noteq> SwitchGrant ns"
    and "count_list ops (SwitchRevoke ns) < 2 ^ 32 - 1"
  shows "\<exists>s'. ns_authority_ok ns (fold (switch ns_revoke_local (auth_grant 5 NS_RIGHTS)) ops (ns_revoke_local ns s)) = Ok (False, s')"
proof -
  let ?t = "fold (switch ns_revoke_local (auth_grant 5 NS_RIGHTS)) ops (ns_revoke_local ns s)"
  have "\<not> auth_live 5 NS_RIGHTS ?t ns"
    using assms by (intro ns_authority.cut_stays_dead) auto
  moreover have "auth_wf 8 5 NS_RIGHTS ?t"
    using assms ns_authority.switches_age [of "ns_revoke_local ns s" ns ops]
      ns_authority.cut_wf [of s ns] ns_authority.cut_age [of s ns ns] by auto
  then have "\<exists>b s'. ns_authority_ok ns ?t = Ok (b, s')"
    using assms(2) by (auto simp: ns_authority_ok_def auth_ok_def auth_wf_def auth_init_def Let_def)
  ultimately show ?thesis by (auto simp: auth_live_def ns_authority_ok_def)
qed

lemma NS_RIGHTS_read: "word_subset R_READ NS_RIGHTS"
  by (simp add: word_subset_def NS_RIGHTS_def rights_defs)

lemma ns_initial_wf: "auth_wf 8 5 NS_RIGHTS (ns_authority_init (auth_new 8))"
  unfolding ns_authority_init_def by (rule auth_init_wf) (simp_all add: NS_RIGHTS_read)

theorem ns_revoke_is_a_kill_switch_witness:
  "\<exists>s'. ns_authority_ok 3 (fold (switch ns_revoke_local (auth_grant 5 NS_RIGHTS)) [SwitchGrant 1, SwitchRevoke 3]
     (ns_revoke_local 3 (ns_authority_init (auth_new 8)))) = Ok (False, s')"
proof (rule ns_revoke_is_a_kill_switch [OF ns_initial_wf])
  show "auth_age (ns_authority_init (auth_new 8)) 3 = 0"
    by (simp add: auth_age_def ns_authority_init_def auth_init_def auth_new_def new_table_def
        upt_conv_Cons mint_def numeral_eq_Suc)
qed simp_all

end
