(* ===== verification/Difc.thy ===== *)
theory Difc
  imports Dezh_Prelude
begin

text \<open>
  Information-flow control: the labels and the actor's taint of \<open>dezh-core/src/difc.rs\<close>, and
  the console operator's gate on the storage path, \<open>dezh-boot/src/difc.rs\<close>. The kernel's
  statics are the fields of \<open>difc_state\<close>; the lazy initialisation every entry point performs
  is part of each operation. The lemmas give the exact meaning of a taint after a trace of
  reads, ingress, declassifications and endorsements.
\<close>

unbundle bit_operations_syntax

section \<open>Labels and taint\<close>

type_synonym Label = u32
type_synonym Integrity = u32

definition PUBLIC :: Label where "PUBLIC = 0"

definition can_flow :: "Label \<Rightarrow> Label \<Rightarrow> bool" where
  "can_flow src sink \<longleftrightarrow> src AND NOT sink = 0"

definition TRUSTED :: Integrity where "TRUSTED = NOT 0"

definition UNTRUSTED :: Integrity where "UNTRUSTED = 0"

definition integrity_ok :: "Integrity \<Rightarrow> Integrity \<Rightarrow> bool" where
  "integrity_ok data sink_requires \<longleftrightarrow> sink_requires AND NOT data = 0"

record Taint =
  secrecy :: Label
  integrity :: Integrity

definition new_taint :: Taint where
  "new_taint = \<lparr> secrecy = PUBLIC, integrity = TRUSTED \<rparr>"

definition observe :: "Label \<Rightarrow> Taint \<Rightarrow> Taint" where
  "observe obj t = t\<lparr> secrecy := secrecy t OR obj \<rparr>"

definition observe_input :: "Integrity \<Rightarrow> Taint \<Rightarrow> Taint" where
  "observe_input obj t = t\<lparr> integrity := integrity t AND obj \<rparr>"

definition may_endorse_to :: "Taint \<Rightarrow> Integrity \<Rightarrow> bool" where
  "may_endorse_to t sink_requires = integrity_ok (integrity t) sink_requires"

definition endorse_taint :: "Taint \<Rightarrow> Taint" where
  "endorse_taint t = t\<lparr> integrity := TRUSTED \<rparr>"

definition may_flow_to :: "Taint \<Rightarrow> Label \<Rightarrow> bool" where
  "may_flow_to t sink = can_flow (secrecy t) sink"

lemmas taint_defs = observe_def observe_input_def endorse_taint_def new_taint_def
  may_endorse_to_def may_flow_to_def PUBLIC_def TRUSTED_def UNTRUSTED_def

section \<open>Flow as set inclusion\<close>

lemma can_flow_subset: "can_flow src sink \<longleftrightarrow> word_subset src sink"
  by (simp add: can_flow_def word_subset_def)

lemma integrity_ok_subset: "integrity_ok data req \<longleftrightarrow> word_subset req data"
  by (simp add: integrity_ok_def word_subset_def)

lemma word_subset_or_left: "word_subset (a OR b) c \<longleftrightarrow> word_subset a c \<and> word_subset b c"
  by (auto simp: word_subset_iff bit_or_iff)

lemma word_subset_and_right: "word_subset c (a AND b) \<longleftrightarrow> word_subset c a \<and> word_subset c b"
  by (auto simp: word_subset_iff bit_and_iff)

lemma word_subset_top [simp]: "word_subset a (NOT 0)"
  by (simp add: word_subset_def)

lemma word_subset_trusted [simp]: "word_subset a (- 1)"
  using word_subset_top [of a] by simp

lemma word_subset_bottom [simp]: "word_subset a 0 \<longleftrightarrow> a = 0"
  by (simp add: word_subset_def)

section \<open>The operator's gate\<close>

record difc_state =
  NS_LABEL :: "Label list"
  NS_REQUIRES :: "Integrity list"
  OP_TAINT :: Taint
  DIFC_INIT :: bool

definition NS_SECRET_VAULT :: Label where "NS_SECRET_VAULT = 1"
definition NS_ENDORSED :: Integrity where "NS_ENDORSED = 1"

definition difc_boot :: difc_state where
  "difc_boot = \<lparr> NS_LABEL = replicate 8 0, NS_REQUIRES = replicate 8 0,
     OP_TAINT = new_taint, DIFC_INIT = False \<rparr>"

definition difc_init :: "difc_state \<Rightarrow> difc_state" where
  "difc_init s =
     (if DIFC_INIT s then s
      else s\<lparr> NS_LABEL := (NS_LABEL s)[3 := NS_SECRET_VAULT],
              NS_REQUIRES := (NS_REQUIRES s)[0 := NS_ENDORSED, 3 := NS_ENDORSED],
              DIFC_INIT := True \<rparr>)"

definition ns_label :: "nat \<Rightarrow> difc_state \<Rightarrow> Label \<times> difc_state" where
  "ns_label ns s =
     (let s' = difc_init s in
      (if ns < length (NS_LABEL s') then NS_LABEL s' ! ns else 0, s'))"

definition ns_requires :: "nat \<Rightarrow> difc_state \<Rightarrow> Integrity \<times> difc_state" where
  "ns_requires ns s =
     (let s' = difc_init s in
      (if ns < length (NS_REQUIRES s') then NS_REQUIRES s' ! ns else 0, s'))"

definition difc_observe :: "nat \<Rightarrow> difc_state \<Rightarrow> difc_state" where
  "difc_observe ns s =
     (let (l, s') = ns_label ns s in
      if l \<noteq> 0 then s'\<lparr> OP_TAINT := observe l (OP_TAINT s') \<rparr> else s')"

definition difc_may_write :: "nat \<Rightarrow> difc_state \<Rightarrow> bool \<times> difc_state" where
  "difc_may_write ns s =
     (let (l, s1) = ns_label ns s in
      if \<not> may_flow_to (OP_TAINT s1) l then (False, s1)
      else let (r, s2) = ns_requires ns s1 in
        if \<not> may_endorse_to (OP_TAINT s2) r then (False, s2) else (True, s2))"

definition difc_ingress :: "difc_state \<Rightarrow> difc_state" where
  "difc_ingress s =
     (let s' = difc_init s in s'\<lparr> OP_TAINT := observe_input UNTRUSTED (OP_TAINT s') \<rparr>)"

definition declassify :: "difc_state \<Rightarrow> difc_state" where
  "declassify s =
     (let s1 = difc_init s;
          i = integrity (OP_TAINT s1);
          s2 = s1\<lparr> OP_TAINT := new_taint \<rparr> in
      if i \<noteq> TRUSTED then s2\<lparr> OP_TAINT := observe_input i (OP_TAINT s2) \<rparr> else s2)"

definition endorse :: "difc_state \<Rightarrow> difc_state" where
  "endorse s = (let s' = difc_init s in s'\<lparr> OP_TAINT := endorse_taint (OP_TAINT s') \<rparr>)"

section \<open>Traces of the operator\<close>

datatype operator_event = ReadNs nat | Ingress | Declassify | Endorse | TryWrite nat

fun operator_step :: "operator_event \<Rightarrow> difc_state \<Rightarrow> difc_state" where
  "operator_step (ReadNs ns) s = difc_observe ns s"
| "operator_step Ingress s = difc_ingress s"
| "operator_step Declassify s = declassify s"
| "operator_step Endorse s = endorse s"
| "operator_step (TryWrite ns) s = snd (difc_may_write ns s)"

definition operator_run :: "operator_event list \<Rightarrow> difc_state" where
  "operator_run tr = fold operator_step tr difc_boot"

text \<open>The label and the requirement of a namespace once the table is initialised.\<close>

definition label_of :: "nat \<Rightarrow> Label" where
  "label_of ns = (if ns = 3 then NS_SECRET_VAULT else 0)"

definition requirement_of :: "nat \<Rightarrow> Integrity" where
  "requirement_of ns = (if ns = 0 \<or> ns = 3 then NS_ENDORSED else 0)"

definition difc_wf :: "difc_state \<Rightarrow> bool" where
  "difc_wf s \<longleftrightarrow> NS_LABEL (difc_init s) = [0, 0, 0, NS_SECRET_VAULT, 0, 0, 0, 0] \<and>
     NS_REQUIRES (difc_init s) = [NS_ENDORSED, 0, 0, NS_ENDORSED, 0, 0, 0, 0]"

lemma difc_init_simps [simp]:
  "DIFC_INIT (difc_init s)" "difc_init (difc_init s) = difc_init s"
  "OP_TAINT (difc_init s) = OP_TAINT s"
  "difc_init (difc_init s \<lparr> OP_TAINT := t \<rparr>) = difc_init s \<lparr> OP_TAINT := t \<rparr>"
  by (simp_all add: difc_init_def)

lemma difc_wf_boot: "difc_wf difc_boot"
  by (simp add: difc_wf_def difc_init_def difc_boot_def numeral_eq_Suc)

lemma nth_label_table:
  "(if ns < length [0, 0, 0, x, 0, 0, 0, 0 :: u32] then [0, 0, 0, x, 0, 0, 0, 0 :: u32] ! ns else 0) = (if ns = 3 then x else 0)"
  by (auto simp: nth_Cons split: nat.splits)

lemma nth_requires_table:
  "(if ns < length [x, 0, 0, x, 0, 0, 0, 0 :: u32] then [x, 0, 0, x, 0, 0, 0, 0 :: u32] ! ns else 0) = (if ns = 0 \<or> ns = 3 then x else 0)"
  by (auto simp: nth_Cons split: nat.splits)

lemma ns_label_wf [simp]: "difc_wf s \<Longrightarrow> ns_label ns s = (label_of ns, difc_init s)"
  by (simp only: ns_label_def difc_wf_def label_of_def Let_def nth_label_table)

lemma ns_requires_wf [simp]: "difc_wf s \<Longrightarrow> ns_requires ns s = (requirement_of ns, difc_init s)"
  by (simp only: ns_requires_def difc_wf_def requirement_of_def Let_def nth_requires_table)

lemma difc_wf_init [simp]: "difc_wf (difc_init s) = difc_wf s"
  by (simp add: difc_wf_def)

lemma difc_wf_taint [simp]: "difc_wf (difc_init s \<lparr> OP_TAINT := t \<rparr>) = difc_wf s"
  by (simp add: difc_wf_def)

lemma may_write_wf:
  "difc_wf s \<Longrightarrow> difc_may_write ns s =
     (word_subset (secrecy (OP_TAINT s)) (label_of ns) \<and>
      word_subset (requirement_of ns) (integrity (OP_TAINT s)), difc_init s)"
  by (simp add: difc_may_write_def taint_defs can_flow_subset integrity_ok_subset)

lemma operator_step_wf: "difc_wf s \<Longrightarrow> difc_wf (operator_step e s)"
  by (cases e) (auto simp: difc_observe_def difc_ingress_def declassify_def endorse_def may_write_wf Let_def
      difc_wf_def)

section \<open>What the gate admits\<close>

text \<open>The events since the last occurrence of a given one.\<close>

definition since :: "'e \<Rightarrow> 'e list \<Rightarrow> 'e set" where
  "since e tr = set (takeWhile (\<lambda>x. x \<noteq> e) (rev tr))"

lemma since_Nil [simp]: "since e [] = {}"
  by (simp add: since_def)

lemma since_snoc [simp]: "since e (tr @ [x]) = (if x = e then {} else insert x (since e tr))"
  unfolding since_def rev_append by (cases "x = e") simp_all

definition taint_matches :: "operator_event list \<Rightarrow> Taint \<Rightarrow> bool" where
  "taint_matches tr t \<longleftrightarrow>
     (\<forall>sink. word_subset (secrecy t) sink \<longleftrightarrow>
        (\<forall>ns. ReadNs ns \<in> since Declassify tr \<longrightarrow> word_subset (label_of ns) sink)) \<and>
     integrity t = (if Ingress \<in> since Endorse tr then UNTRUSTED else TRUSTED)"

lemma taint_matches_step:
  assumes wf: "difc_wf s" and m: "taint_matches tr (OP_TAINT s)"
  shows "taint_matches (tr @ [e]) (OP_TAINT (operator_step e s))"
proof (cases e)
  case (ReadNs ns)
  have "OP_TAINT (operator_step e s) = observe (label_of ns) (OP_TAINT s)"
    using wf by (simp add: ReadNs difc_observe_def observe_def)
  with m ReadNs show ?thesis
    by (auto simp: taint_matches_def observe_def word_subset_or_left)
next
  case Declassify
  with m show ?thesis
    by (auto simp: taint_matches_def declassify_def Let_def taint_defs)
qed (use wf m in \<open>auto simp: taint_matches_def difc_ingress_def endorse_def may_write_wf Let_def
    taint_defs\<close>)

lemma operator_run_invariant:
  "difc_wf (operator_run tr) \<and> taint_matches tr (OP_TAINT (operator_run tr))"
proof (induction tr rule: rev_induct)
  case Nil
  show ?case using difc_wf_boot by (simp add: operator_run_def taint_matches_def difc_boot_def taint_defs)
next
  case (snoc e tr)
  then show ?case by (simp add: operator_run_def operator_step_wf taint_matches_step)
qed

text \<open>
  C18. After any sequence of reads, ingress, declassifications, endorsements and refused or
  accepted writes since boot, the gate lets the operator write a namespace exactly when every
  namespace read since the last declassification has a label the target can hold and, where
  the target demands an endorsement, nothing was taken in from outside since the last
  endorsement: neither escape hatch restores what the other one guards.
\<close>

theorem write_gate_exact:
  "fst (difc_may_write ns (operator_run tr)) \<longleftrightarrow>
     (\<forall>r. ReadNs r \<in> since Declassify tr \<longrightarrow> can_flow (fst (ns_label r difc_boot)) (fst (ns_label ns difc_boot))) \<and>
     (fst (ns_requires ns difc_boot) = 0 \<or> Ingress \<notin> since Endorse tr)"
  using operator_run_invariant [of tr]
  by (auto simp: may_write_wf taint_matches_def difc_wf_boot can_flow_subset TRUSTED_def UNTRUSTED_def)

text \<open>The gate separates the two directions: a vault reader may not write the scratch namespace.\<close>

theorem write_gate_exact_witness:
  "\<not> fst (difc_may_write 1 (operator_run [ReadNs 3, Endorse])) \<and>
   fst (difc_may_write 1 (operator_run [ReadNs 3, Declassify, Ingress]))"
  by (simp add: write_gate_exact difc_wf_boot can_flow_subset label_of_def requirement_of_def
      NS_SECRET_VAULT_def since_def)

end
