(* ===== verification/Ticket_Lock.thy ===== *)
theory Ticket_Lock
  imports Dezh_Prelude
begin

text \<open>
  The kernel's mutual exclusion: the ticket counters of \<open>dezh-core/src/sync.rs\<close> and the
  interrupt-masking lock around them, \<open>dezh-boot/src/sync.rs\<close>. A hart is a program counter
  through \<open>TicketLock::lock\<close> and \<open>Guard::drop\<close>, one constructor per atomic access, so every
  interleaving of the harts is a run of the step relation. The counters are 32-bit and wrap.
  The lemmas show that the machine refines a FIFO lock on the queue of waiting harts.
\<close>

section \<open>The counters\<close>

record Ticket =
  next_ticket :: u32
  now_serving :: u32

definition new_ticket :: Ticket where
  "new_ticket = \<lparr> next_ticket = 0, now_serving = 0 \<rparr>"

definition with_counters :: "u32 \<Rightarrow> u32 \<Rightarrow> Ticket" where
  "with_counters n s = \<lparr> next_ticket = n, now_serving = s \<rparr>"

definition counters :: "Ticket \<Rightarrow> u32 \<times> u32" where
  "counters t = (next_ticket t, now_serving t)"

text \<open>
  \<open>acquire\<close> is a fetch-and-add followed by a spin on the served counter; \<open>release\<close> is a load
  followed by a store.
\<close>

definition acquire_take :: "Ticket \<Rightarrow> u32 \<times> Ticket" where
  "acquire_take t = (next_ticket t, t\<lparr> next_ticket := next_ticket t + 1 \<rparr>)"

definition acquire_served :: "u32 \<Rightarrow> Ticket \<Rightarrow> bool" where
  "acquire_served ticket t \<longleftrightarrow> now_serving t = ticket"

definition release_load :: "Ticket \<Rightarrow> u32" where
  "release_load t = now_serving t"

definition release_store :: "u32 \<Rightarrow> Ticket \<Rightarrow> Ticket" where
  "release_store served t = t\<lparr> now_serving := served + 1 \<rparr>"

lemmas ticket_defs = acquire_take_def acquire_served_def release_load_def release_store_def
  with_counters_def

section \<open>The lock\<close>

text \<open>Each program counter past the masking carries \<open>irq_was_on\<close>, the state to restore.\<close>

datatype lock_pc =
    Outside
  | Masked bool
  | Spinning u32 bool
  | Inside u32 bool
  | Releasing u32 bool
  | Released bool

record lock_sys =
  ticket :: Ticket
  hart_pc :: "nat \<Rightarrow> lock_pc"
  hart_sie :: "nat \<Rightarrow> bool"

datatype lock_event = IrqOff nat | Take nat | Enter nat | Load nat | Store nat | IrqRestore nat | SetSie nat bool

text \<open>
  \<open>SetSie\<close> is the rest of the kernel: outside the lock a hart may turn its interrupts on or
  off as it likes, and a trap handler is entered with them off.
\<close>

inductive lock_step :: "nat \<Rightarrow> lock_sys \<Rightarrow> lock_event \<Rightarrow> lock_sys \<Rightarrow> bool" for H where
  irq_off: "h < H \<Longrightarrow> hart_pc s h = Outside \<Longrightarrow>
    lock_step H s (IrqOff h) (s\<lparr> hart_pc := (hart_pc s)(h := Masked (hart_sie s h)),
                                hart_sie := (hart_sie s)(h := False) \<rparr>)"
| take: "h < H \<Longrightarrow> hart_pc s h = Masked w \<Longrightarrow> acquire_take (ticket s) = (k, t) \<Longrightarrow>
    lock_step H s (Take h) (s\<lparr> ticket := t, hart_pc := (hart_pc s)(h := Spinning k w) \<rparr>)"
| enter: "h < H \<Longrightarrow> hart_pc s h = Spinning k w \<Longrightarrow> acquire_served k (ticket s) \<Longrightarrow>
    lock_step H s (Enter h) (s\<lparr> hart_pc := (hart_pc s)(h := Inside k w) \<rparr>)"
| load: "h < H \<Longrightarrow> hart_pc s h = Inside k w \<Longrightarrow>
    lock_step H s (Load h) (s\<lparr> hart_pc := (hart_pc s)(h := Releasing (release_load (ticket s)) w) \<rparr>)"
| store: "h < H \<Longrightarrow> hart_pc s h = Releasing served w \<Longrightarrow>
    lock_step H s (Store h) (s\<lparr> ticket := release_store served (ticket s),
                               hart_pc := (hart_pc s)(h := Released w) \<rparr>)"
| restore: "h < H \<Longrightarrow> hart_pc s h = Released w \<Longrightarrow>
    lock_step H s (IrqRestore h) (s\<lparr> hart_pc := (hart_pc s)(h := Outside),
                                    hart_sie := (hart_sie s)(h := w \<or> hart_sie s h) \<rparr>)"
| set_sie: "h < H \<Longrightarrow> hart_pc s h = Outside \<Longrightarrow>
    lock_step H s (SetSie h b) (s\<lparr> hart_sie := (hart_sie s)(h := b) \<rparr>)"

inductive_cases lock_stepE: "lock_step H s e s'"

inductive lock_run :: "nat \<Rightarrow> lock_sys \<Rightarrow> lock_event list \<Rightarrow> lock_sys \<Rightarrow> bool" for H s0 where
  start: "lock_run H s0 [] s0"
| step: "lock_run H s0 es s \<Longrightarrow> lock_step H s e s' \<Longrightarrow> lock_run H s0 (es @ [e]) s'"

text \<open>The step relation, computed.\<close>

fun lock_exec :: "nat \<Rightarrow> lock_event \<Rightarrow> lock_sys \<Rightarrow> lock_sys option" where
  "lock_exec H (IrqOff h) s = (if h < H \<and> hart_pc s h = Outside
     then Some (s\<lparr> hart_pc := (hart_pc s)(h := Masked (hart_sie s h)), hart_sie := (hart_sie s)(h := False) \<rparr>)
     else None)"
| "lock_exec H (Take h) s = (case hart_pc s h of
     Masked w \<Rightarrow> (if h < H then (let (k, t) = acquire_take (ticket s) in
       Some (s\<lparr> ticket := t, hart_pc := (hart_pc s)(h := Spinning k w) \<rparr>)) else None)
   | _ \<Rightarrow> None)"
| "lock_exec H (Enter h) s = (case hart_pc s h of
     Spinning k w \<Rightarrow> (if h < H \<and> acquire_served k (ticket s)
       then Some (s\<lparr> hart_pc := (hart_pc s)(h := Inside k w) \<rparr>) else None)
   | _ \<Rightarrow> None)"
| "lock_exec H (Load h) s = (case hart_pc s h of
     Inside k w \<Rightarrow> (if h < H
       then Some (s\<lparr> hart_pc := (hart_pc s)(h := Releasing (release_load (ticket s)) w) \<rparr>) else None)
   | _ \<Rightarrow> None)"
| "lock_exec H (Store h) s = (case hart_pc s h of
     Releasing served w \<Rightarrow> (if h < H
       then Some (s\<lparr> ticket := release_store served (ticket s), hart_pc := (hart_pc s)(h := Released w) \<rparr>)
       else None)
   | _ \<Rightarrow> None)"
| "lock_exec H (IrqRestore h) s = (case hart_pc s h of
     Released w \<Rightarrow> (if h < H
       then Some (s\<lparr> hart_pc := (hart_pc s)(h := Outside), hart_sie := (hart_sie s)(h := w \<or> hart_sie s h) \<rparr>)
       else None)
   | _ \<Rightarrow> None)"
| "lock_exec H (SetSie h b) s = (if h < H \<and> hart_pc s h = Outside
     then Some (s\<lparr> hart_sie := (hart_sie s)(h := b) \<rparr>) else None)"

lemma lock_exec_iff: "lock_exec H e s = Some t \<longleftrightarrow> lock_step H s e t"
proof
  show "lock_step H s e t" if "lock_exec H e s = Some t"
    using that by (cases e) (auto simp: Let_def intro: lock_step.intros split: lock_pc.splits if_splits prod.splits)
  show "lock_exec H e s = Some t" if "lock_step H s e t"
    using that by cases auto
qed

lemma lock_run_exec:
  "fold (\<lambda>e s. Option.bind s (lock_exec H e)) es (Some s0) = Some s \<Longrightarrow> lock_run H s0 es s"
proof (induction es arbitrary: s rule: rev_induct)
  case (snoc e es)
  then show ?case
    by (auto simp: lock_exec_iff bind_eq_Some_conv intro: lock_run.step)
qed (simp add: lock_run.start)

definition lock_start :: "u32 \<Rightarrow> lock_sys" where
  "lock_start n = \<lparr> ticket = with_counters n n, hart_pc = (\<lambda>_. Outside), hart_sie = (\<lambda>_. True) \<rparr>"

fun critical :: "lock_pc \<Rightarrow> bool" where
  "critical (Inside _ _) = True"
| "critical (Releasing _ _) = True"
| "critical _ = False"

fun queued :: "lock_pc \<Rightarrow> bool" where
  "queued (Spinning _ _) = True"
| "queued pc = critical pc"

section \<open>The specification: a FIFO lock\<close>

record fifo_lock =
  line :: "nat list"
  busy :: bool

text \<open>A hart joins the end of the line; only its head may enter, and leaving pops it.\<close>

fun fifo_step :: "lock_event \<Rightarrow> fifo_lock \<Rightarrow> fifo_lock option" where
  "fifo_step (Take h) a = (if h \<in> set (line a) then None else Some (a\<lparr> line := line a @ [h] \<rparr>))"
| "fifo_step (Enter h) a = (case line a of
      [] \<Rightarrow> None
    | x # _ \<Rightarrow> if x = h \<and> \<not> busy a then Some (a\<lparr> busy := True \<rparr>) else None)"
| "fifo_step (Store h) a = (case line a of
      [] \<Rightarrow> None
    | x # xs \<Rightarrow> if x = h \<and> busy a then Some \<lparr> line = xs, busy = False \<rparr> else None)"
| "fifo_step _ a = Some a"

definition fifo_free :: fifo_lock where
  "fifo_free = \<lparr> line = [], busy = False \<rparr>"

fun fifo_run :: "lock_event list \<Rightarrow> fifo_lock \<Rightarrow> fifo_lock option" where
  "fifo_run [] a = Some a"
| "fifo_run (e # es) a = (case fifo_step e a of None \<Rightarrow> None | Some a' \<Rightarrow> fifo_run es a')"

lemma fifo_run_snoc:
  "fifo_run (es @ [e]) a = (case fifo_run es a of None \<Rightarrow> None | Some a' \<Rightarrow> fifo_step e a')"
  by (induction es arbitrary: a) (auto split: option.splits)

section \<open>Simulation\<close>

fun ticket_of :: "lock_pc \<Rightarrow> u32" where
  "ticket_of (Spinning k _) = k"
| "ticket_of (Inside k _) = k"
| "ticket_of (Releasing k _) = k"
| "ticket_of _ = 0"

definition lock_abs :: "nat \<Rightarrow> lock_sys \<Rightarrow> fifo_lock \<Rightarrow> bool" where
  "lock_abs H s a \<longleftrightarrow>
     distinct (line a) \<and> set (line a) = {h. queued (hart_pc s h)} \<and> set (line a) \<subseteq> {..<H} \<and>
     next_ticket (ticket s) = now_serving (ticket s) + of_nat (length (line a)) \<and>
     (\<forall>i < length (line a). ticket_of (hart_pc s (line a ! i)) = now_serving (ticket s) + of_nat i) \<and>
     (\<forall>h. critical (hart_pc s h) \<longleftrightarrow> busy a \<and> line a \<noteq> [] \<and> hd (line a) = h) \<and>
     (busy a \<longrightarrow> line a \<noteq> [])"

lemma lock_abs_start: "lock_abs H (lock_start n) fifo_free"
  by (simp add: lock_abs_def lock_start_def fifo_free_def with_counters_def)

lemma distinct_line_length:
  assumes "distinct xs" "set xs \<subseteq> {..<H :: nat}" "H < 2 ^ 32"
  shows "length xs < 2 ^ 32"
  using card_mono [OF finite_lessThan assms(2)] assms(3) distinct_card [OF assms(1)] by simp

text \<open>A step that moves a hart without touching its place in the line keeps the relation.\<close>

lemma lock_abs_cong:
  assumes "lock_abs H s a" and "ticket s' = ticket s"
    and same: "\<And>h. queued (hart_pc s' h) = queued (hart_pc s h) \<and>
      critical (hart_pc s' h) = critical (hart_pc s h) \<and>
      (queued (hart_pc s h) \<longrightarrow> ticket_of (hart_pc s' h) = ticket_of (hart_pc s h))"
  shows "lock_abs H s' a"
proof -
  have "queued (hart_pc s (line a ! i))" if "i < length (line a)" for i
    using assms(1) nth_mem [OF that] by (simp add: lock_abs_def)
  with assms show ?thesis unfolding lock_abs_def by auto
qed

text \<open>The hart whose ticket is being served is the head of the line.\<close>

lemma served_is_head:
  assumes abs: "lock_abs H s a" and H: "H < 2 ^ 32"
    and pc: "hart_pc s h = Spinning k w" and served: "acquire_served k (ticket s)"
  shows "\<exists>xs. line a = h # xs"
proof -
  from abs pc have "h \<in> set (line a)" by (simp add: lock_abs_def)
  then obtain i where i: "i < length (line a)" "line a ! i = h" by (auto simp: in_set_conv_nth)
  with abs pc have "k = now_serving (ticket s) + of_nat i" by (auto simp: lock_abs_def)
  with served have "(of_nat i :: u32) = 0" by (simp add: acquire_served_def)
  moreover have "i < 2 ^ 32"
    using i distinct_line_length [of "line a" H] abs H by (auto simp: lock_abs_def)
  ultimately have "i = 0" by (auto simp: word_of_nat_eq_0_iff dest: nat_dvd_not_less)
  with i show ?thesis by (cases "line a") auto
qed

lemma critical_is_head:
  assumes "lock_abs H s a" and "critical (hart_pc s h)"
  shows "busy a \<and> line a = h # tl (line a) \<and> ticket_of (hart_pc s h) = now_serving (ticket s)"
proof -
  from assms have "busy a \<and> line a \<noteq> [] \<and> hd (line a) = h" by (simp add: lock_abs_def)
  moreover from this assms(1) have "ticket_of (hart_pc s (line a ! 0)) = now_serving (ticket s)"
    by (simp add: lock_abs_def)
  ultimately show ?thesis by (cases "line a") auto
qed

lemma lock_abs_store:
  assumes abs: "lock_abs H s a" and line: "line a = h # xs" and "busy a"
  shows "lock_abs H (s\<lparr> ticket := (ticket s)\<lparr> now_serving := now_serving (ticket s) + 1 \<rparr>,
      hart_pc := (hart_pc s)(h := Released w) \<rparr>) \<lparr> line = xs, busy = False \<rparr>"
proof -
  have "h \<notin> set xs" and set: "insert h (set xs) = {h. queued (hart_pc s h)}"
    using abs line by (auto simp: lock_abs_def)
  moreover have "ticket_of (hart_pc s (xs ! i)) = now_serving (ticket s) + 1 + of_nat i \<and> xs ! i \<noteq> h"
    if "i < length xs" for i
  proof -
    have "ticket_of (hart_pc s (line a ! Suc i)) = now_serving (ticket s) + of_nat (Suc i)"
      using abs line that unfolding lock_abs_def by (metis Suc_less_eq length_Cons)
    with line that \<open>h \<notin> set xs\<close> show ?thesis by (auto simp: add.assoc)
  qed
  moreover have "set xs = {h'. queued (((hart_pc s)(h := Released w)) h')}"
    using set \<open>h \<notin> set xs\<close> by auto
  moreover have "\<not> critical (((hart_pc s)(h := Released w)) h')" for h'
    using abs line by (simp add: lock_abs_def)
  moreover have "set xs \<subseteq> {..<H}" using abs line by (simp add: lock_abs_def)
  ultimately show ?thesis using abs line by (auto simp: lock_abs_def add.assoc)
qed

lemma lock_abs_step:
  assumes abs: "lock_abs H s a" and H: "H < 2 ^ 32" and st: "lock_step H s e s'"
  shows "\<exists>a'. fifo_step e a = Some a' \<and> lock_abs H s' a'"
  using st
proof cases
  case (irq_off h)
  then have "lock_abs H s' a" by (intro lock_abs_cong [OF abs]) auto
  with irq_off show ?thesis by simp
next
  case (take h w k t)
  with abs have "h \<notin> set (line a)" by (auto simp: lock_abs_def)
  moreover from this have "\<And>i. i < length (line a) \<Longrightarrow> line a ! i \<noteq> h" by auto
  ultimately show ?thesis using abs take
    by (auto simp: lock_abs_def ticket_defs nth_append less_Suc_eq hd_append hd_conv_nth)
next
  case (enter h k w)
  from served_is_head [OF abs H enter(4,5)] obtain xs where line: "line a = h # xs" by auto
  with abs have "critical (hart_pc s h) \<longleftrightarrow> busy a" by (simp add: lock_abs_def)
  with abs enter line show ?thesis by (auto simp: lock_abs_def)
next
  case (load h k w)
  then have "release_load (ticket s) = k"
    using critical_is_head [OF abs, of h] by (simp add: release_load_def)
  with load have "lock_abs H s' a" by (intro lock_abs_cong [OF abs]) auto
  with load show ?thesis by simp
next
  case (store h k w)
  then obtain xs where line: "line a = h # xs" and b: "busy a" and k: "k = now_serving (ticket s)"
    using critical_is_head [OF abs, of h] by auto
  with lock_abs_store [OF abs line b] store have "lock_abs H s' \<lparr> line = xs, busy = False \<rparr>"
    by (simp add: release_store_def)
  with store line b show ?thesis by simp
next
  case (restore h w)
  then have "lock_abs H s' a" by (intro lock_abs_cong [OF abs]) auto
  with restore show ?thesis by simp
next
  case (set_sie h b)
  then have "lock_abs H s' a" by (intro lock_abs_cong [OF abs]) auto
  with set_sie show ?thesis by simp
qed

lemma lock_run_abs:
  assumes "lock_run H (lock_start n) es s" and "H < 2 ^ 32"
  shows "\<exists>a. fifo_run es fifo_free = Some a \<and> lock_abs H s a"
  using assms(1)
proof induction
  case start
  show ?case by (simp add: lock_abs_start)
next
  case (step es s e s')
  then obtain a where "fifo_run es fifo_free = Some a" "lock_abs H s a" by blast
  with lock_abs_step [OF _ assms(2) step.hyps(2)] show ?case by (auto simp: fifo_run_snoc)
qed

text \<open>Between the masking and the restoring a hart's interrupts are off.\<close>

lemma lock_run_masked:
  assumes "lock_run H (lock_start n) es s"
  shows "hart_pc s h \<noteq> Outside \<longrightarrow> \<not> hart_sie s h"
  using assms
proof induction
  case start
  show ?case by (simp add: lock_start_def)
next
  case (step es s e s')
  from step(2) step(3) show ?case by cases auto
qed

section \<open>What the lock guarantees\<close>

text \<open>
  C4. The lock is fair and first-in first-out, wherever the counters start and across their
  wrap-around: with fewer than \<open>2^32\<close> harts, every interleaving of their loads, stores and
  fetch-and-adds is, event for event, a run of the FIFO lock, and the hart in its critical
  section is the head of that lock's line.
\<close>

theorem ticket_lock_refines_fifo:
  assumes "lock_run H (lock_start n) es s" and "H < 2 ^ 32"
  shows "\<exists>a. fifo_run es fifo_free = Some a \<and>
    (\<forall>h. critical (hart_pc s h) \<longleftrightarrow> busy a \<and> line a \<noteq> [] \<and> hd (line a) = h) \<and>
    set (line a) = {h. queued (hart_pc s h)}"
  using lock_run_abs [OF assms] by (auto simp: lock_abs_def)

text \<open>
  C12. Mutual exclusion, for fewer than \<open>2^32\<close> harts: in every reachable state at most one hart is between the end of
  \<open>acquire\<close> and the store of \<open>release\<close>, and a hart there has its interrupts masked, so no
  handler on the same hart can wait for the lock its own hart holds.
\<close>

theorem ticket_lock_mutual_exclusion:
  assumes "lock_run H (lock_start n) es s" and "H < 2 ^ 32"
    and "critical (hart_pc s h)"
  shows "\<not> hart_sie s h \<and> (\<forall>h'. critical (hart_pc s h') \<longrightarrow> h' = h)"
proof -
  have "hart_pc s h \<noteq> Outside" using assms(3) by auto
  then show ?thesis
    using lock_run_abs [OF assms(1,2)] lock_run_masked [OF assms(1)] assms(3)
    by (auto simp: lock_abs_def)
qed

text \<open>
  C13. With fewer than \<open>2^32\<close> harts the lock is never stuck: in every reachable state where some hart waits for it or
  holds it, the hart at the head of the line can take its next step (enter, or move on to the
  store that serves the next one), including when the counters have wrapped in between.
\<close>

theorem ticket_lock_never_stuck:
  assumes "lock_run H (lock_start n) es s" and "H < 2 ^ 32"
    and "queued (hart_pc s h)"
  shows "\<exists>a h' e s'. fifo_run es fifo_free = Some a \<and> line a \<noteq> [] \<and> h' = hd (line a) \<and>
    e \<in> {Enter h', Load h', Store h'} \<and> lock_step H s e s'"
proof -
  from lock_run_abs [OF assms(1,2)] obtain a
    where a: "fifo_run es fifo_free = Some a" and abs: "lock_abs H s a" by auto
  with assms(3) obtain x xs where line: "line a = x # xs"
    by (cases "line a") (auto simp: lock_abs_def)
  with abs have q: "queued (hart_pc s x)" and H: "x < H" by (auto simp: lock_abs_def)
  have "ticket_of (hart_pc s x) = now_serving (ticket s)"
    using abs line by (auto simp: lock_abs_def)
  with q H have "\<exists>e \<in> {Enter x, Load x, Store x}. \<exists>s'. lock_exec H e s = Some s'"
    by (cases "hart_pc s x") (auto simp: acquire_served_def)
  with a line show ?thesis by (auto simp: lock_exec_iff)
qed

text \<open>A run across the wrap of both counters: hart 0 takes the last ticket, hart 1 the first.\<close>

definition wrap_events :: "lock_event list" where
  "wrap_events = [IrqOff 0, Take 0, IrqOff 1, Take 1, Enter 0, Load 0, Store 0, Enter 1]"

definition wrap_state :: lock_sys where
  "wrap_state = \<lparr> ticket = \<lparr> next_ticket = 1, now_serving = 0 \<rparr>,
     hart_pc = (\<lambda>_. Outside)(0 := Released True, 1 := Inside 0 True),
     hart_sie = (\<lambda>_. True)(0 := False, 1 := False) \<rparr>"

lemma wrap_run: "lock_run 2 (lock_start (- 1)) wrap_events wrap_state"
proof -
  have "fold (\<lambda>e s. Option.bind s (lock_exec 2 e)) wrap_events (Some (lock_start (- 1))) = Some wrap_state"
    by (simp add: wrap_events_def wrap_state_def lock_start_def ticket_defs fun_upd_twist fun_upd_idem)
  then show ?thesis by (rule lock_run_exec)
qed

theorem ticket_lock_refines_fifo_witness:
  "\<exists>a. fifo_run wrap_events fifo_free = Some a \<and> critical (hart_pc wrap_state 1) \<and> hd (line a) = 1"
  using ticket_lock_refines_fifo [OF wrap_run] by (auto simp: wrap_state_def)

theorem ticket_lock_mutual_exclusion_witness:
  "critical (hart_pc wrap_state 1) \<and> \<not> hart_sie wrap_state 1 \<and> \<not> critical (hart_pc wrap_state 0)"
  using ticket_lock_mutual_exclusion [OF wrap_run, of 1] by (auto simp: wrap_state_def)

theorem ticket_lock_never_stuck_witness:
  "\<exists>e s'. e \<in> {Enter 1, Load 1, Store 1} \<and> lock_step 2 wrap_state e s'"
proof -
  have "queued (hart_pc wrap_state 1)" by (simp add: wrap_state_def)
  with ticket_lock_never_stuck [OF wrap_run, of 1] show ?thesis
    by (auto simp: wrap_events_def fifo_free_def)
qed

end
