(* ===== verification/Runq.thy ===== *)
theory Runq
  imports Dezh_Prelude
begin

text \<open>
  The run queue: the bounded ring of \<open>dezh-core/src/runq.rs\<close> and the concurrent drain of
  \<open>dezh-boot/src/smp.rs\<close>. The ring refines a bounded list queue, the contract \<open>bounded_fifo\<close>;
  the drain is a step relation in which several harts interleave after each atomic access,
  every pop being atomic because it happens under the ticket lock. The indices \<open>head\<close> and
  \<open>tail\<close> are 64-bit words that only grow; their arithmetic panics where it would wrap, as in
  the images the repository builds, so that the ring takes \<open>2^64 - 1\<close> pushes in its life.
\<close>

section \<open>The ring\<close>

record RunQueue =
  ring_buf :: "u32 list"
  ring_head :: u64
  ring_tail :: u64

type_synonym 'a checked = "(unit, 'a) outcome"

definition new_runq :: "nat \<Rightarrow> RunQueue" where
  "new_runq N = \<lparr> ring_buf = replicate N 0, ring_head = 0, ring_tail = 0 \<rparr>"

definition ring_len :: "RunQueue \<Rightarrow> u64 checked" where
  "ring_len q = (if ring_tail q < ring_head q then Panic else Ok (ring_tail q - ring_head q))"

definition ring_is_empty :: "RunQueue \<Rightarrow> bool" where
  "ring_is_empty q \<longleftrightarrow> ring_head q = ring_tail q"

definition ring_is_full :: "RunQueue \<Rightarrow> bool checked" where
  "ring_is_full q = obind (ring_len q) (\<lambda>n. Ok (unat n \<ge> length (ring_buf q)))"

definition ring_push :: "u32 \<Rightarrow> RunQueue \<Rightarrow> (bool \<times> RunQueue) checked" where
  "ring_push v q =
     obind (ring_is_full q) (\<lambda>full.
       if full then Ok (False, q)
       else if ring_tail q = - 1 then Panic
       else Ok (True, q\<lparr> ring_buf := (ring_buf q)[unat (ring_tail q) mod length (ring_buf q) := v],
                        ring_tail := ring_tail q + 1 \<rparr>))"

definition ring_pop :: "RunQueue \<Rightarrow> (u32 option \<times> RunQueue) checked" where
  "ring_pop q =
     (if ring_is_empty q then Ok (None, q)
      else if ring_head q = - 1 then Panic
      else Ok (Some (ring_buf q ! (unat (ring_head q) mod length (ring_buf q))),
               q\<lparr> ring_head := ring_head q + 1 \<rparr>))"

section \<open>The contract: a bounded first-in first-out queue\<close>

text \<open>Histories of a queue, and what each operation answered.\<close>

datatype 'a queue_op = QPush 'a | QPop
datatype 'a queue_answer = Accepted bool | Got "'a option"

fun queue_step :: "('a \<Rightarrow> 'q \<Rightarrow> (bool \<times> 'q) checked) \<Rightarrow> ('q \<Rightarrow> ('a option \<times> 'q) checked) \<Rightarrow> 'a queue_op \<Rightarrow> 'q \<Rightarrow>
    ('a queue_answer \<times> 'q) checked" where
  "queue_step push pop (QPush v) q = obind (push v q) (\<lambda>(b, q). Ok (Accepted b, q))"
| "queue_step push pop QPop q = obind (pop q) (\<lambda>(r, q). Ok (Got r, q))"

fun queue_answers :: "('a \<Rightarrow> 'q \<Rightarrow> (bool \<times> 'q) checked) \<Rightarrow> ('q \<Rightarrow> ('a option \<times> 'q) checked) \<Rightarrow> 'a queue_op list \<Rightarrow> 'q \<Rightarrow>
    'a queue_answer list checked" where
  "queue_answers push pop [] q = Ok []"
| "queue_answers push pop (opr # oprs) q =
     obind (queue_step push pop opr q) (\<lambda>(a, q). obind (queue_answers push pop oprs q) (\<lambda>as. Ok (a # as)))"

fun pushes :: "'a queue_op list \<Rightarrow> nat" where
  "pushes [] = 0"
| "pushes (QPush v # oprs) = Suc (pushes oprs)"
| "pushes (QPop # oprs) = pushes oprs"

text \<open>The specification: a list that refuses to grow past its capacity.\<close>

fun spec_answers :: "nat \<Rightarrow> 'a queue_op list \<Rightarrow> 'a list \<Rightarrow> 'a queue_answer list" where
  "spec_answers N [] xs = []"
| "spec_answers N (QPush v # oprs) xs =
     (if length xs < N then Accepted True # spec_answers N oprs (xs @ [v]) else Accepted False # spec_answers N oprs xs)"
| "spec_answers N (QPop # oprs) [] = Got None # spec_answers N oprs []"
| "spec_answers N (QPop # oprs) (x # xs) = Got (Some x) # spec_answers N oprs xs"

text \<open>
  The laws. \<open>taken\<close> counts the pushes a queue has accepted; \<open>life\<close> is how many it can accept
  in all. Short of that no operation panics.
\<close>

locale bounded_fifo =
  fixes push :: "'a \<Rightarrow> 'q \<Rightarrow> (bool \<times> 'q) checked"
    and pop :: "'q \<Rightarrow> ('a option \<times> 'q) checked"
    and content :: "'q \<Rightarrow> 'a list"
    and capacity :: nat
    and wf :: "'q \<Rightarrow> bool"
    and taken :: "'q \<Rightarrow> nat"
    and life :: nat
  assumes push_full: "wf q \<Longrightarrow> length (content q) \<ge> capacity \<Longrightarrow> push v q = Ok (False, q)"
    and push_ok: "wf q \<Longrightarrow> length (content q) < capacity \<Longrightarrow> taken q < life \<Longrightarrow>
      \<exists>q'. push v q = Ok (True, q') \<and> wf q' \<and> content q' = content q @ [v] \<and> taken q' = Suc (taken q)"
    and pop_empty: "wf q \<Longrightarrow> content q = [] \<Longrightarrow> pop q = Ok (None, q)"
    and pop_ok: "wf q \<Longrightarrow> content q = v # vs \<Longrightarrow>
      \<exists>q'. pop q = Ok (Some v, q') \<and> wf q' \<and> content q' = vs \<and> taken q' = taken q"
begin

text \<open>Pushing a list that fits.\<close>

lemma push_all:
  assumes "wf q" "length (content q) + length vs \<le> capacity" "taken q + length vs \<le> life"
  shows "\<exists>q'. fold (\<lambda>v m. obind m (\<lambda>q. obind (push v q) (\<lambda>(_, q). Ok q))) vs (Ok q) = Ok q' \<and> wf q' \<and> content q' = content q @ vs"
  using assms
proof (induction vs arbitrary: q)
  case (Cons v vs)
  with push_ok [OF Cons.prems(1), of v] obtain q' where
    "push v q = Ok (True, q')" "wf q'" "content q' = content q @ [v]" "taken q' = Suc (taken q)" by auto
  with Cons.IH [of q'] Cons.prems show ?case by simp
qed simp

lemma pop_cases:
  assumes "wf q"
  obtains (empty) "content q = []" "pop q = Ok (None, q)"
  | (item) v vs q' where "content q = v # vs" "pop q = Ok (Some v, q')" "wf q'" "content q' = vs" "taken q' = taken q"
  using pop_empty [OF assms] pop_ok [OF assms] by (cases "content q") fastforce+

end

context bounded_fifo
begin

lemma answers_as_specified:
  "wf q \<Longrightarrow> taken q + pushes oprs \<le> life \<Longrightarrow> queue_answers push pop oprs q = Ok (spec_answers capacity oprs (content q))"
proof (induction oprs arbitrary: q)
  case (Cons opr oprs)
  show ?case
  proof (cases opr)
    case (QPush v)
    show ?thesis
    proof (cases "length (content q) < capacity")
      case True
      with Cons.prems QPush push_ok [of q v] obtain q' where
        "push v q = Ok (True, q')" "wf q'" "content q' = content q @ [v]" "taken q' = Suc (taken q)" by auto
      with Cons.IH [of q'] Cons.prems QPush True show ?thesis by simp
    next
      case False
      with Cons QPush push_full [of q v] show ?thesis by simp
    qed
  next
    case QPop
    from \<open>wf q\<close> show ?thesis
      by (cases rule: pop_cases) (use QPop Cons in auto)
  qed
qed simp

end

section \<open>The ring satisfies the contract\<close>

definition ring_wf :: "nat \<Rightarrow> RunQueue \<Rightarrow> bool" where
  "ring_wf N q \<longleftrightarrow> length (ring_buf q) = N \<and> ring_head q \<le> ring_tail q \<and> unat (ring_tail q) \<le> unat (ring_head q) + N"

definition ring_content :: "RunQueue \<Rightarrow> u32 list" where
  "ring_content q = map (\<lambda>i. ring_buf q ! (i mod length (ring_buf q))) [unat (ring_head q)..<unat (ring_tail q)]"

definition ring_taken :: "RunQueue \<Rightarrow> nat" where
  "ring_taken q = unat (ring_tail q)"

lemma new_runq_wf: "ring_wf N (new_runq N)" "ring_content (new_runq N) = []" "ring_taken (new_runq N) = 0"
  by (simp_all add: ring_wf_def new_runq_def ring_content_def ring_taken_def)

lemma mod_neq_in_window:
  fixes i t N :: nat
  assumes "i < t" "t < i + N"
  shows "t mod N \<noteq> i mod N"
proof
  assume "t mod N = i mod N"
  then have "N dvd t - i" using assms by (metis less_imp_le mod_eq_dvd_iff_nat)
  with assms show False by (auto dest: dvd_imp_le)
qed

lemma unat_top: "unat (- 1 :: u64) = 2 ^ 64 - 1"
  by (simp add: unsigned_minus_1_eq_mask mask_eq_exp_minus_1)

lemma unat_next: "(x :: u64) \<noteq> - 1 \<Longrightarrow> unat (x + 1) = Suc (unat x)"
  by (metis Suc_eq_plus1 add.commute add_eq_0_iff unatSuc)

lemma ring_push_content:
  assumes wf: "ring_wf N q" and room: "unat (ring_tail q) < unat (ring_head q) + N" and more: "ring_tail q \<noteq> - 1"
  shows "ring_content (q\<lparr> ring_buf := (ring_buf q)[unat (ring_tail q) mod N := v], ring_tail := ring_tail q + 1 \<rparr>)
    = ring_content q @ [v]"
proof -
  have "0 < N" "unat (ring_head q) \<le> unat (ring_tail q)" using assms by (auto simp: ring_wf_def word_le_nat_alt)
  moreover have "(ring_buf q)[unat (ring_tail q) mod N := v] ! (i mod N) = ring_buf q ! (i mod N)"
    if "unat (ring_head q) \<le> i" "i < unat (ring_tail q)" for i
    using that room mod_neq_in_window [of i "unat (ring_tail q)" N] by simp
  ultimately show ?thesis using wf by (simp add: ring_content_def ring_wf_def unat_next [OF more])
qed

interpretation ring: bounded_fifo ring_push ring_pop ring_content N "ring_wf N" ring_taken "2 ^ 64 - 1" for N
proof
  fix q v assume wf: "ring_wf N q"
  have le: "unat (ring_head q) \<le> unat (ring_tail q)" using wf by (simp add: ring_wf_def word_le_nat_alt)
  have n: "unat (ring_tail q - ring_head q) = unat (ring_tail q) - unat (ring_head q)"
    using wf by (intro unat_sub) (simp add: ring_wf_def)
  have len: "length (ring_content q) = unat (ring_tail q - ring_head q)" by (simp add: ring_content_def n)
  have full: "ring_is_full q = Ok (N \<le> length (ring_content q))"
    using wf by (simp add: ring_is_full_def ring_len_def len ring_wf_def not_less)
  show "N \<le> length (ring_content q) \<Longrightarrow> ring_push v q = Ok (False, q)"
    by (simp add: ring_push_def full)
  show "\<exists>q'. ring_push v q = Ok (True, q') \<and> ring_wf N q' \<and> ring_content q' = ring_content q @ [v] \<and> ring_taken q' = Suc (ring_taken q)"
    if "length (ring_content q) < N" "ring_taken q < 2 ^ 64 - 1"
  proof -
    have more: "ring_tail q \<noteq> - 1" using that(2) by (auto simp: ring_taken_def unat_top)
    have room: "unat (ring_tail q) < unat (ring_head q) + N" using that(1) le by (simp add: len n)
    show ?thesis using wf that(1) room le ring_push_content [OF wf room more, of v]
      by (auto simp: ring_push_def full more ring_wf_def ring_taken_def unat_next word_le_nat_alt)
  qed
next
  fix q assume wf: "ring_wf N q"
  then have le: "unat (ring_head q) \<le> unat (ring_tail q)" by (simp add: ring_wf_def word_le_nat_alt)
  show "ring_content q = [] \<Longrightarrow> ring_pop q = Ok (None, q)"
    using le by (auto simp: ring_pop_def ring_is_empty_def ring_content_def word_unat_eq_iff)
  fix v vs assume c: "ring_content q = v # vs"
  then have lt: "unat (ring_head q) < unat (ring_tail q)" by (auto simp: ring_content_def upt_eq_Cons_conv)
  then have "ring_head q \<noteq> - 1" using unsigned_less [of "ring_tail q", where 'a = nat] by (auto simp: unat_top)
  with c lt show "\<exists>q'. ring_pop q = Ok (Some v, q') \<and> ring_wf N q' \<and> ring_content q' = vs \<and> ring_taken q' = ring_taken q"
    using wf by (auto simp: ring_pop_def ring_is_empty_def ring_wf_def ring_content_def ring_taken_def upt_conv_Cons
        unat_next word_le_nat_alt)
qed

section \<open>Draining the queue from several harts\<close>

definition NJOBS :: nat where "NJOBS = 48"
definition RUNQ_CAP :: nat where "RUNQ_CAP = 64"

text \<open>Where a hart is in the body of \<open>drain_runq\<close>: one constructor per shared access.\<close>

datatype drain_pc = AtPop | AtRuns u32 | AtHart u32 | AtDone | Drained

record smp_pool =
  RUNQ :: RunQueue
  JOB_RUNS :: "u32 list"
  JOB_HART :: "u32 list"
  JOBS_DONE :: u64
  drain_pcs :: "drain_pc list"

definition runq_push :: "u32 \<Rightarrow> smp_pool \<Rightarrow> (bool \<times> smp_pool) checked" where
  "runq_push v s = obind (ring_push v (RUNQ s)) (\<lambda>(ok, q). Ok (ok, s\<lparr> RUNQ := q \<rparr>))"

definition runq_pop :: "smp_pool \<Rightarrow> (u32 option \<times> smp_pool) checked" where
  "runq_pop s = obind (ring_pop (RUNQ s)) (\<lambda>(r, q). Ok (r, s\<lparr> RUNQ := q \<rparr>))"

definition set_pc :: "nat \<Rightarrow> drain_pc \<Rightarrow> smp_pool \<Rightarrow> smp_pool" where
  "set_pc h pc s = s\<lparr> drain_pcs := (drain_pcs s)[h := pc] \<rparr>"

text \<open>One shared access of hart \<open>h\<close> in \<open>drain_runq\<close>.\<close>

definition drain_runq :: "nat \<Rightarrow> smp_pool \<Rightarrow> smp_pool checked" where
  "drain_runq h s =
     (if h \<ge> length (drain_pcs s) then Ok s
      else case drain_pcs s ! h of
        AtPop \<Rightarrow> obind (runq_pop s) (\<lambda>(r, s). Ok (case r of
            Some job \<Rightarrow> set_pc h (if unat job < NJOBS then AtRuns job else AtDone) s
          | None \<Rightarrow> set_pc h Drained s))
      | AtRuns job \<Rightarrow> Ok (set_pc h (AtHart job)
          (s\<lparr> JOB_RUNS := (JOB_RUNS s)[unat job := JOB_RUNS s ! unat job + 1] \<rparr>))
      | AtHart job \<Rightarrow> Ok (set_pc h AtDone (s\<lparr> JOB_HART := (JOB_HART s)[unat job := of_nat h] \<rparr>))
      | AtDone \<Rightarrow> Ok (set_pc h AtPop (s\<lparr> JOBS_DONE := JOBS_DONE s + 1 \<rparr>))
      | Drained \<Rightarrow> Ok s)"

text \<open>A schedule names the hart that makes the next access.\<close>

definition drain_all :: "nat list \<Rightarrow> smp_pool checked \<Rightarrow> smp_pool checked" where
  "drain_all sched m = fold (\<lambda>h m. obind m (drain_runq h)) sched m"

definition smp_new :: "nat \<Rightarrow> smp_pool" where
  "smp_new H = \<lparr> RUNQ = new_runq RUNQ_CAP, JOB_RUNS = replicate NJOBS 0,
     JOB_HART = replicate NJOBS (- 1), JOBS_DONE = 0, drain_pcs = replicate H AtPop \<rparr>"

definition smp_loaded :: "nat \<Rightarrow> u32 list \<Rightarrow> smp_pool checked" where
  "smp_loaded H ids = fold (\<lambda>v m. obind m (\<lambda>s. obind (runq_push v s) (\<lambda>(_, s). Ok s))) ids (Ok (smp_new H))"

section \<open>Each job exactly once\<close>

text \<open>The share of a total that sits in the harts, for a weight on program counters.\<close>

definition in_harts :: "(drain_pc \<Rightarrow> nat) \<Rightarrow> smp_pool \<Rightarrow> nat" where
  "in_harts w s = sum_list (map w (drain_pcs s))"

lemma sum_list_update_weight:
  fixes w :: "'a \<Rightarrow> nat"
  shows "h < length xs \<Longrightarrow> sum_list (map w (xs[h := p])) + w (xs ! h) = sum_list (map w xs) + w p"
  by (induction xs arbitrary: h) (auto split: nat.splits simp: nth_Cons' list_update_code)

definition runs_weight :: "u32 \<Rightarrow> drain_pc \<Rightarrow> nat" where
  "runs_weight x pc = (if pc = AtRuns x then 1 else 0)"

fun done_weight :: "drain_pc \<Rightarrow> nat" where
  "done_weight AtPop = 0"
| "done_weight Drained = 0"
| "done_weight _ = 1"

fun left_weight :: "drain_pc \<Rightarrow> nat" where
  "left_weight AtPop = 1"
| "left_weight (AtRuns _) = 4"
| "left_weight (AtHart _) = 3"
| "left_weight AtDone = 2"
| "left_weight Drained = 0"

definition pool_left :: "smp_pool \<Rightarrow> nat" where
  "pool_left s = 4 * length (ring_content (RUNQ s)) + in_harts left_weight s"

definition pool_inv :: "nat \<Rightarrow> u32 list \<Rightarrow> smp_pool \<Rightarrow> bool" where
  "pool_inv H ids s \<longleftrightarrow>
     ring_wf RUNQ_CAP (RUNQ s) \<and> length (drain_pcs s) = H \<and> length (JOB_RUNS s) = NJOBS \<and>
     (\<forall>h < H. \<forall>x. drain_pcs s ! h = AtRuns x \<longrightarrow> unat x < NJOBS) \<and>
     (\<forall>h < H. drain_pcs s ! h = Drained \<longrightarrow> ring_content (RUNQ s) = []) \<and>
     (\<forall>x. unat x < NJOBS \<longrightarrow>
        JOB_RUNS s ! unat x + of_nat (count_list (ring_content (RUNQ s)) x + in_harts (runs_weight x) s)
          = of_nat (count_list ids x)) \<and>
     JOBS_DONE s + of_nat (length (ring_content (RUNQ s)) + in_harts done_weight s) = of_nat (length ids)"

text \<open>What one access of a hart does to the pool, by the place the hart is at.\<close>

lemma in_harts_set_pc:
  "h < length (drain_pcs s) \<Longrightarrow>
     in_harts w (set_pc h pc s) + w (drain_pcs s ! h) = in_harts w s + w pc"
  by (simp add: in_harts_def set_pc_def sum_list_update_weight)

lemma in_harts_fields [simp]:
  "in_harts w (s\<lparr> RUNQ := q \<rparr>) = in_harts w s" "in_harts w (s\<lparr> JOB_RUNS := r \<rparr>) = in_harts w s"
  "in_harts w (s\<lparr> JOB_HART := r \<rparr>) = in_harts w s" "in_harts w (s\<lparr> JOBS_DONE := d \<rparr>) = in_harts w s"
  by (simp_all add: in_harts_def)

lemma set_pc_fields [simp]:
  "RUNQ (set_pc h pc s) = RUNQ s" "JOB_RUNS (set_pc h pc s) = JOB_RUNS s"
  "JOBS_DONE (set_pc h pc s) = JOBS_DONE s" "JOB_HART (set_pc h pc s) = JOB_HART s"
  "drain_pcs (set_pc h pc s) = (drain_pcs s)[h := pc]"
  by (simp_all add: set_pc_def)

lemma nth_update_other:
  "xs[h := p] ! i = y \<Longrightarrow> i < length xs \<Longrightarrow> y = p \<or> xs ! i = y"
  by (cases "h = i") auto

lemma drain_pop_some:
  assumes inv: "pool_inv H ids s" and h: "h < H" "drain_pcs s ! h = AtPop"
    and c: "ring_content (RUNQ s) = v # vs"
  shows "\<exists>q. ring_wf RUNQ_CAP q \<and> ring_content q = vs \<and>
    drain_runq h s = Ok (set_pc h (if unat v < NJOBS then AtRuns v else AtDone) (s\<lparr> RUNQ := q \<rparr>))"
proof -
  have "ring_wf RUNQ_CAP (RUNQ s)" using inv by (simp add: pool_inv_def)
  with ring.pop_ok c obtain q where "ring_pop (RUNQ s) = Ok (Some v, q)" "ring_wf RUNQ_CAP q" "ring_content q = vs"
    by blast
  with inv h show ?thesis by (auto simp: drain_runq_def runq_pop_def pool_inv_def)
qed

lemma drain_pop_none:
  assumes inv: "pool_inv H ids s" and h: "h < H" "drain_pcs s ! h = AtPop"
    and c: "ring_content (RUNQ s) = []"
  shows "drain_runq h s = Ok (set_pc h Drained s)"
proof -
  have "ring_pop (RUNQ s) = Ok (None, RUNQ s)"
    using inv c ring.pop_empty [of RUNQ_CAP] by (simp add: pool_inv_def)
  with inv h show ?thesis by (simp add: drain_runq_def runq_pop_def pool_inv_def)
qed

lemma pool_inv_pop_some:
  assumes inv: "pool_inv H ids s" and h: "h < H" "drain_pcs s ! h = AtPop"
    and c: "ring_content (RUNQ s) = v # vs" and q: "ring_wf RUNQ_CAP q" "ring_content q = vs"
  shows "pool_inv H ids (set_pc h (if unat v < NJOBS then AtRuns v else AtDone) (s\<lparr> RUNQ := q \<rparr>))"
    (is "pool_inv H ids (set_pc h ?pc ?s)")
proof -
  have len: "h < length (drain_pcs ?s)" using inv h by (simp add: pool_inv_def)
  have runs: "in_harts (runs_weight x) (set_pc h ?pc ?s) = in_harts (runs_weight x) s + runs_weight x ?pc" for x
    using in_harts_set_pc [OF len, of "runs_weight x" ?pc] h by (simp add: runs_weight_def)
  have fin: "in_harts done_weight (set_pc h ?pc ?s) = in_harts done_weight s + 1"
    using in_harts_set_pc [OF len, of done_weight ?pc] h by simp
  show ?thesis
    using inv h c q unfolding pool_inv_def runs fin
    by (auto simp: runs_weight_def algebra_simps dest!: nth_update_other split: if_splits)
qed

lemma pool_inv_move:
  assumes inv: "pool_inv H ids s" and h: "h < H" and pc: "\<And>x. pc \<noteq> AtRuns x"
    and old: "\<And>x. drain_pcs s ! h \<noteq> AtRuns x" and same: "done_weight pc = done_weight (drain_pcs s ! h)"
    and last: "pc = Drained \<Longrightarrow> ring_content (RUNQ s) = []"
  shows "pool_inv H ids (set_pc h pc s)"
proof -
  have len: "h < length (drain_pcs s)" using inv h by (simp add: pool_inv_def)
  have runs: "in_harts (runs_weight x) (set_pc h pc s) = in_harts (runs_weight x) s" for x
    using in_harts_set_pc [OF len, of "runs_weight x" pc] pc old by (simp add: runs_weight_def)
  have fin: "in_harts done_weight (set_pc h pc s) = in_harts done_weight s"
    using in_harts_set_pc [OF len, of done_weight pc] same by simp
  show ?thesis
    using inv pc last unfolding pool_inv_def runs fin by (auto dest!: nth_update_other)
qed

lemma pool_inv_runs:
  assumes inv: "pool_inv H ids s" and h: "h < H" and old: "drain_pcs s ! h = AtRuns job"
  shows "pool_inv H ids (set_pc h (AtHart job)
    (s\<lparr> JOB_RUNS := (JOB_RUNS s)[unat job := JOB_RUNS s ! unat job + 1] \<rparr>))" (is "pool_inv H ids (set_pc h ?pc ?s)")
proof -
  have len: "h < length (drain_pcs ?s)" and job: "unat job < length (JOB_RUNS s)"
    using inv h old by (auto simp: pool_inv_def)
  have runs: "in_harts (runs_weight x) s = in_harts (runs_weight x) (set_pc h ?pc ?s) + (if x = job then 1 else 0)" for x
    using in_harts_set_pc [OF len, of "runs_weight x" ?pc] old by (auto simp: runs_weight_def)
  have fin: "in_harts done_weight (set_pc h ?pc ?s) = in_harts done_weight s"
    using in_harts_set_pc [OF len, of done_weight ?pc] old by simp
  have count: "JOB_RUNS (set_pc h ?pc ?s) ! unat x = JOB_RUNS s ! unat x + (if x = job then 1 else 0)" for x
    using job by (auto simp: nth_list_update simp flip: word_unat_eq_iff)
  have "JOB_RUNS (set_pc h ?pc ?s) ! unat x +
      of_nat (count_list (ring_content (RUNQ s)) x + in_harts (runs_weight x) (set_pc h ?pc ?s))
      = of_nat (count_list ids x)" if "unat x < NJOBS" for x
    using inv that unfolding pool_inv_def count runs by (auto simp: algebra_simps split: if_splits)
  with inv show ?thesis
    unfolding pool_inv_def fin by (auto dest!: nth_update_other)
qed

lemma pool_inv_done:
  assumes inv: "pool_inv H ids s" and h: "h < H" and old: "drain_pcs s ! h = AtDone"
  shows "pool_inv H ids (set_pc h AtPop (s\<lparr> JOBS_DONE := JOBS_DONE s + 1 \<rparr>))" (is "pool_inv H ids (set_pc h ?pc ?s)")
proof -
  have len: "h < length (drain_pcs ?s)" using inv h by (simp add: pool_inv_def)
  have runs: "in_harts (runs_weight x) (set_pc h ?pc ?s) = in_harts (runs_weight x) s" for x
    using in_harts_set_pc [OF len, of "runs_weight x" ?pc] old by (simp add: runs_weight_def)
  have fin: "in_harts done_weight s = in_harts done_weight (set_pc h ?pc ?s) + 1"
    using in_harts_set_pc [OF len, of done_weight ?pc] old by simp
  show ?thesis
    using inv unfolding pool_inv_def runs by (auto simp: fin algebra_simps dest!: nth_update_other)
qed

lemma pool_inv_step:
  assumes inv: "pool_inv H ids s"
  shows "\<exists>t. drain_runq h s = Ok t \<and> pool_inv H ids t \<and> (\<forall>k. k \<noteq> h \<longrightarrow> drain_pcs t ! k = drain_pcs s ! k) \<and>
    (if h < H \<and> drain_pcs s ! h \<noteq> Drained then pool_left t < pool_left s else t = s)"
proof (cases "h < H")
  case False
  with inv show ?thesis by (simp add: drain_runq_def pool_inv_def)
next
  case h: True
  have len: "h < length (drain_pcs s)" using inv h by (simp add: pool_inv_def)
  show ?thesis
  proof (cases "drain_pcs s ! h")
    case AtPop
    show ?thesis
    proof (cases "ring_content (RUNQ s)")
      case Nil
      with drain_pop_none [OF inv h AtPop] pool_inv_move [OF inv h, of Drained] in_harts_set_pc [OF len, of left_weight Drained] AtPop h
      show ?thesis by (auto simp: pool_left_def)
    next
      case (Cons v vs)
      from drain_pop_some [OF inv h AtPop Cons] obtain q where q: "ring_wf RUNQ_CAP q" "ring_content q = vs"
        and eq: "drain_runq h s = Ok (set_pc h (if unat v < NJOBS then AtRuns v else AtDone) (s\<lparr> RUNQ := q \<rparr>))" by blast
      with pool_inv_pop_some [OF inv h AtPop Cons q] AtPop Cons len h
        in_harts_set_pc [of h "s\<lparr> RUNQ := q \<rparr>" left_weight "AtRuns v"]
        in_harts_set_pc [of h "s\<lparr> RUNQ := q \<rparr>" left_weight AtDone]
      show ?thesis by (auto simp: pool_left_def)
    qed
  next
    case (AtRuns job)
    with pool_inv_runs [OF inv h AtRuns] len h
      in_harts_set_pc [of h "s\<lparr> JOB_RUNS := (JOB_RUNS s)[unat job := JOB_RUNS s ! unat job + 1] \<rparr>" left_weight "AtHart job"]
    show ?thesis by (simp add: drain_runq_def pool_left_def)
  next
    case (AtHart job)
    let ?s = "s\<lparr> JOB_HART := (JOB_HART s)[unat job := of_nat h] \<rparr>"
    have "pool_inv H ids ?s" using inv by (simp add: pool_inv_def)
    with pool_inv_move [of H ids ?s h AtDone] AtHart len h in_harts_set_pc [of h ?s left_weight AtDone]
    show ?thesis by (simp add: drain_runq_def pool_left_def)
  next
    case AtDone
    with pool_inv_done [OF inv h AtDone] len h
      in_harts_set_pc [of h "s\<lparr> JOBS_DONE := JOBS_DONE s + 1 \<rparr>" left_weight AtPop]
    show ?thesis by (simp add: drain_runq_def pool_left_def)
  next
    case Drained
    with inv len show ?thesis by (simp add: drain_runq_def)
  qed
qed

section \<open>What the queue and the drain guarantee\<close>

text \<open>
  C15. The ring is a bounded first-in first-out queue for the whole life of its 64-bit indices: starting
  empty, every sequence of pops and at most \<open>2^64 - 1\<close> pushes runs without a panic and gets the answers of
  a list queue of the ring's capacity, so a push on a full ring is refused and disturbs nothing.
\<close>

theorem ring_is_bounded_fifo:
  assumes "pushes oprs < 2 ^ 64"
  shows "queue_answers ring_push ring_pop oprs (new_runq N) = Ok (spec_answers N oprs [])"
proof -
  have "ring_taken (new_runq N) + pushes oprs \<le> 2 ^ 64 - 1" using assms by (simp add: new_runq_wf)
  from ring.answers_as_specified [OF new_runq_wf(1) this] show ?thesis by (simp add: new_runq_wf)
qed

theorem ring_is_bounded_fifo_witness:
  "queue_answers ring_push ring_pop [QPush 7, QPush 8, QPush 9, QPop, QPush 9, QPop, QPop, QPop] (new_runq 2) =
     Ok [Accepted True, Accepted True, Accepted False, Got (Some 7), Accepted True, Got (Some 8), Got (Some 9), Got None]"
  using ring_is_bounded_fifo [of "[QPush 7, QPush 8, QPush 9, QPop, QPush 9, QPop, QPop, QPop]" 2] by simp

lemma smp_loaded_queue:
  assumes "fold (\<lambda>v m. obind m (\<lambda>q. obind (ring_push v q) (\<lambda>(_, q). Ok q))) ids (Ok (new_runq RUNQ_CAP)) = Ok q"
  shows "smp_loaded H ids = Ok ((smp_new H)\<lparr> RUNQ := q \<rparr>)"
proof -
  have stuck: "fold (\<lambda>v m. obind m (f v)) ids m = m" if "\<forall>x. m \<noteq> Ok x" for f :: "u32 \<Rightarrow> 'a \<Rightarrow> 'a checked" and m ids
    using that by (induction ids) (auto, cases m, auto)
  have "fold (\<lambda>v m. obind m (\<lambda>s. obind (runq_push v s) (\<lambda>(_, s). Ok s))) ids (Ok s) = Ok (s\<lparr> RUNQ := q \<rparr>)"
    if "fold (\<lambda>v m. obind m (\<lambda>q. obind (ring_push v q) (\<lambda>(_, q). Ok q))) ids (Ok (RUNQ s)) = Ok q" for s
    using that
  proof (induction ids arbitrary: s)
    case (Cons v ids)
    show ?case
    proof (cases "ring_push v (RUNQ s)")
      case (Ok r)
      with Cons.prems Cons.IH [of "s\<lparr> RUNQ := snd r \<rparr>"] show ?thesis by (simp add: runq_push_def split_beta)
    qed (use Cons.prems in \<open>auto simp: stuck\<close>)
  qed simp
  with assms show ?thesis by (simp add: smp_loaded_def smp_new_def)
qed

lemma in_harts_fresh: "in_harts w (smp_new H) = H * w AtPop"
  by (simp add: in_harts_def smp_new_def sum_list_replicate)

lemma pool_inv_loaded:
  assumes "length ids \<le> RUNQ_CAP"
  shows "\<exists>s. smp_loaded H ids = Ok s \<and> pool_inv H ids s \<and> pool_left s = 4 * length ids + H"
proof -
  obtain q where run: "fold (\<lambda>v m. obind m (\<lambda>q. obind (ring_push v q) (\<lambda>(_, q). Ok q))) ids (Ok (new_runq RUNQ_CAP)) = Ok q"
    and q: "ring_wf RUNQ_CAP q" "ring_content q = ids"
    using ring.push_all [of RUNQ_CAP "new_runq RUNQ_CAP" ids] assms by (auto simp: new_runq_wf RUNQ_CAP_def)
  let ?s = "(smp_new H)\<lparr> RUNQ := q \<rparr>"
  have w: "in_harts w ?s = H * w AtPop" for w using in_harts_fresh [of w H] by (simp add: in_harts_def)
  have "pool_inv H ids ?s"
    unfolding pool_inv_def w using q by (simp add: runs_weight_def) (simp add: smp_new_def)
  then show ?thesis using smp_loaded_queue [OF run] q by (simp add: pool_left_def in_harts_fresh)
qed

lemma pool_run:
  assumes "pool_inv H ids s"
  shows "\<exists>t. drain_all sched (Ok s) = Ok t \<and> pool_inv H ids t \<and>
    (\<forall>h < H. drain_pcs t ! h \<noteq> Drained \<longrightarrow> pool_left t + count_list sched h \<le> pool_left s) \<and> pool_left t \<le> pool_left s"
proof (induction sched rule: rev_induct)
  case Nil
  show ?case using assms by (simp add: drain_all_def)
next
  case (snoc k sched)
  then obtain t where t: "drain_all sched (Ok s) = Ok t" "pool_inv H ids t" "pool_left t \<le> pool_left s"
    "\<forall>h < H. drain_pcs t ! h \<noteq> Drained \<longrightarrow> pool_left t + count_list sched h \<le> pool_left s" by blast
  from pool_inv_step [OF t(2), of k] obtain u where u: "drain_runq k t = Ok u" "pool_inv H ids u"
    "\<forall>h. h \<noteq> k \<longrightarrow> drain_pcs u ! h = drain_pcs t ! h"
    "if k < H \<and> drain_pcs t ! k \<noteq> Drained then pool_left u < pool_left t else u = t" by blast
  have "pool_left u + count_list (sched @ [k]) h \<le> pool_left s" if "h < H" "drain_pcs u ! h \<noteq> Drained" for h
    using that t(4) u(3,4) by (cases "h = k") (fastforce split: if_splits)+
  moreover have "pool_left u \<le> pool_left s" using t(3) u(4) by (auto split: if_splits)
  ultimately show ?case using t(1) u(1,2) by (auto simp: drain_all_def)
qed

text \<open>
  C14. Every job runs exactly once, under every interleaving, and nothing panics: load at most 64 jobs and let any
  number of harts drain the queue in any order of their shared accesses. As soon as each hart
  has had more than \<open>4 n + H\<close> turns, every hart has left its loop, each job number below 48 has
  been counted exactly as often as it was queued, and the number of finished jobs is the
  number queued.
\<close>

theorem every_job_runs_exactly_once:
  assumes "length ids \<le> RUNQ_CAP"
    and "\<forall>h < H. count_list sched h > 4 * length ids + H" and "0 < H"
  shows "\<exists>t. drain_all sched (smp_loaded H ids) = Ok t \<and> set (drain_pcs t) = {Drained} \<and>
    (\<forall>x. unat x < NJOBS \<longrightarrow> JOB_RUNS t ! unat x = of_nat (count_list ids x)) \<and> JOBS_DONE t = of_nat (length ids)"
proof -
  obtain s where s: "smp_loaded H ids = Ok s" "pool_inv H ids s" "pool_left s = 4 * length ids + H"
    using pool_inv_loaded [OF assms(1), of H] by blast
  from pool_run [OF s(2), of sched] obtain t where t: "drain_all sched (Ok s) = Ok t" "pool_inv H ids t"
    "\<forall>h < H. drain_pcs t ! h \<noteq> Drained \<longrightarrow> pool_left t + count_list sched h \<le> pool_left s" by blast
  have "\<forall>h < H. drain_pcs t ! h = Drained" using t(3) s(3) assms(2) by fastforce
  moreover have "length (drain_pcs t) = H" using t(2) by (simp add: pool_inv_def)
  ultimately have pcs: "drain_pcs t = replicate H Drained" by (simp add: list_eq_iff_nth_eq)
  moreover have "ring_content (RUNQ t) = []" using t(2) pcs assms(3) by (auto simp: pool_inv_def)
  ultimately show ?thesis using t(1,2) s(1) assms(3)
    by (auto simp: pool_inv_def in_harts_def runs_weight_def sum_list_replicate)
qed

theorem every_job_runs_exactly_once_witness:
  "\<exists>s. drain_all (concat (replicate 11 [0, 1])) (smp_loaded 2 [5, 7]) = Ok s \<and>
     JOB_RUNS s ! 5 = 1 \<and> JOB_RUNS s ! 6 = 0 \<and> JOB_RUNS s ! 7 = 1 \<and> JOBS_DONE s = 2"
proof -
  let ?sched = "concat (replicate 11 [0, 1 :: nat])"
  have "count_list ?sched h = 11" if "h < 2" for h
    using that by (auto simp: less_2_cases_iff eval_nat_numeral)
  with every_job_runs_exactly_once [of "[5, 7]" 2 ?sched]
  obtain t where t: "drain_all ?sched (smp_loaded 2 [5, 7]) = Ok t" "JOBS_DONE t = of_nat (length [5, 7 :: u32])"
    and all: "unat x < NJOBS \<Longrightarrow> JOB_RUNS t ! unat x = of_nat (count_list [5, 7 :: u32] x)" for x
    by (auto simp: RUNQ_CAP_def)
  show ?thesis using t all [of 5] all [of 6] all [of 7] by (intro exI [of _ t]) (simp add: NJOBS_def)
qed

end
