(* ===== verification/Cairn_Record.thy ===== *)
theory Cairn_Record
  imports Dezh_Prelude
begin

text \<open>
  The commit record of the Cairn store, \<open>dezh-core/src/cairn.rs\<close>: the header of one effect,
  its byte layout, and the capacity of the log. The source reads and writes through an
  accessor; the model reads and writes a byte memory. The lemmas show that the layout loses
  nothing and that decoding is exactly the inverse of encoding.
\<close>

unbundle bit_operations_syntax

section \<open>Constants\<close>

definition VALUE_OFF :: nat where "VALUE_OFF = 64"
definition MAGIC :: "u8 list" where "MAGIC = [0x44, 0x5A, 0x43, 0x31]"
definition COMMIT_SLOTS :: u32 where "COMMIT_SLOTS = 255"
definition NONE :: u32 where "NONE = 0xffffffff"

definition REVERSIBLE :: u8 where "REVERSIBLE = 0"
definition COMPENSATABLE :: u8 where "COMPENSATABLE = 1"
definition IRREVERSIBLE :: u8 where "IRREVERSIBLE = 2"
definition UNKNOWN :: u8 where "UNKNOWN = 3"

definition COMMITTED :: u8 where "COMMITTED = 0"
definition COMPENSATION :: u8 where "COMPENSATION = 2"

lemmas rev_defs = REVERSIBLE_def COMPENSATABLE_def IRREVERSIBLE_def UNKNOWN_def
lemmas record_consts = VALUE_OFF_def MAGIC_def COMMIT_SLOTS_def NONE_def rev_defs COMMITTED_def
  COMPENSATION_def

section \<open>The header and its layout\<close>

record CommitHeader =
  h_slot :: u32
  h_parent :: u32
  h_ns :: u32
  h_hash :: u64
  h_actor :: u32
  h_flags :: u32
  h_len :: u32
  h_intent :: u32
  h_derived :: u32
  h_rev_class :: u8
  h_status :: u8
  h_generation :: u16

definition put_u32 :: "nat \<Rightarrow> u32 \<Rightarrow> mem \<Rightarrow> mem" where
  "put_u32 off v m = mem_write m off (to_le 4 v)"

definition get_u32 :: "mem \<Rightarrow> nat \<Rightarrow> u32" where
  "get_u32 m off = from_le (mem_read m off 4)"

definition encode :: "CommitHeader \<Rightarrow> mem \<Rightarrow> mem" where
  "encode h m =
     (let m = mem_write m 0 MAGIC;
          m = put_u32 4 (h_slot h) m;
          m = put_u32 8 (h_parent h) m;
          m = put_u32 12 (h_ns h) m;
          m = put_u32 16 (ucast (h_hash h)) m;
          m = put_u32 20 (ucast (drop_bit 32 (h_hash h))) m;
          m = put_u32 24 (h_actor h) m;
          m = put_u32 28 (h_flags h) m;
          m = put_u32 32 (h_len h) m;
          m = put_u32 36 (h_intent h) m;
          m = put_u32 40 (h_derived h) m;
          m = m(44 := h_rev_class h);
          m = m(45 := h_status h);
          m = m(46 := ucast (h_generation h));
          m = m(47 := ucast (drop_bit 8 (h_generation h)))
      in m)"

definition decode :: "mem \<Rightarrow> CommitHeader option" where
  "decode m =
     (if mem_read m 0 4 \<noteq> MAGIC then None
      else Some \<lparr> h_slot = get_u32 m 4, h_parent = get_u32 m 8, h_ns = get_u32 m 12,
        h_hash = ucast (get_u32 m 16) OR push_bit 32 (ucast (get_u32 m 20)),
        h_actor = get_u32 m 24, h_flags = get_u32 m 28, h_len = get_u32 m 32,
        h_intent = get_u32 m 36, h_derived = get_u32 m 40,
        h_rev_class = m 44, h_status = m 45,
        h_generation = ucast (m 46) OR push_bit 8 (ucast (m 47)) \<rparr>)"

definition slot_available :: "u32 \<Rightarrow> bool" where
  "slot_available n \<longleftrightarrow> n < COMMIT_SLOTS"

section \<open>Words in memory\<close>

lemma get_put_u32_same [simp]: "get_u32 (put_u32 off v m) off = v"
  by (simp add: get_u32_def put_u32_def mem_read_write_same from_le_to_le)

lemma get_put_u32_other [simp]:
  "off + 4 \<le> off' \<or> off' + 4 \<le> off \<Longrightarrow> get_u32 (put_u32 off v m) off' = get_u32 m off'"
  by (simp add: get_u32_def put_u32_def mem_read_write_other)

lemma put_u32_outside [simp]: "i < off \<or> off + 4 \<le> i \<Longrightarrow> put_u32 off v m i = m i"
  by (simp add: put_u32_def mem_write_outside)

lemma get_u32_upd [simp]: "i < off \<or> off + 4 \<le> i \<Longrightarrow> get_u32 (m(i := b)) off = get_u32 m off"
  by (auto simp: get_u32_def intro!: arg_cong [of _ _ from_le] mem_read_cong)

lemma get_u32_mem_write [simp]:
  "a + length bs \<le> off \<or> off + 4 \<le> a \<Longrightarrow> get_u32 (mem_write m a bs) off = get_u32 m off"
  by (simp add: get_u32_def mem_read_write_other)

lemma get_u32_cong: "(\<And>i. off \<le> i \<Longrightarrow> i < off + 4 \<Longrightarrow> m i = m' i) \<Longrightarrow> get_u32 m off = get_u32 m' off"
  unfolding get_u32_def by (rule arg_cong [of _ _ from_le], rule mem_read_cong)

lemma mem_write_read: "mem_write m off (mem_read m off n) = m"
  by (rule ext) (auto simp: mem_write_def)

lemma put_get_u32 [simp]: "put_u32 off (get_u32 m off) m = m"
  using to_le_from_le [of "mem_read m off 4", where 'a = 32]
  by (simp add: put_u32_def get_u32_def mem_write_read)

lemma join_u64 [simp]:
  "ucast (ucast a OR push_bit 32 (ucast b) :: u64) = (a :: u32)"
  "ucast (drop_bit 32 (ucast a) OR drop_bit 32 (push_bit 32 (ucast b)) :: u64) = (b :: u32)"
  by (rule bit_word_eqI; auto simp: bit_simps dest: bit_imp_le_length)+

lemma split_u64 [simp]:
  "ucast (ucast h :: u32) OR push_bit 32 (ucast (ucast (drop_bit 32 h) :: u32)) = (h :: u64)"
  by (rule bit_word_eqI) (auto simp: bit_simps)

lemma join_u16 [simp]:
  "ucast (ucast a OR push_bit 8 (ucast b) :: u16) = (a :: u8)"
  "ucast (drop_bit 8 (ucast a) OR drop_bit 8 (push_bit 8 (ucast b)) :: u16) = (b :: u8)"
  by (rule bit_word_eqI; auto simp: bit_simps dest: bit_imp_le_length)+

lemma split_u16 [simp]:
  "ucast (ucast g :: u8) OR push_bit 8 (ucast (ucast (drop_bit 8 g) :: u8)) = (g :: u16)"
  by (rule bit_word_eqI) (auto simp: bit_simps)

section \<open>Encoding and decoding\<close>

lemma length_MAGIC [simp]: "length MAGIC = 4"
  by (simp add: MAGIC_def)

lemma mem_read_put_u32 [simp]: "n \<le> off \<Longrightarrow> mem_read (put_u32 off v m) 0 n = mem_read m 0 n"
  by (simp add: put_u32_def mem_read_write_other)

lemma mem_read_upd [simp]: "n \<le> i \<Longrightarrow> mem_read (m(i := b)) 0 n = mem_read m 0 n"
  by (auto intro: mem_read_cong)

lemma encode_outside: "48 \<le> i \<Longrightarrow> encode h m i = m i"
  by (simp add: encode_def mem_write_outside)

lemma decode_encode [simp]: "decode (encode h m) = Some h"
  by (simp add: encode_def decode_def mem_read_write_same)

lemma encode_decode: "decode m = Some h \<Longrightarrow> encode h m = m"
  using mem_write_read [of m 0 4]
  by (auto simp: encode_def decode_def split: if_splits)

lemma decode_cong: "(\<And>i. i < 48 \<Longrightarrow> m i = m' i) \<Longrightarrow> decode m = decode m'"
proof -
  assume eq: "\<And>i. i < 48 \<Longrightarrow> m i = m' i"
  then have "get_u32 m off = get_u32 m' off" if "off + 4 \<le> 48" for off
    using that by (intro get_u32_cong) auto
  moreover have "mem_read m 0 4 = mem_read m' 0 4" using eq by (intro mem_read_cong) auto
  ultimately show ?thesis using eq by (simp add: decode_def)
qed

text \<open>
  C20. The record format loses nothing: what is encoded decodes to itself whatever the sector
  held before, encoding leaves every byte from offset 48 on alone, and a sector decodes to a
  header exactly when it already holds that header's encoding.
\<close>

theorem record_round_trip:
  "decode (encode h m) = Some h \<and> (i < 48 \<or> encode h m i = m i) \<and>
   (decode m = Some h \<longleftrightarrow> encode h m = m)"
proof -
  have "encode h m = m \<Longrightarrow> decode m = Some h" by (metis decode_encode)
  then show ?thesis using encode_outside [of i h m] encode_decode [of m h] by (cases "i < 48") auto
qed

end
