(* ===== verification/Virtio_Blk.thy ===== *)
theory Virtio_Blk
  imports Cairn_Record
begin

text \<open>
  The ground floor of the storage daemon \<open>dezh-boot/virtio-blk/src/main.rs\<close>: sector transfer,
  the shared data window and the helpers that read and write it, and the value hash. The disk is not part of the sources: it is the parameter \<open>dv\<close> of every
  operation, and \<open>block_device\<close> states what the daemon relies on.
\<close>

unbundle bit_operations_syntax

section \<open>The device\<close>

text \<open>
  One request: the device's state, the sector, whether it is a write, and the data window;
  the answer is the status byte (0 is success), the data window and the new state. A device
  that never answers is outside the model.
\<close>

type_synonym 'd device = "'d \<Rightarrow> u64 \<Rightarrow> bool \<Rightarrow> mem \<Rightarrow> u8 \<times> mem \<times> 'd"

text \<open>The first 512 bytes of a memory, the unit of transfer.\<close>

definition SECTOR_SIZE :: nat where "SECTOR_SIZE = 512"

definition sector_of :: "mem \<Rightarrow> mem" where
  "sector_of m = (\<lambda>i. if i < 512 then m i else 0)"

text \<open>
  \<open>content d\<close> is what the sectors hold. A read never changes it and, when it succeeds, fills
  the window with the sector; a write that succeeds stores the window, touches no other
  sector and leaves the window alone, and a write that fails has either happened or not.
\<close>

definition block_device :: "'d device \<Rightarrow> ('d \<Rightarrow> u64 \<Rightarrow> mem) \<Rightarrow> bool" where
  "block_device dv content \<longleftrightarrow>
     (\<forall>d sec m st m' d'. dv d sec False m = (st, m', d') \<longrightarrow>
        content d' = content d \<and> (st = 0 \<longrightarrow> sector_of m' = content d sec)) \<and>
     (\<forall>d sec m st m' d'. dv d sec True m = (st, m', d') \<longrightarrow>
        m' = m \<and> (content d' = (content d)(sec := sector_of m) \<or> st \<noteq> 0 \<and> content d' = content d))"

text \<open>A disk in memory whose requests fail, without effect, by a given schedule.\<close>

record ramdisk =
  rd_sectors :: "u64 \<Rightarrow> mem"
  rd_faults :: "bool list"

definition ramdisk_io :: "ramdisk device" where
  "ramdisk_io d sec write m =
     (let d' = d\<lparr> rd_faults := tl (rd_faults d) \<rparr> in
      if rd_faults d \<noteq> [] \<and> hd (rd_faults d) then (1, m, d')
      else if write then (0, m, d'\<lparr> rd_sectors := (rd_sectors d)(sec := sector_of m) \<rparr>)
      else (0, rd_sectors d sec, d'))"

definition ramdisk_content :: "ramdisk \<Rightarrow> u64 \<Rightarrow> mem" where
  "ramdisk_content d sec = sector_of (rd_sectors d sec)"

lemma sector_of_sector_of [simp]: "sector_of (sector_of m) = sector_of m"
  by (auto simp: sector_of_def)

lemma sector_of_eq_iff: "sector_of m = sector_of m' \<longleftrightarrow> (\<forall>i < 512. m i = m' i)"
  by (auto simp: sector_of_def fun_eq_iff)

lemma ramdisk_block_device: "block_device ramdisk_io ramdisk_content"
  unfolding block_device_def
  by (auto simp: ramdisk_io_def ramdisk_content_def Let_def intro!: ext split: if_splits)

section \<open>The data window\<close>

record 'd blk =
  dev :: 'd
  data :: mem
  input :: mem

definition rw :: "'d device \<Rightarrow> u64 \<Rightarrow> bool \<Rightarrow> 'd blk \<Rightarrow> u8 \<times> 'd blk" where
  "rw dv sec write s =
     (case dv (dev s) sec write (data s) of
        (st, m, d) \<Rightarrow> (st, s\<lparr> dev := d, data := m \<rparr>))"

definition zero_data :: "'d blk \<Rightarrow> 'd blk" where
  "zero_data s = s\<lparr> data := (\<lambda>i. if i < SECTOR_SIZE then 0 else data s i) \<rparr>"

definition set_data :: "u8 list \<Rightarrow> 'd blk \<Rightarrow> 'd blk" where
  "set_data bs s =
     (let n = min (length bs) (SECTOR_SIZE - 1) in
      s\<lparr> data := (\<lambda>i. if i < n then bs ! i else if i < SECTOR_SIZE then 0 else data s i) \<rparr>)"

definition data_starts_with :: "u8 list \<Rightarrow> 'd blk \<Rightarrow> bool" where
  "data_starts_with bs s \<longleftrightarrow> mem_read (data s) 0 (length bs) = bs"

definition data_contains :: "u8 list \<Rightarrow> 'd blk \<Rightarrow> bool" where
  "data_contains needle s =
     (let hay = takeWhile (\<lambda>b. b \<noteq> 0) (mem_read (data s) 0 SECTOR_SIZE) in
      if needle = [] \<or> length needle > length hay then False
      else list_ex (\<lambda>start. take (length needle) (drop start hay) = needle)
        [0..<length hay - length needle + 1])"

definition copy_input :: "nat \<Rightarrow> 'd blk \<Rightarrow> 'd blk" where
  "copy_input len s =
     (let n = min len SECTOR_SIZE in
      s\<lparr> data := (\<lambda>i. if i < n then input s i else if i < SECTOR_SIZE then 0 else data s i) \<rparr>)"

definition d_read_u8 :: "nat \<Rightarrow> 'd blk \<Rightarrow> u8" where
  "d_read_u8 off s = data s off"

definition d_read_u32 :: "nat \<Rightarrow> 'd blk \<Rightarrow> u32" where
  "d_read_u32 off s = get_u32 (data s) off"

definition d_write_u32 :: "nat \<Rightarrow> u32 \<Rightarrow> 'd blk \<Rightarrow> 'd blk" where
  "d_write_u32 off v s = s\<lparr> data := put_u32 off v (data s) \<rparr>"

definition d_read_u64 :: "nat \<Rightarrow> 'd blk \<Rightarrow> u64" where
  "d_read_u64 off s = ucast (d_read_u32 off s) OR push_bit 32 (ucast (d_read_u32 (off + 4) s))"

definition d_write_u64 :: "nat \<Rightarrow> u64 \<Rightarrow> 'd blk \<Rightarrow> 'd blk" where
  "d_write_u64 off v s = d_write_u32 (off + 4) (ucast (drop_bit 32 v)) (d_write_u32 off (ucast v) s)"

text \<open>A byte-string literal of the source.\<close>

definition bytes :: "string \<Rightarrow> u8 list" where
  "bytes str = map of_char str"

lemma length_bytes [simp]: "length (bytes str) = length str"
  by (simp add: bytes_def)

definition fnv64 :: "u8 list \<Rightarrow> u64" where
  "fnv64 bs = foldl (\<lambda>h b. (h XOR ucast b) * 0x100000001b3) 0xcbf29ce484222325 bs"

section \<open>Transfers\<close>

lemma rw_input [simp]: "input (snd (rw dv sec w s)) = input s"
  by (simp add: rw_def split: prod.splits)

lemma rw_read:
  assumes "block_device dv content" and "rw dv sec False s = (st, s')"
  shows "content (dev s') = content (dev s) \<and> input s' = input s \<and>
    (st = 0 \<longrightarrow> sector_of (data s') = content (dev s) sec)"
  using assms unfolding block_device_def rw_def by (auto split: prod.splits)

lemma rw_write:
  assumes "block_device dv content" and "rw dv sec True s = (st, s')"
  shows "data s' = data s \<and> input s' = input s \<and>
    (content (dev s') = (content (dev s))(sec := sector_of (data s)) \<or>
     st \<noteq> 0 \<and> content (dev s') = content (dev s))"
proof -
  obtain st0 m d where io: "dv (dev s) sec True (data s) = (st0, m, d)" by (metis prod_cases3)
  moreover have "m = data s \<and> (content d = (content (dev s))(sec := sector_of (data s)) \<or>
      st0 \<noteq> 0 \<and> content d = content (dev s))"
    using assms(1) io unfolding block_device_def by blast
  ultimately show ?thesis using assms(2) by (auto simp: rw_def)
qed

lemma data_helpers_frame [simp]:
  "dev (zero_data s) = dev s" "input (zero_data s) = input s"
  "dev (set_data bs s) = dev s" "input (set_data bs s) = input s"
  "dev (d_write_u32 off v s) = dev s" "input (d_write_u32 off v s) = input s"
  "dev (d_write_u64 off w s) = dev s" "input (d_write_u64 off w s) = input s"
  "dev (copy_input n s) = dev s" "input (copy_input n s) = input s"
  by (simp_all add: zero_data_def set_data_def d_write_u32_def d_write_u64_def copy_input_def Let_def)

lemma get_u32_sector_of [simp]: "off + 4 \<le> 512 \<Longrightarrow> get_u32 (sector_of m) off = get_u32 m off"
  by (rule get_u32_cong) (simp add: sector_of_def)

lemma mem_read_sector_of [simp]: "off + n \<le> 512 \<Longrightarrow> mem_read (sector_of m) off n = mem_read m off n"
  by (rule mem_read_cong) (simp add: sector_of_def)

lemma decode_sector_of [simp]: "decode (sector_of m) = decode m"
  by (rule decode_cong) (simp add: sector_of_def)

lemma get_u32_as_sector:
  "sector_of m = m' \<Longrightarrow> off + 4 \<le> 512 \<Longrightarrow> get_u32 m off = get_u32 m' off"
  by auto

lemma mem_read_as_sector:
  "sector_of m = m' \<Longrightarrow> off + n \<le> 512 \<Longrightarrow> mem_read m off n = mem_read m' off n"
  by auto

text \<open>A device whose transfers all succeed.\<close>

definition reliable :: "'d device \<Rightarrow> bool" where
  "reliable dv \<longleftrightarrow> (\<forall>d sec w m. fst (dv d sec w m) = 0)"

lemma reliable_rw: "reliable dv \<Longrightarrow> rw dv sec w s = (st, s') \<Longrightarrow> st = 0"
  by (auto simp: reliable_def rw_def split: prod.splits) (metis fst_conv)

definition plain_disk_io :: "(u64 \<Rightarrow> mem) device" where
  "plain_disk_io d sec write m = (if write then (0, m, d(sec := sector_of m)) else (0, d sec, d))"

definition plain_content :: "(u64 \<Rightarrow> mem) \<Rightarrow> u64 \<Rightarrow> mem" where
  "plain_content d sec = sector_of (d sec)"

lemma plain_disk_block_device: "block_device plain_disk_io plain_content"
  unfolding block_device_def
  by (auto simp: plain_disk_io_def plain_content_def intro!: ext split: if_splits)

lemma plain_disk_reliable: "reliable plain_disk_io"
  by (simp add: reliable_def plain_disk_io_def)

definition blank_disk :: "u64 \<Rightarrow> mem" where "blank_disk = (\<lambda>_ _. 0)"

end
