(* ===== verification/Ledger.thy ===== *)
theory Ledger
  imports Virtio_Blk
begin

text \<open>
  What the Cairn store promises: an append-only log of effects, for every namespace the stack
  of its standing effects (newest first), and a persisted flag that cuts a namespace off. A
  commit appends and pushes, a rollback pops, a mission rollback pops the mission's
  reversible effects and records compensations. The store refines this specification.
\<close>

unbundle bit_operations_syntax

section \<open>Effects and ledgers\<close>

record effect =
  e_ns :: u32
  e_hash :: u64
  e_actor :: u32
  e_intent :: u32
  e_derived :: u32
  e_class :: u8
  e_status :: u8
  e_gen :: u16
  e_value :: "u8 list"

record ledger =
  log :: "effect list"
  stack :: "nat \<Rightarrow> effect list"
  cut_off :: "nat \<Rightarrow> bool"

definition empty_ledger :: ledger where
  "empty_ledger = \<lparr> log = [], stack = (\<lambda>_. []), cut_off = (\<lambda>_. False) \<rparr>"

lemma empty_ledger_simps [simp]: "log empty_ledger = []" "stack empty_ledger ns = []" "\<not> cut_off empty_ledger ns"
  by (simp_all add: empty_ledger_def)

definition LOG_CAPACITY :: nat where "LOG_CAPACITY = 255"

definition ledger_push :: "nat \<Rightarrow> effect \<Rightarrow> ledger \<Rightarrow> ledger" where
  "ledger_push ns e L = L\<lparr> log := log L @ [e], stack := (stack L)(ns := e # stack L ns) \<rparr>"

definition new_effect :: "nat \<Rightarrow> u32 \<Rightarrow> u32 \<Rightarrow> u32 \<Rightarrow> u8 \<Rightarrow> u8 \<Rightarrow> u8 list \<Rightarrow> nat \<Rightarrow> effect" where
  "new_effect ns actor intent derived cls status v depth =
     \<lparr> e_ns = of_nat ns, e_hash = fnv64 v, e_actor = actor, e_intent = intent, e_derived = derived,
       e_class = cls, e_status = status, e_gen = of_nat (depth + 1), e_value = v \<rparr>"

definition ledger_commit :: "nat \<Rightarrow> u8 list \<Rightarrow> u32 \<Rightarrow> u32 \<Rightarrow> u32 \<Rightarrow> u8 \<Rightarrow> ledger \<Rightarrow> ledger" where
  "ledger_commit ns v actor intent derived cls L =
     ledger_push ns (new_effect ns actor intent derived cls COMMITTED v (length (stack L ns))) L"

definition ledger_rollback :: "nat \<Rightarrow> nat \<Rightarrow> ledger \<Rightarrow> ledger" where
  "ledger_rollback ns steps L = L\<lparr> stack := (stack L)(ns := drop steps (stack L ns)) \<rparr>"

definition ledger_cut :: "nat \<Rightarrow> bool \<Rightarrow> ledger \<Rightarrow> ledger" where
  "ledger_cut ns b L = L\<lparr> cut_off := (cut_off L)(ns := b) \<rparr>"

section \<open>Missions\<close>

text \<open>The compensating action a connector registered in the value, after the separator.\<close>

definition compensation_of :: "nat \<Rightarrow> u8 list \<Rightarrow> u8 list option" where
  "compensation_of room v =
     (case dropWhile (\<lambda>b. b \<noteq> 0x1f) v of
        [] \<Rightarrow> None
      | _ # t \<Rightarrow> let act = take room (takeWhile (\<lambda>b. b \<noteq> 0) t) in
          if act = [] then None else Some act)"

definition retractable :: "u32 \<Rightarrow> effect \<Rightarrow> bool" where
  "retractable ahd e \<longleftrightarrow> e_intent e = ahd \<and> e_class e = REVERSIBLE"

text \<open>What is left of a stack when the mission's reversible run on top of it is retracted.\<close>

definition standing :: "u32 \<Rightarrow> effect list \<Rightarrow> effect list" where
  "standing ahd es = dropWhile (retractable ahd) es"

definition compensation_due :: "u32 \<Rightarrow> effect list \<Rightarrow> u8 list option" where
  "compensation_due ahd es =
     (case standing ahd es of
        [] \<Rightarrow> None
      | e # _ \<Rightarrow> if e_intent e = ahd \<and> e_class e = COMPENSATABLE then compensation_of 96 (e_value e) else None)"

definition mission_rollback_ns :: "u32 \<Rightarrow> u32 \<Rightarrow> nat \<Rightarrow> ledger \<Rightarrow> ledger" where
  "mission_rollback_ns ahd actor ns L =
     (let rest = standing ahd (stack L ns);
          L' = L\<lparr> stack := (stack L)(ns := rest) \<rparr> in
      case compensation_due ahd (stack L ns) of
        None \<Rightarrow> L'
      | Some act \<Rightarrow>
          if length (log L) \<ge> LOG_CAPACITY then L'
          else ledger_push ns (new_effect ns actor ahd (e_derived (hd rest)) REVERSIBLE COMPENSATION
            (bytes ''[compensation] '' @ act) (length rest)) L')"

definition mission_rollback :: "u32 \<Rightarrow> u32 \<Rightarrow> ledger \<Rightarrow> ledger" where
  "mission_rollback ahd actor L = fold (mission_rollback_ns ahd actor) [0..<8] L"

definition mission_touches :: "u32 \<Rightarrow> ledger \<Rightarrow> nat \<Rightarrow> bool" where
  "mission_touches ahd L ns \<longleftrightarrow> (\<exists>e \<in> set (stack L ns). e_intent e = ahd)"

section \<open>Well-formed ledgers\<close>

text \<open>
  Every standing effect names its namespace, carries the hash of its value, and its
  generation is its position on the stack; standing effects are in the log.
\<close>

fun stack_ok :: "nat \<Rightarrow> effect list \<Rightarrow> bool" where
  "stack_ok ns [] = True"
| "stack_ok ns (e # es) \<longleftrightarrow> e_ns e = of_nat ns \<and> e_hash e = fnv64 (e_value e) \<and>
     e_gen e = of_nat (length es + 1) \<and> stack_ok ns es"

definition ledger_ok :: "ledger \<Rightarrow> bool" where
  "ledger_ok L \<longleftrightarrow> length (log L) \<le> LOG_CAPACITY \<and>
     (\<forall>ns. stack_ok ns (stack L ns) \<and> set (stack L ns) \<subseteq> set (log L))"

lemma ledger_ok_empty: "ledger_ok empty_ledger"
  by (simp add: ledger_ok_def empty_ledger_def)

lemma stack_ok_drop: "stack_ok ns es \<Longrightarrow> stack_ok ns (drop k es)"
  by (induction es arbitrary: k) (auto simp: drop_Cons' split: if_splits)

lemma stack_ok_dropWhile: "stack_ok ns es \<Longrightarrow> stack_ok ns (dropWhile P es)"
  by (induction es) auto

lemma ledger_ok_push:
  assumes "ledger_ok L" and "length (log L) < LOG_CAPACITY"
    and "stack_ok ns (e # stack L ns)"
  shows "ledger_ok (ledger_push ns e L)"
  using assms by (auto simp: ledger_ok_def ledger_push_def)

lemma ledger_ok_commit:
  "ledger_ok L \<Longrightarrow> length (log L) < LOG_CAPACITY \<Longrightarrow> ledger_ok (ledger_commit ns v a i d c L)"
  unfolding ledger_commit_def
  by (rule ledger_ok_push) (auto simp: new_effect_def ledger_ok_def)

lemma ledger_ok_shrink:
  assumes "ledger_ok L" and "stack_ok ns es" and "set es \<subseteq> set (stack L ns)"
  shows "ledger_ok (L\<lparr> stack := (stack L)(ns := es) \<rparr>)"
  using assms by (auto simp: ledger_ok_def)

lemma ledger_ok_rollback: "ledger_ok L \<Longrightarrow> ledger_ok (ledger_rollback ns k L)"
  unfolding ledger_rollback_def
  by (rule ledger_ok_shrink) (auto simp: ledger_ok_def stack_ok_drop dest: in_set_dropD)

lemma ledger_ok_cut: "ledger_ok L \<Longrightarrow> ledger_ok (ledger_cut ns b L)"
  by (simp add: ledger_ok_def ledger_cut_def)

lemma ledger_ok_mission_ns:
  assumes "ledger_ok L"
  shows "ledger_ok (mission_rollback_ns ahd actor ns L)"
proof -
  let ?rest = "standing ahd (stack L ns)"
  let ?L = "L\<lparr> stack := (stack L)(ns := ?rest) \<rparr>"
  have L': "ledger_ok ?L"
    using assms by (intro ledger_ok_shrink)
      (auto simp: ledger_ok_def standing_def stack_ok_dropWhile dest: set_dropWhileD)
  have "ledger_ok (ledger_push ns (new_effect ns actor ahd d REVERSIBLE COMPENSATION v (length ?rest)) ?L)"
    if "length (log L) < LOG_CAPACITY" for d v
    using that by (intro ledger_ok_push [OF L'])
      (use assms in \<open>auto simp: new_effect_def ledger_ok_def standing_def stack_ok_dropWhile\<close>)
  with L' show ?thesis
    by (auto simp: mission_rollback_ns_def Let_def split: option.splits)
qed

lemma ledger_ok_mission: "ledger_ok L \<Longrightarrow> ledger_ok (mission_rollback ahd actor L)"
  unfolding mission_rollback_def
  by (rule fold_invariant [where Q = "\<lambda>_. True"]) (auto intro: ledger_ok_mission_ns)

end
