(* ===== verification/Cairn_Store.thy ===== *)
theory Cairn_Store
  imports Ledger
begin

text \<open>
  The Cairn store of the daemon (\<open>dezh-boot/virtio-blk/src/main.rs\<close>, from \<open>cairn_ns_entry_off\<close>
  to \<open>cairn_status\<close>): superblock, commits, reads, rollback and persisted revocation. Each
  operation is the source's sequence of transfers and writes to the data window; printing is
  left out. The lemmas relate the sectors to a ledger and show that every operation, with
  any transfer failing, leaves either the old ledger or the specified new one.
\<close>

unbundle bit_operations_syntax

section \<open>Constants\<close>

definition IPC_STATUS_OK :: u64 where "IPC_STATUS_OK = 0"
definition IPC_STATUS_DENIED :: u64 where "IPC_STATUS_DENIED = 1"
definition IPC_STATUS_UNAVAILABLE :: u64 where "IPC_STATUS_UNAVAILABLE = 2"
definition IPC_STATUS_TIMEOUT :: u64 where "IPC_STATUS_TIMEOUT = 3"
definition IPC_STATUS_BAD_REQUEST :: u64 where "IPC_STATUS_BAD_REQUEST = 4"
definition IPC_STATUS_IO_FAILURE :: u64 where "IPC_STATUS_IO_FAILURE = 5"
definition IPC_STATUS_FAULTED :: u64 where "IPC_STATUS_FAULTED = 6"

lemmas status_defs = IPC_STATUS_OK_def IPC_STATUS_DENIED_def IPC_STATUS_UNAVAILABLE_def
  IPC_STATUS_TIMEOUT_def IPC_STATUS_BAD_REQUEST_def IPC_STATUS_IO_FAILURE_def IPC_STATUS_FAULTED_def

definition CAIRN1_SUPER_SECTOR :: u64 where "CAIRN1_SUPER_SECTOR = 1600"
definition CAIRN1_COMMIT_FIRST_SECTOR :: u64 where "CAIRN1_COMMIT_FIRST_SECTOR = 1601"
definition CAIRN1_NS_MAX :: nat where "CAIRN1_NS_MAX = 8"
definition CAIRN1_VALUE_MAX :: nat where "CAIRN1_VALUE_MAX = SECTOR_SIZE - VALUE_OFF"
definition CAIRN1_NS_OFF_REVOKED :: nat where "CAIRN1_NS_OFF_REVOKED = 24"
definition TASK_CAIRN_NS_BASE :: nat where "TASK_CAIRN_NS_BASE = 8"

definition CAIRN1_NS_NAMES :: "u8 list list" where
  "CAIRN1_NS_NAMES = map bytes [''note'', ''lab'', ''calc'', ''vault'', ''agent'']"

definition cairn_ns_entry_off :: "nat \<Rightarrow> nat" where
  "cairn_ns_entry_off ns = 16 + ns * 32"

lemmas cairn_consts = CAIRN1_SUPER_SECTOR_def CAIRN1_COMMIT_FIRST_SECTOR_def CAIRN1_NS_MAX_def
  CAIRN1_VALUE_MAX_def CAIRN1_NS_OFF_REVOKED_def TASK_CAIRN_NS_BASE_def SECTOR_SIZE_def VALUE_OFF_def
  cairn_ns_entry_off_def

definition commit_sector :: "u32 \<Rightarrow> u64" where
  "commit_sector slot = CAIRN1_COMMIT_FIRST_SECTOR + ucast slot"

section \<open>Operations\<close>

text \<open>The fresh superblock laid out in the data window.\<close>

definition format_entry :: "nat \<Rightarrow> 'd blk \<Rightarrow> 'd blk" where
  "format_entry ns s =
     (let e = cairn_ns_entry_off ns;
          s = (if ns < length CAIRN1_NS_NAMES
               then s\<lparr> data := mem_write (data s) e (take 16 (CAIRN1_NS_NAMES ! ns)) \<rparr> else s)
      in d_write_u32 (e + 20) 0 (d_write_u32 (e + 16) NONE s))"

definition format_super :: "'d blk \<Rightarrow> 'd blk" where
  "format_super s =
     fold format_entry [0..<CAIRN1_NS_MAX] (d_write_u32 8 0 (set_data (bytes ''DZCAIRN1'') (zero_data s)))"

definition cairn_load_super :: "'d device \<Rightarrow> 'd blk \<Rightarrow> bool \<times> 'd blk" where
  "cairn_load_super dv s =
     (let (st, s) = rw dv CAIRN1_SUPER_SECTOR False s in
      if st \<noteq> 0 then (False, s)
      else if data_starts_with (bytes ''DZCAIRN1'') s then (True, s)
      else let (st, s) = rw dv CAIRN1_SUPER_SECTOR True (format_super s) in
        if st \<noteq> 0 then (False, s)
        else let (st, s) = rw dv CAIRN1_SUPER_SECTOR False s in (st = 0, s))"

definition cairn_ns_revoked :: "'d device \<Rightarrow> nat \<Rightarrow> 'd blk \<Rightarrow> bool \<times> 'd blk" where
  "cairn_ns_revoked dv ns s =
     (let (ok, s) = cairn_load_super dv s in
      if \<not> ok then (False, s)
      else (ns < CAIRN1_NS_MAX \<and> d_read_u32 (cairn_ns_entry_off ns + CAIRN1_NS_OFF_REVOKED) s \<noteq> 0, s))"

definition cairn_ns_set_revoked :: "'d device \<Rightarrow> nat \<Rightarrow> bool \<Rightarrow> 'd blk \<Rightarrow> u64 \<times> 'd blk" where
  "cairn_ns_set_revoked dv ns revoked s =
     (if ns \<ge> CAIRN1_NS_MAX then (IPC_STATUS_BAD_REQUEST, s)
      else let (ok, s) = cairn_load_super dv s in
        if \<not> ok then (IPC_STATUS_IO_FAILURE, s)
        else let s = d_write_u32 (cairn_ns_entry_off ns + CAIRN1_NS_OFF_REVOKED) (if revoked then 1 else 0) s;
                 (st, s) = rw dv CAIRN1_SUPER_SECTOR True s in
          if st \<noteq> 0 then (IPC_STATUS_IO_FAILURE, s) else (IPC_STATUS_OK, s))"

definition cairn_ns_allowed :: "nat \<Rightarrow> u64 \<Rightarrow> bool" where
  "cairn_ns_allowed ns sender_caps \<longleftrightarrow>
     ns < CAIRN1_NS_MAX \<and> sender_caps AND push_bit (TASK_CAIRN_NS_BASE + ns) 1 \<noteq> 0"

definition cairn_commit ::
    "'d device \<Rightarrow> nat \<Rightarrow> nat \<Rightarrow> u64 \<Rightarrow> u32 \<Rightarrow> u32 \<Rightarrow> u8 \<Rightarrow> 'd blk \<Rightarrow> u64 \<times> 'd blk" where
  "cairn_commit dv ns len from intent derived rev_class s =
     (let (ok, s) = cairn_load_super dv s in
      if \<not> ok then (IPC_STATUS_IO_FAILURE, s)
      else let nxt = d_read_u32 8 s in
        if nxt \<ge> COMMIT_SLOTS then (IPC_STATUS_IO_FAILURE, s)
        else let e = cairn_ns_entry_off ns;
                 head = d_read_u32 (e + 16) s;
                 count = d_read_u32 (e + 20) s;
                 len = min len (CAIRN1_VALUE_MAX - 1);
                 value = mem_read (input s) 0 len;
                 hash = fnv64 value;
                 s = zero_data s;
                 gen = count + 1;
                 h = \<lparr> h_slot = nxt, h_parent = head, h_ns = of_nat ns, h_hash = hash,
                       h_actor = ucast from, h_flags = 1, h_len = of_nat len, h_intent = intent,
                       h_derived = derived, h_rev_class = rev_class, h_status = COMMITTED,
                       h_generation = ucast gen \<rparr>;
                 s = s\<lparr> data := mem_write (encode h (data s)) VALUE_OFF value \<rparr>;
                 (st, s) = rw dv (commit_sector nxt) True s in
          if st \<noteq> 0 then (IPC_STATUS_IO_FAILURE, s)
          else let (ok, s) = cairn_load_super dv s in
            if \<not> ok then (IPC_STATUS_IO_FAILURE, s)
            else let s = d_write_u32 8 (nxt + 1) s;
                     s = d_write_u32 (e + 16) nxt s;
                     s = d_write_u32 (e + 20) (count + 1) s;
                     (st, s) = rw dv CAIRN1_SUPER_SECTOR True s in
              if st \<noteq> 0 then (IPC_STATUS_IO_FAILURE, s) else (IPC_STATUS_OK, s))"

definition cairn_load_head :: "'d device \<Rightarrow> nat \<Rightarrow> 'd blk \<Rightarrow> u32 option \<times> 'd blk" where
  "cairn_load_head dv ns s =
     (let (ok, s) = cairn_load_super dv s in
      if \<not> ok then (None, s)
      else let head = d_read_u32 (cairn_ns_entry_off ns + 16) s in
        if head = NONE then (Some NONE, s)
        else let (st, s) = rw dv (commit_sector head) False s in
          if st \<noteq> 0 \<or> \<not> data_starts_with MAGIC s then (None, s) else (Some head, s))"

definition cairn_get :: "'d device \<Rightarrow> nat \<Rightarrow> 'd blk \<Rightarrow> u64 \<times> 'd blk" where
  "cairn_get dv ns s =
     (let (r, s) = cairn_load_head dv ns s in
      case r of
        None \<Rightarrow> (IPC_STATUS_IO_FAILURE, s)
      | Some head \<Rightarrow>
          if head = NONE then (IPC_STATUS_UNAVAILABLE, s)
          else let len = unat (d_read_u32 32 s);
                   value = mem_read (data s) VALUE_OFF len in
            (IPC_STATUS_OK,
             s\<lparr> data := (\<lambda>i. if i < len then value ! i else if i < SECTOR_SIZE then 0 else data s i) \<rparr>))"

text \<open>The newest-first walk of \<open>cairn_log\<close> and \<open>sand_log\<close>: the slots it shows.\<close>

fun log_walk :: "'d device \<Rightarrow> nat \<Rightarrow> u32 \<Rightarrow> 'd blk \<Rightarrow> u32 list option \<times> 'd blk" where
  "log_walk dv 0 cur s = (Some [], s)"
| "log_walk dv (Suc n) cur s =
     (if cur = NONE then (Some [], s)
      else let (st, s) = rw dv (commit_sector cur) False s in
        if st \<noteq> 0 \<or> \<not> data_starts_with MAGIC s then (None, s)
        else let parent = d_read_u32 8 s; (r, s) = log_walk dv n parent s in
          (map_option (\<lambda>slots. cur # slots) r, s))"

definition cairn_log :: "'d device \<Rightarrow> nat \<Rightarrow> 'd blk \<Rightarrow> (u64 \<times> u32 list) \<times> 'd blk" where
  "cairn_log dv ns s =
     (let (ok, s) = cairn_load_super dv s in
      if \<not> ok then ((IPC_STATUS_IO_FAILURE, []), s)
      else let cur = d_read_u32 (cairn_ns_entry_off ns + 16) s in
        if cur = NONE then ((IPC_STATUS_OK, []), s)
        else let (r, s) = log_walk dv 8 cur s in
          (case r of None \<Rightarrow> (IPC_STATUS_IO_FAILURE, []) | Some slots \<Rightarrow> (IPC_STATUS_OK, slots), s))"

definition sand_log :: "'d device \<Rightarrow> nat \<Rightarrow> 'd blk \<Rightarrow> (u64 \<times> u32 list) \<times> 'd blk" where
  "sand_log dv ns s =
     (let (ok, s) = cairn_load_super dv s in
      if \<not> ok then ((IPC_STATUS_IO_FAILURE, []), s)
      else let cur = d_read_u32 (cairn_ns_entry_off ns + 16) s in
        if cur = NONE then ((IPC_STATUS_OK, []), s)
        else let (r, s) = log_walk dv 8 cur s in
          (case r of None \<Rightarrow> (IPC_STATUS_IO_FAILURE, []) | Some slots \<Rightarrow> (IPC_STATUS_OK, slots), s))"

definition sand_info :: "'d device \<Rightarrow> nat \<Rightarrow> 'd blk \<Rightarrow> u64 \<times> 'd blk" where
  "sand_info dv ns s =
     (let (r, s) = cairn_load_head dv ns s in
      case r of
        None \<Rightarrow> (IPC_STATUS_IO_FAILURE, s)
      | Some head \<Rightarrow> if head = NONE then (IPC_STATUS_UNAVAILABLE, s) else (IPC_STATUS_OK, s))"

text \<open>The walk of \<open>cairn_rollback\<close>: the slot reached and the number of steps taken.\<close>

fun rollback_walk :: "'d device \<Rightarrow> nat \<Rightarrow> u32 \<Rightarrow> 'd blk \<Rightarrow> (u32 \<times> nat) option \<times> 'd blk" where
  "rollback_walk dv 0 cur s = (Some (cur, 0), s)"
| "rollback_walk dv (Suc n) cur s =
     (if cur = NONE then (Some (cur, 0), s)
      else let (st, s) = rw dv (commit_sector cur) False s in
        if st \<noteq> 0 \<or> \<not> data_starts_with MAGIC s then (None, s)
        else let (r, s) = rollback_walk dv n (d_read_u32 8 s) s in
          (map_option (\<lambda>(slot, walked). (slot, walked + 1)) r, s))"

definition sat_sub :: "u32 \<Rightarrow> u32 \<Rightarrow> u32" where
  "sat_sub a b = (if a \<ge> b then a - b else 0)"

definition cairn_rollback :: "'d device \<Rightarrow> nat \<Rightarrow> nat \<Rightarrow> 'd blk \<Rightarrow> u64 \<times> 'd blk" where
  "cairn_rollback dv ns steps s =
     (let (ok, s) = cairn_load_super dv s in
      if \<not> ok then (IPC_STATUS_IO_FAILURE, s)
      else let e = cairn_ns_entry_off ns;
               head = d_read_u32 (e + 16) s;
               count = d_read_u32 (e + 20) s in
        if head = NONE then (IPC_STATUS_UNAVAILABLE, s)
        else let (r, s) = rollback_walk dv steps head s in
          case r of
            None \<Rightarrow> (IPC_STATUS_IO_FAILURE, s)
          | Some (cur, walked) \<Rightarrow>
              let (ok, s) = cairn_load_super dv s in
              if \<not> ok then (IPC_STATUS_IO_FAILURE, s)
              else let s = d_write_u32 (e + 16) cur s;
                       s = d_write_u32 (e + 20) (sat_sub count (of_nat walked)) s;
                       (st, s) = rw dv CAIRN1_SUPER_SECTOR True s in
                if st \<noteq> 0 then (IPC_STATUS_IO_FAILURE, s) else (IPC_STATUS_OK, s))"

definition cairn_verify :: "'d device \<Rightarrow> nat \<Rightarrow> 'd blk \<Rightarrow> u64 \<times> 'd blk" where
  "cairn_verify dv ns s =
     (let (r, s) = cairn_load_head dv ns s in
      case r of
        None \<Rightarrow> (IPC_STATUS_IO_FAILURE, s)
      | Some head \<Rightarrow>
          if head = NONE then (IPC_STATUS_UNAVAILABLE, s)
          else let len = unat (d_read_u32 32 s);
                   stored = d_read_u64 16 s;
                   actual = fnv64 (mem_read (data s) VALUE_OFF (min len CAIRN1_VALUE_MAX)) in
            if stored = actual then (IPC_STATUS_OK, s) else (IPC_STATUS_IO_FAILURE, s))"

definition cairn_status :: "'d device \<Rightarrow> 'd blk \<Rightarrow> u64 \<times> 'd blk" where
  "cairn_status dv s =
     (let (ok, s) = cairn_load_super dv s in
      if \<not> ok then (IPC_STATUS_IO_FAILURE, s) else (IPC_STATUS_OK, s))"

section \<open>The ledger held by the sectors\<close>

definition formatted :: "(u64 \<Rightarrow> mem) \<Rightarrow> bool" where
  "formatted c \<longleftrightarrow> mem_read (c 1600) 0 8 = bytes ''DZCAIRN1''"

definition commit_at :: "(u64 \<Rightarrow> mem) \<Rightarrow> nat \<Rightarrow> mem" where
  "commit_at c k = c (1601 + of_nat k)"

definition effect_of :: "mem \<Rightarrow> effect" where
  "effect_of m = \<lparr> e_ns = get_u32 m 12, e_hash = ucast (get_u32 m 16) OR push_bit 32 (ucast (get_u32 m 20)),
     e_actor = get_u32 m 24, e_intent = get_u32 m 36, e_derived = get_u32 m 40,
     e_class = m 44, e_status = m 45, e_gen = ucast (m 46) OR push_bit 8 (ucast (m 47)),
     e_value = mem_read m 64 (unat (get_u32 m 32)) \<rparr>"

definition slot_opt :: "u32 \<Rightarrow> nat option" where
  "slot_opt w = (if w = NONE then None else Some (unat w))"

definition parent_at :: "(u64 \<Rightarrow> mem) \<Rightarrow> nat \<Rightarrow> nat option" where
  "parent_at c k = slot_opt (get_u32 (commit_at c k) 8)"

fun chain :: "(nat \<Rightarrow> nat option) \<Rightarrow> nat \<Rightarrow> nat list" where
  "chain par k = k # (case par k of None \<Rightarrow> [] | Some q \<Rightarrow> if q < k then chain par q else [])"

declare chain.simps [simp del]

definition chain_opt :: "(nat \<Rightarrow> nat option) \<Rightarrow> nat option \<Rightarrow> nat list" where
  "chain_opt par r = (case r of None \<Rightarrow> [] | Some k \<Rightarrow> chain par k)"

definition commit_ok :: "mem \<Rightarrow> nat \<Rightarrow> bool" where
  "commit_ok m k \<longleftrightarrow> mem_read m 0 4 = MAGIC \<and> get_u32 m 4 = of_nat k \<and>
     (\<forall>q. slot_opt (get_u32 m 8) = Some q \<longrightarrow> q < k) \<and> unat (get_u32 m 32) < 448"

definition sup_next :: "mem \<Rightarrow> nat" where "sup_next m = unat (get_u32 m 8)"
definition sup_head :: "mem \<Rightarrow> nat \<Rightarrow> nat option" where "sup_head m ns = slot_opt (get_u32 m (32 + ns * 32))"
definition sup_count :: "mem \<Rightarrow> nat \<Rightarrow> nat" where "sup_count m ns = unat (get_u32 m (36 + ns * 32))"
definition sup_cut :: "mem \<Rightarrow> nat \<Rightarrow> bool" where "sup_cut m ns \<longleftrightarrow> get_u32 m (40 + ns * 32) \<noteq> 0"

lemmas sup_defs = sup_next_def sup_head_def sup_count_def sup_cut_def

definition ns_rel :: "(u64 \<Rightarrow> mem) \<Rightarrow> mem \<Rightarrow> nat \<Rightarrow> ledger \<Rightarrow> bool" where
  "ns_rel c m ns L \<longleftrightarrow>
     (\<forall>k. sup_head m ns = Some k \<longrightarrow> k < sup_next m) \<and>
     stack L ns = map (\<lambda>k. effect_of (commit_at c k)) (chain_opt (parent_at c) (sup_head m ns)) \<and>
     sup_count m ns = length (stack L ns) \<and> cut_off L ns = sup_cut m ns"

definition live_rel :: "(u64 \<Rightarrow> mem) \<Rightarrow> mem \<Rightarrow> ledger \<Rightarrow> bool" where
  "live_rel c m L \<longleftrightarrow>
     mem_read m 0 8 = bytes ''DZCAIRN1'' \<and> sup_next m \<le> 255 \<and>
     (\<forall>k < sup_next m. commit_ok (commit_at c k) k) \<and>
     log L = map (\<lambda>k. effect_of (commit_at c k)) [0..<sup_next m] \<and>
     (\<forall>ns < 8. ns_rel c m ns L) \<and> (\<forall>ns \<ge> 8. stack L ns = [] \<and> \<not> cut_off L ns)"

text \<open>A disk without the store's magic holds the empty ledger: the first access formats it.\<close>

definition store_rel :: "(u64 \<Rightarrow> mem) \<Rightarrow> ledger \<Rightarrow> bool" where
  "store_rel c L \<longleftrightarrow> (if formatted c then live_rel c (c 1600) L else L = empty_ledger)"

section \<open>Reading and writing the superblock\<close>

lemma commit_sector_unat: "commit_sector w = 1601 + of_nat (unat w)"
  by (simp add: commit_sector_def CAIRN1_COMMIT_FIRST_SECTOR_def)

lemma commit_sector_distinct:
  assumes "k < 2 ^ 32"
  shows "(1601 + of_nat k :: u64) \<noteq> 1600"
proof
  assume "(1601 + of_nat k :: u64) = 1600"
  then have "(of_nat (k + 1) :: u64) = 0" by (simp add: eq_iff_diff_eq_0 [of "1601 + of_nat k"])
  then have "2 ^ 64 dvd k + 1" by (simp only: word_of_nat_eq_0_iff) simp
  with assms show False by (auto dest: dvd_imp_le)
qed

lemma commit_sector_inj:
  assumes "j < 2 ^ 32" "k < 2 ^ 32"
  shows "(1601 + of_nat j :: u64) = 1601 + of_nat k \<longleftrightarrow> j = k"
  using assms by (auto simp: word_of_nat_eq_iff take_bit_nat_eq_self)

lemma commit_at_super [simp]: "k < 2 ^ 32 \<Longrightarrow> commit_at (c(1600 := m)) k = commit_at c k"
  using commit_sector_distinct [of k] by (simp add: commit_at_def)

lemma commit_at_upd:
  "j < 2 ^ 32 \<Longrightarrow> k < 2 ^ 32 \<Longrightarrow>
     commit_at (c(1601 + of_nat j := m)) k = (if j = k then m else commit_at c k)"
  using commit_sector_inj [of k j] by (auto simp: commit_at_def)

lemma super_at_upd [simp]: "k < 2 ^ 32 \<Longrightarrow> (c(1601 + of_nat k := m)) (1600 :: u64) = c 1600"
  using commit_sector_distinct [of k] by (simp add: fun_upd_def)

lemma sup_put_next [simp]:
  "sup_next (put_u32 8 v m) = unat v" "sup_head (put_u32 8 v m) ns = sup_head m ns"
  "sup_count (put_u32 8 v m) ns = sup_count m ns" "sup_cut (put_u32 8 v m) ns = sup_cut m ns"
  by (simp_all add: sup_defs)

lemma get_entry_other:
  assumes "a \<in> {32, 36, 40}" "b \<in> {32, 36, 40}" "a \<noteq> b \<or> ns \<noteq> ns'"
  shows "get_u32 (put_u32 (a + ns * 32) v m) (b + ns' * 32) = get_u32 m (b + ns' * 32)"
proof (rule get_put_u32_other)
  have "ns = ns' \<or> ns * 32 + 32 \<le> ns' * 32 \<or> ns' * 32 + 32 \<le> ns * 32" by presburger
  with assms show "a + ns * 32 + 4 \<le> b + ns' * 32 \<or> b + ns' * 32 + 4 \<le> a + ns * 32" by auto
qed

lemma sup_put_head [simp]:
  "sup_next (put_u32 (32 + ns * 32) v m) = sup_next m"
  "sup_head (put_u32 (32 + ns * 32) v m) ns' = (if ns' = ns then slot_opt v else sup_head m ns')"
  "sup_count (put_u32 (32 + ns * 32) v m) ns' = sup_count m ns'"
  "sup_cut (put_u32 (32 + ns * 32) v m) ns' = sup_cut m ns'"
  by (auto simp: sup_defs get_entry_other)

lemma sup_put_count [simp]:
  "sup_next (put_u32 (36 + ns * 32) v m) = sup_next m"
  "sup_head (put_u32 (36 + ns * 32) v m) ns' = sup_head m ns'"
  "sup_count (put_u32 (36 + ns * 32) v m) ns' = (if ns' = ns then unat v else sup_count m ns')"
  "sup_cut (put_u32 (36 + ns * 32) v m) ns' = sup_cut m ns'"
  by (auto simp: sup_defs get_entry_other)

lemma sup_put_cut [simp]:
  "sup_next (put_u32 (40 + ns * 32) v m) = sup_next m"
  "sup_head (put_u32 (40 + ns * 32) v m) ns' = sup_head m ns'"
  "sup_count (put_u32 (40 + ns * 32) v m) ns' = sup_count m ns'"
  "sup_cut (put_u32 (40 + ns * 32) v m) ns' = (if ns' = ns then v \<noteq> 0 else sup_cut m ns')"
  by (auto simp: sup_defs get_entry_other)

section \<open>Chains\<close>

lemma chain_le: "j \<in> set (chain par k) \<Longrightarrow> j \<le> k"
proof (induction k rule: less_induct)
  case (less k)
  then show ?case by (subst (asm) chain.simps) (fastforce split: option.splits if_splits)
qed

lemma chain_cong: "(\<And>j. j \<le> k \<Longrightarrow> par j = par' j) \<Longrightarrow> chain par k = chain par' k"
proof (induction k rule: less_induct)
  case (less k)
  then have "chain par q = chain par' q" if "q < k" for q using that by auto
  with less.prems [of k] show ?case
    by (subst (1 2) chain.simps) (auto split: option.splits)
qed

lemma chain_Cons: "(\<And>q. par k = Some q \<Longrightarrow> q < k) \<Longrightarrow> chain par k = k # chain_opt par (par k)"
  by (subst chain.simps) (auto simp: chain_opt_def split: option.splits)

lemma length_chain: "length (chain par k) \<le> k + 1"
proof (induction k rule: less_induct)
  case (less k)
  show ?case
  proof (cases "par k")
    case None
    then show ?thesis by (simp add: chain.simps [of par k])
  next
    case (Some q)
    then show ?thesis using less [of q] by (auto simp: chain.simps [of par k])
  qed
qed

lemma ns_rel_cong:
  assumes "\<And>k. k < sup_next m \<Longrightarrow> commit_at c' k = commit_at c k"
    and "ns_rel c m ns L"
  shows "ns_rel c' m ns L"
proof (cases "sup_head m ns")
  case (Some k)
  with assms(2) have k: "k < sup_next m" by (simp add: ns_rel_def)
  then have "chain (parent_at c') k = chain (parent_at c) k"
    by (intro chain_cong) (simp add: parent_at_def assms(1))
  moreover have "j < sup_next m" if "j \<in> set (chain (parent_at c) k)" for j
    using chain_le [OF that] k by simp
  ultimately show ?thesis using assms Some by (simp add: ns_rel_def chain_opt_def)
qed (use assms in \<open>simp add: ns_rel_def chain_opt_def\<close>)

lemma live_rel_cong:
  assumes "\<And>k. k < sup_next m \<Longrightarrow> commit_at c' k = commit_at c k" and "live_rel c m L"
  shows "live_rel c' m L"
  using assms ns_rel_cong [of m c' c] by (auto simp: live_rel_def)

lemma sup_sector_of [simp]:
  "sup_next (sector_of m) = sup_next m"
  "ns < 8 \<Longrightarrow> sup_head (sector_of m) ns = sup_head m ns"
  "ns < 8 \<Longrightarrow> sup_count (sector_of m) ns = sup_count m ns"
  "ns < 8 \<Longrightarrow> sup_cut (sector_of m) ns = sup_cut m ns"
  by (simp_all add: sup_defs)

lemma live_rel_sector [simp]: "live_rel c (sector_of m) L = live_rel c m L"
  by (simp add: live_rel_def ns_rel_def)

text \<open>The superblock write: what the sectors hold afterwards, as a ledger.\<close>

lemma store_rel_super:
  assumes "live_rel c m L"
  shows "store_rel (c(1600 := sector_of m)) L"
proof -
  have "sup_next m \<le> 255" using assms by (simp add: live_rel_def)
  then have "live_rel (c(1600 := sector_of m)) m L"
    using assms by (intro live_rel_cong [OF _ assms]) simp
  moreover have "mem_read m 0 8 = bytes ''DZCAIRN1''" using assms by (simp add: live_rel_def)
  ultimately show ?thesis by (simp add: store_rel_def formatted_def)
qed

lemma store_rel_other:
  assumes "store_rel c L" and "\<And>k. k < 255 \<Longrightarrow> commit_at c' k = commit_at c k" and "c' 1600 = c 1600"
  shows "store_rel c' L"
proof (cases "formatted c")
  case True
  with assms(1) have rel: "live_rel c (c 1600) L" by (simp add: store_rel_def)
  then have "sup_next (c 1600) \<le> 255" by (simp add: live_rel_def)
  with rel assms(2,3) have "live_rel c' (c' 1600) L" by (auto intro: live_rel_cong [OF _ rel])
  with True assms(3) show ?thesis by (simp add: store_rel_def formatted_def)
qed (use assms in \<open>simp add: store_rel_def formatted_def\<close>)

section \<open>Formatting and loading\<close>

lemma bytes_magic: "bytes ''DZCAIRN1'' = [68, 90, 67, 65, 73, 82, 78, 49]"
  by (simp add: bytes_def)

lemma format_entry_frame:
  "i < 8 \<or> 512 \<le> i \<Longrightarrow> ns < 8 \<Longrightarrow> data (format_entry ns s) i = data s i"
proof -
  assume i: "i < 8 \<or> 512 \<le> i" and ns: "ns < 8"
  have "data (s\<lparr> data := mem_write (data s) (16 + ns * 32) (take 16 (CAIRN1_NS_NAMES ! ns)) \<rparr>) i = data s i"
    using i ns by (auto intro!: mem_write_outside)
  with i ns show ?thesis
    by (auto simp: format_entry_def Let_def d_write_u32_def cairn_ns_entry_off_def)
qed

lemma format_entry_sup:
  assumes "ns < 8"
  shows "sup_next (data (format_entry ns s)) = sup_next (data s)"
    and "sup_head (data (format_entry ns s)) ns' = (if ns' = ns then None else sup_head (data s) ns')"
    and "sup_count (data (format_entry ns s)) ns' = (if ns' = ns then 0 else sup_count (data s) ns')"
    and "sup_cut (data (format_entry ns s)) ns' = sup_cut (data s) ns'"
proof -
  let ?w = "mem_write (data s) (16 + ns * 32) (take 16 (CAIRN1_NS_NAMES ! ns))"
  have entry: "get_u32 ?w (a + ns' * 32) = get_u32 (data s) (a + ns' * 32)" if "a \<in> {32, 36, 40}" for a
  proof (rule get_u32_mem_write)
    have "ns = ns' \<or> ns * 32 + 32 \<le> ns' * 32 \<or> ns' * 32 + 32 \<le> ns * 32" by presburger
    then show "16 + ns * 32 + length (take 16 (CAIRN1_NS_NAMES ! ns)) \<le> a + ns' * 32 \<or>
        a + ns' * 32 + 4 \<le> 16 + ns * 32"
      using that by auto
  qed
  have w: "sup_next ?w = sup_next (data s)" "sup_head ?w ns' = sup_head (data s) ns'"
    "sup_count ?w ns' = sup_count (data s) ns'" "sup_cut ?w ns' = sup_cut (data s) ns'"
    using entry by (simp_all add: sup_defs)
  show "sup_next (data (format_entry ns s)) = sup_next (data s)"
    "sup_head (data (format_entry ns s)) ns' = (if ns' = ns then None else sup_head (data s) ns')"
    "sup_count (data (format_entry ns s)) ns' = (if ns' = ns then 0 else sup_count (data s) ns')"
    "sup_cut (data (format_entry ns s)) ns' = sup_cut (data s) ns'"
    using w by (simp_all add: format_entry_def Let_def d_write_u32_def cairn_ns_entry_off_def slot_opt_def)
qed

lemma format_super_fold:
  "n \<le> 8 \<Longrightarrow> (let m = data (fold format_entry [0..<n] s) in
     sup_next m = sup_next (data s) \<and> (\<forall>i. i < 8 \<or> 512 \<le> i \<longrightarrow> m i = data s i) \<and>
     (\<forall>ns. sup_head m ns = (if ns < n then None else sup_head (data s) ns) \<and>
        sup_count m ns = (if ns < n then 0 else sup_count (data s) ns) \<and>
        sup_cut m ns = sup_cut (data s) ns))"
  by (induction n) (auto simp: Let_def format_entry_sup format_entry_frame less_Suc_eq)

lemma format_entry_other [simp]: "dev (format_entry ns s) = dev s" "input (format_entry ns s) = input s"
  by (simp_all add: format_entry_def Let_def)

lemma format_fold_other:
  "dev (fold format_entry nss s) = dev s \<and> input (fold format_entry nss s) = input s"
  by (induction nss arbitrary: s) simp_all

lemma format_super_other [simp]: "dev (format_super s) = dev s" "input (format_super s) = input s"
  by (simp_all add: format_super_def format_fold_other)

lemma get_u32_zero: "(\<And>i. off \<le> i \<Longrightarrow> i < off + 4 \<Longrightarrow> m i = 0) \<Longrightarrow> get_u32 m off = 0"
proof -
  assume "\<And>i. off \<le> i \<Longrightarrow> i < off + 4 \<Longrightarrow> m i = 0"
  then have "get_u32 m off = get_u32 (\<lambda>_. 0) off" by (rule get_u32_cong)
  also have "\<dots> = 0" by (simp add: get_u32_def mem_read_def numeral_eq_Suc)
  finally show ?thesis .
qed

lemma format_super_live: "live_rel c (data (format_super s)) empty_ledger"
proof -
  let ?b = "d_write_u32 8 0 (set_data (bytes ''DZCAIRN1'') (zero_data s))"
  have zero: "data ?b i = 0" if "12 \<le> i" "i < 512" for i
    using that by (auto simp: d_write_u32_def set_data_def SECTOR_SIZE_def)
  have magic: "data ?b i = bytes ''DZCAIRN1'' ! i" if "i < 8" for i
    using that by (auto simp: d_write_u32_def set_data_def SECTOR_SIZE_def)
  have "sup_cut (data ?b) ns = False" if "ns < 8" for ns
    unfolding sup_cut_def using that by (auto intro!: get_u32_zero zero)
  moreover have "sup_next (data ?b) = 0" by (simp add: d_write_u32_def)
  moreover have "mem_read (data (format_super s)) 0 8 = bytes ''DZCAIRN1''"
    using format_super_fold [of 8 ?b] magic
    by (intro nth_equalityI) (auto simp: Let_def format_super_def CAIRN1_NS_MAX_def)
  ultimately show ?thesis
    using format_super_fold [of 8 ?b]
    by (simp add: live_rel_def ns_rel_def Let_def format_super_def CAIRN1_NS_MAX_def empty_ledger_def
        chain_opt_def)
qed

text \<open>The superblock is in the data window and the sectors hold the ledger.\<close>

definition loaded :: "('d \<Rightarrow> u64 \<Rightarrow> mem) \<Rightarrow> ledger \<Rightarrow> 'd blk \<Rightarrow> bool" where
  "loaded content L s \<longleftrightarrow> live_rel (content (dev s)) (data s) L \<and> content (dev s) 1600 = sector_of (data s)"

lemma loaded_store_rel: "loaded content L s \<Longrightarrow> store_rel (content (dev s)) L"
  using store_rel_super [of "content (dev s)" "data s" L] by (auto simp: loaded_def fun_upd_idem)

lemma starts_with_magic:
  "sector_of (data s) = m \<Longrightarrow> data_starts_with (bytes ''DZCAIRN1'') s \<longleftrightarrow> mem_read m 0 8 = bytes ''DZCAIRN1''"
proof -
  have "length (bytes ''DZCAIRN1'') = 8" by simp
  moreover assume "sector_of (data s) = m"
  ultimately show ?thesis unfolding data_starts_with_def by (simp only:) auto
qed


lemma starts_with_MAGIC:
  "sector_of (data s) = m \<Longrightarrow> data_starts_with MAGIC s \<longleftrightarrow> mem_read m 0 4 = MAGIC"
  by (auto simp: data_starts_with_def)

lemma load_super_spec:
  assumes dv: "block_device dv content" and rel: "store_rel (content (dev s)) L"
    and run: "cairn_load_super dv s = (ok, s')"
  shows "store_rel (content (dev s')) L \<and> input s' = input s \<and>
    (ok \<longrightarrow> loaded content L s') \<and>
    (\<forall>sec. sec \<noteq> 1600 \<longrightarrow> content (dev s') sec = content (dev s) sec) \<and>
    (formatted (content (dev s)) \<longrightarrow> content (dev s') = content (dev s))"
proof -
  obtain st1 s1 where r1: "rw dv 1600 False s = (st1, s1)" by fastforce
  obtain st2 s2 where r2: "rw dv 1600 True (format_super s1) = (st2, s2)" by fastforce
  obtain st3 s3 where r3: "rw dv 1600 False s2 = (st3, s3)" by fastforce
  note f1 = rw_read [OF dv r1] and f2 = rw_write [OF dv r2] and f3 = rw_read [OF dv r3]
  note run' = run [unfolded cairn_load_super_def CAIRN1_SUPER_SECTOR_def r1 r2 r3 Let_def prod.case]
  show ?thesis
  proof (cases "st1 = 0 \<and> \<not> formatted (content (dev s))")
    case False
    then have "s' = s1 \<and> (ok \<longrightarrow> formatted (content (dev s)) \<and> sector_of (data s1) = content (dev s) 1600)"
      using run' f1 by (auto simp: starts_with_magic formatted_def split: if_splits)
    then show ?thesis using f1 rel live_rel_sector [of "content (dev s)" "data s1" L]
      by (auto simp: loaded_def store_rel_def simp del: live_rel_sector)
  next
    case True
    then have L: "L = empty_ledger" and nomagic: "\<not> data_starts_with (bytes ''DZCAIRN1'') s1"
      using rel f1 by (auto simp: store_rel_def formatted_def starts_with_magic)
    have live: "live_rel c (data (format_super s1)) L" for c by (simp add: L format_super_live)
    have rel2: "store_rel (content (dev s2)) L" using f1 f2 rel store_rel_super [OF live] by auto
    have "loaded content L s3" if "st2 = 0" "st3 = 0"
      using f2 f3 that live [of "content (dev s3)"] live_rel_sector [of "content (dev s3)" "data s3" L]
        live_rel_sector [of "content (dev s3)" "data (format_super s1)" L]
      by (auto simp: loaded_def simp del: live_rel_sector)
    then show ?thesis
      using True nomagic run' f1 f2 f3 rel2 by (auto split: if_splits)
  qed
qed

section \<open>Committing\<close>

lemma decode_fields:
  assumes "decode m = Some h"
  shows "mem_read m 0 4 = MAGIC" and "get_u32 m 4 = h_slot h" and "get_u32 m 8 = h_parent h"
    and "get_u32 m 32 = h_len h"
    and "effect_of m = \<lparr> e_ns = h_ns h, e_hash = h_hash h, e_actor = h_actor h, e_intent = h_intent h,
      e_derived = h_derived h, e_class = h_rev_class h, e_status = h_status h,
      e_gen = h_generation h, e_value = mem_read m 64 (unat (h_len h)) \<rparr>"
  using assms by (auto simp: decode_def effect_of_def split: if_splits)

lemma effect_of_sector: "unat (get_u32 m 32) \<le> 448 \<Longrightarrow> effect_of (sector_of m) = effect_of m"
  by (simp add: effect_of_def) (simp add: sector_of_def)

lemma commit_ok_sector: "commit_ok (sector_of m) k = commit_ok m k"
  by (simp add: commit_ok_def)

text \<open>A record laid out by the encoder with its value behind it.\<close>

lemma record_written:
  assumes "unat (h_len h) = length v" and "length v < 448"
    and "h_slot h = of_nat k" and "\<And>q. slot_opt (h_parent h) = Some q \<Longrightarrow> q < k"
  shows "commit_ok (sector_of (mem_write (encode h m) 64 v)) k"
    and "slot_opt (get_u32 (sector_of (mem_write (encode h m) 64 v)) 8) = slot_opt (h_parent h)"
    and "effect_of (sector_of (mem_write (encode h m) 64 v)) =
      \<lparr> e_ns = h_ns h, e_hash = h_hash h, e_actor = h_actor h, e_intent = h_intent h,
        e_derived = h_derived h, e_class = h_rev_class h, e_status = h_status h,
        e_gen = h_generation h, e_value = v \<rparr>"
proof -
  have "decode (mem_write (encode h m) 64 v) = decode (encode h m)"
    by (rule decode_cong) (simp add: mem_write_outside)
  then have dec: "decode (mem_write (encode h m) 64 v) = Some h" by simp
  note f = decode_fields [OF dec]
  show "commit_ok (sector_of (mem_write (encode h m) 64 v)) k"
    using f(1-4) assms by (simp add: commit_ok_sector commit_ok_def)
  show "slot_opt (get_u32 (sector_of (mem_write (encode h m) 64 v)) 8) = slot_opt (h_parent h)"
    using f(3) by simp
  show "effect_of (sector_of (mem_write (encode h m) 64 v)) =
      \<lparr> e_ns = h_ns h, e_hash = h_hash h, e_actor = h_actor h, e_intent = h_intent h,
        e_derived = h_derived h, e_class = h_rev_class h, e_status = h_status h,
        e_gen = h_generation h, e_value = v \<rparr>"
    using f(4,5) assms(1,2) by (simp add: effect_of_sector mem_read_write_same)
qed

lemma live_rel_push:
  assumes live: "live_rel c m L" and n: "sup_next m < 255" and ns: "ns < 8"
    and ok: "commit_ok (commit_at c (sup_next m)) (sup_next m)"
    and par: "parent_at c (sup_next m) = sup_head m ns"
    and m': "sup_next m' = sup_next m + 1" "mem_read m' 0 8 = mem_read m 0 8"
      "\<And>ns'. sup_head m' ns' = (if ns' = ns then Some (sup_next m) else sup_head m ns')"
      "\<And>ns'. sup_count m' ns' = (if ns' = ns then sup_count m ns + 1 else sup_count m ns')"
      "\<And>ns'. sup_cut m' ns' = sup_cut m ns'"
  shows "live_rel c m' (ledger_push ns (effect_of (commit_at c (sup_next m))) L)"
proof -
  have "chain (parent_at c) (sup_next m) = sup_next m # chain_opt (parent_at c) (sup_head m ns)"
    using ok par chain_Cons [of "parent_at c" "sup_next m"]
    by (auto simp: commit_ok_def parent_at_def)
  with live ns have "ns_rel c m' ns' (ledger_push ns (effect_of (commit_at c (sup_next m))) L)" if "ns' < 8" for ns'
    using that m' by (auto simp: live_rel_def ns_rel_def ledger_push_def chain_opt_def less_Suc_eq)
  with live ok m' n ns show ?thesis
    by (auto simp: live_rel_def ledger_push_def less_Suc_eq)
qed

lemma put_outside_magic: "8 \<le> off \<Longrightarrow> mem_read (put_u32 off v m) 0 8 = mem_read m 0 8"
  by simp

text \<open>The relation survives a write to a commit slot that is not in use.\<close>

lemma store_rel_spare_slot:
  assumes "live_rel c m L" and "c 1600 = sector_of m" and "sup_next m \<le> k" and "k < 2 ^ 32"
  shows "live_rel (c(1601 + of_nat k := r)) m L \<and> store_rel (c(1601 + of_nat k := r)) L"
proof -
  have "sup_next m \<le> 255" using assms by (simp add: live_rel_def)
  then have live: "live_rel (c(1601 + of_nat k := r)) m L"
    using assms by (intro live_rel_cong [OF _ assms(1)]) (simp add: commit_at_upd)
  moreover have "(c(1601 + of_nat k := r)) 1600 = sector_of m"
    using super_at_upd [OF assms(4), of c r] assms(2) by (simp only:)
  ultimately show ?thesis
    using store_rel_super [OF live] by (simp only: fun_upd_idem)
qed

lemma live_rel_bounds:
  assumes "live_rel c m L"
  shows "length (log L) = sup_next m" and "sup_next m \<le> 255" and "length (stack L ns) \<le> sup_next m"
proof -
  show "length (log L) = sup_next m" and "sup_next m \<le> 255" using assms by (auto simp: live_rel_def)
  show "length (stack L ns) \<le> sup_next m"
  proof (cases "ns < 8")
    case True
    with assms have "ns_rel c m ns L" by (simp add: live_rel_def)
    then show ?thesis
    proof (cases "sup_head m ns")
      case (Some k)
      with \<open>ns_rel c m ns L\<close> length_chain [of "parent_at c" k] show ?thesis
        by (simp add: ns_rel_def chain_opt_def)
    qed (simp add: ns_rel_def chain_opt_def)
  qed (use assms in \<open>simp add: live_rel_def\<close>)
qed

lemma of_nat_unat_count: "unat (w :: u32) = k \<Longrightarrow> w = of_nat k"
  by auto

text \<open>The last step of an operation: the superblock write of a staged window.\<close>

lemma super_write:
  assumes dv: "block_device dv content" and old: "store_rel (content (dev s)) L"
    and new: "live_rel (content (dev s)) (data s) L'" and run: "rw dv 1600 True s = (st, s')"
  shows "store_rel (content (dev s')) L' \<or> st \<noteq> 0 \<and> store_rel (content (dev s')) L"
  using rw_write [OF dv run] old store_rel_super [OF new] by auto

lemma loaded_again:
  assumes dv: "block_device dv content" and rel: "store_rel (content (dev s)) L"
    and fmt: "formatted (content (dev s))" and run: "cairn_load_super dv s = (ok, s')"
  shows "store_rel (content (dev s')) L" and "content (dev s') = content (dev s)" and "input s' = input s"
    and "ok \<Longrightarrow> loaded content L s'"
  using load_super_spec [OF dv rel run] fmt by auto

lemma loaded_formatted: "loaded content L s \<Longrightarrow> formatted (content (dev s))"
  by (simp add: loaded_def formatted_def live_rel_def)

text \<open>Staging a pushed effect in the window.\<close>

lemma stage_push:
  assumes live: "live_rel c m L" and n: "sup_next m < 255" and ns: "ns < 8"
    and ok: "commit_ok (commit_at c (sup_next m)) (sup_next m)"
    and par: "parent_at c (sup_next m) = sup_head m ns"
    and nxt: "unat nxt = sup_next m" and count: "unat count = sup_count m ns"
  shows "live_rel c (put_u32 (36 + ns * 32) (count + 1) (put_u32 (32 + ns * 32) nxt (put_u32 8 (nxt + 1) m)))
    (ledger_push ns (effect_of (commit_at c (sup_next m))) L)"
proof (rule live_rel_push [OF live n ns ok par])
  have "sup_count m ns = length (stack L ns)" using live ns by (simp add: live_rel_def ns_rel_def)
  then have "sup_count m ns \<le> 255"
    using live_rel_bounds(2) [OF live] live_rel_bounds(3) [OF live, of ns] by simp
  then have "unat (count + 1) = sup_count m ns + 1" using count by (simp add: unat_word_ariths)
  moreover have "unat (nxt + 1) = sup_next m + 1" using nxt n by (simp add: unat_word_ariths)
  moreover have "nxt \<noteq> NONE" using nxt n by (auto simp: NONE_def)
  ultimately show
    "sup_next (put_u32 (36 + ns * 32) (count + 1) (put_u32 (32 + ns * 32) nxt (put_u32 8 (nxt + 1) m))) = sup_next m + 1"
    "\<And>ns'. sup_head (put_u32 (36 + ns * 32) (count + 1) (put_u32 (32 + ns * 32) nxt (put_u32 8 (nxt + 1) m))) ns' =
      (if ns' = ns then Some (sup_next m) else sup_head m ns')"
    "\<And>ns'. sup_count (put_u32 (36 + ns * 32) (count + 1) (put_u32 (32 + ns * 32) nxt (put_u32 8 (nxt + 1) m))) ns' =
      (if ns' = ns then sup_count m ns + 1 else sup_count m ns')"
    "\<And>ns'. sup_cut (put_u32 (36 + ns * 32) (count + 1) (put_u32 (32 + ns * 32) nxt (put_u32 8 (nxt + 1) m))) ns' = sup_cut m ns'"
    using nxt by (simp_all add: slot_opt_def)
qed simp

text \<open>The commit record of an operation, as it lies in its sector.\<close>

definition commit_record :: "mem \<Rightarrow> nat \<Rightarrow> u64 \<Rightarrow> u32 \<Rightarrow> u32 \<Rightarrow> u8 \<Rightarrow> u8 list \<Rightarrow> mem \<Rightarrow> mem" where
  "commit_record m ns from intent derived cls v base =
     mem_write (encode \<lparr> h_slot = get_u32 m 8, h_parent = get_u32 m (32 + ns * 32), h_ns = of_nat ns,
       h_hash = fnv64 v, h_actor = ucast from, h_flags = 1, h_len = of_nat (length v), h_intent = intent,
       h_derived = derived, h_rev_class = cls, h_status = COMMITTED,
       h_generation = ucast (get_u32 m (36 + ns * 32) + 1) \<rparr> base) 64 v"

lemma commit_record_ok:
  assumes live: "live_rel c m L" and n: "sup_next m < 255" and ns: "ns < 8" and v: "length v < 448"
  shows "commit_ok (sector_of (commit_record m ns from intent derived cls v base)) (sup_next m)"
    and "slot_opt (get_u32 (sector_of (commit_record m ns from intent derived cls v base)) 8) = sup_head m ns"
    and "effect_of (sector_of (commit_record m ns from intent derived cls v base)) =
      new_effect ns (ucast from) intent derived cls COMMITTED v (length (stack L ns))"
proof -
  have len: "unat (of_nat (length v) :: u32) = length v" using v by (simp add: unat_of_nat_small)
  have slot: "get_u32 m 8 = of_nat (sup_next m)" by (simp add: sup_next_def)
  have count: "get_u32 m (36 + ns * 32) = of_nat (length (stack L ns))"
    using live ns by (simp add: live_rel_def ns_rel_def sup_count_def of_nat_unat_count)
  have "length (stack L ns) + 1 < 2 ^ 32"
    using live_rel_bounds(2) [OF live] live_rel_bounds(3) [OF live, of ns] by simp
  then have "unat (of_nat (length (stack L ns)) + 1 :: u32) = length (stack L ns) + 1"
    by (simp add: unat_of_nat_small unat_word_ariths)
  then have gen: "(ucast (get_u32 m (36 + ns * 32) + 1) :: u16) = of_nat (length (stack L ns) + 1)"
    by (metis count of_nat_unat)
  have par: "\<And>q. slot_opt (get_u32 m (32 + ns * 32)) = Some q \<Longrightarrow> q < sup_next m"
    using live ns by (simp add: live_rel_def ns_rel_def sup_head_def)
  note rec = record_written [of _ v "sup_next m" base]
  show "commit_ok (sector_of (commit_record m ns from intent derived cls v base)) (sup_next m)"
    unfolding commit_record_def by (rule rec(1)) (use len slot par v in simp_all)
  show "slot_opt (get_u32 (sector_of (commit_record m ns from intent derived cls v base)) 8) = sup_head m ns"
    unfolding commit_record_def
    by (subst rec(2)) (use len slot par v in \<open>simp_all add: sup_head_def\<close>)
  show "effect_of (sector_of (commit_record m ns from intent derived cls v base)) =
      new_effect ns (ucast from) intent derived cls COMMITTED v (length (stack L ns))"
    unfolding commit_record_def
    by (subst rec(3)) (use len slot par v gen in \<open>simp_all add: new_effect_def\<close>)
qed

lemma loaded_write_slot:
  assumes dv: "block_device dv content" and ld: "loaded content L s" and k: "sup_next (data s) \<le> unat slot"
    and run: "rw dv (commit_sector slot) True (s\<lparr> data := r \<rparr>) = (st, s')"
  shows "store_rel (content (dev s')) L" and "input s' = input s"
    and "formatted (content (dev s'))" and "content (dev s') 1600 = content (dev s) 1600"
    and "st = 0 \<Longrightarrow> content (dev s') = (content (dev s))(1601 + of_nat (unat slot) := sector_of r)"
proof -
  let ?c = "(content (dev s))(1601 + of_nat (unat slot) := sector_of r)"
  have w: "input s' = input s" "content (dev s') = ?c \<or> st \<noteq> 0 \<and> content (dev s') = content (dev s)"
    using rw_write [OF dv run] by (auto simp: commit_sector_unat)
  have lt: "unat slot < 2 ^ 32" by (rule unat_u32_less)
  have "store_rel ?c L" using store_rel_spare_slot [of "content (dev s)" "data s" L "unat slot"] ld k lt
    by (simp add: loaded_def)
  with w(2) loaded_store_rel [OF ld] show "store_rel (content (dev s')) L" by metis
  show same: "content (dev s') 1600 = content (dev s) 1600"
    using w(2) super_at_upd [OF lt, of "content (dev s)" "sector_of r"] by metis
  then show "formatted (content (dev s'))" using loaded_formatted [OF ld] by (simp add: formatted_def)
  show "input s' = input s" "st = 0 \<Longrightarrow> content (dev s') = ?c" using w by blast+
qed

lemma commit_stage:
  assumes ld1: "loaded content L s1" and ld3: "loaded content L s3" and n: "sup_next (data s1) < 255"
    and ns: "ns < 8" and v: "length v < 448"
    and c: "content (dev s3) = (content (dev s1))(1601 + of_nat (sup_next (data s1)) :=
      sector_of (commit_record (data s1) ns from intent derived cls v base))"
    and win: "sector_of (data s3) = sector_of (data s1)"
  shows "live_rel (content (dev s3))
    (put_u32 (36 + ns * 32) (get_u32 (data s1) (36 + ns * 32) + 1)
      (put_u32 (32 + ns * 32) (get_u32 (data s1) 8) (put_u32 8 (get_u32 (data s1) 8 + 1) (data s3))))
    (ledger_commit ns v (ucast from) intent derived cls L)"
proof -
  have live1: "live_rel (content (dev s1)) (data s1) L" and live3: "live_rel (content (dev s3)) (data s3) L"
    using ld1 ld3 by (simp_all add: loaded_def)
  have same: "get_u32 (data s3) off = get_u32 (data s1) off" if "off + 4 \<le> 512" for off
    using get_u32_sector_of [OF that, of "data s3"] get_u32_sector_of [OF that, of "data s1"] win by simp
  have next3: "sup_next (data s3) = sup_next (data s1)" by (simp add: sup_next_def same)
  have at: "commit_at (content (dev s3)) (sup_next (data s1)) =
      sector_of (commit_record (data s1) ns from intent derived cls v base)"
    using n by (simp add: c commit_at_upd)
  note rec = commit_record_ok [OF live1 n ns v, of "from" intent derived cls base]
  have "live_rel (content (dev s3))
    (put_u32 (36 + ns * 32) (get_u32 (data s1) (36 + ns * 32) + 1)
      (put_u32 (32 + ns * 32) (get_u32 (data s1) 8) (put_u32 8 (get_u32 (data s1) 8 + 1) (data s3))))
    (ledger_push ns (effect_of (commit_at (content (dev s3)) (sup_next (data s3)))) L)"
  proof (rule stage_push [OF live3 _ ns])
    show "parent_at (content (dev s3)) (sup_next (data s3)) = sup_head (data s3) ns"
      unfolding next3 parent_at_def at rec(2) using ns by (simp add: sup_head_def same)
  qed (use n ns rec(1) in \<open>simp_all add: next3 at\<close>, simp_all add: sup_next_def sup_count_def same)
  then show ?thesis by (simp add: next3 at rec(3) ledger_commit_def)
qed

lemma cairn_commit_spec:
  assumes dv: "block_device dv content" and rel: "store_rel (content (dev s)) L" and ns: "ns < 8"
    and run: "cairn_commit dv ns len from intent derived cls s = (st, s')"
  shows "st = IPC_STATUS_IO_FAILURE \<and> store_rel (content (dev s')) L \<or>
    st \<in> {IPC_STATUS_OK, IPC_STATUS_IO_FAILURE} \<and> length (log L) < LOG_CAPACITY \<and>
    store_rel (content (dev s'))
      (ledger_commit ns (mem_read (input s) 0 (min len 447)) (ucast from) intent derived cls L)"
proof -
  let ?v = "mem_read (input s) 0 (min len 447)"
  obtain ok1 s1 where l1: "cairn_load_super dv s = (ok1, s1)" by fastforce
  let ?m = "data s1" and ?nxt = "get_u32 (data s1) 8"
  let ?r = "commit_record ?m ns from intent derived cls ?v (data (zero_data s1))"
  obtain st2 s2 where w2: "rw dv (commit_sector ?nxt) True (s1\<lparr> data := ?r \<rparr>) = (st2, s2)" by fastforce
  obtain ok3 s3 where l3: "cairn_load_super dv s2 = (ok3, s3)" by fastforce
  let ?m' = "put_u32 (36 + ns * 32) (get_u32 ?m (36 + ns * 32) + 1)
      (put_u32 (32 + ns * 32) ?nxt (put_u32 8 (?nxt + 1) (data s3)))"
  obtain st4 s4 where w4: "rw dv 1600 True (s3\<lparr> data := ?m' \<rparr>) = (st4, s4)" by fastforce
  have in1: "input s1 = input s" using load_super_spec [OF dv rel l1] by simp
  have zd: "(zero_data s1)\<lparr> data := x \<rparr> = s1\<lparr> data := x \<rparr>" for x by (simp add: zero_data_def)
  have result: "(st, s') = (if \<not> ok1 then (IPC_STATUS_IO_FAILURE, s1)
    else if ?nxt \<ge> COMMIT_SLOTS then (IPC_STATUS_IO_FAILURE, s1)
    else if st2 \<noteq> 0 then (IPC_STATUS_IO_FAILURE, s2)
    else if \<not> ok3 then (IPC_STATUS_IO_FAILURE, s3)
    else if st4 \<noteq> 0 then (IPC_STATUS_IO_FAILURE, s4) else (IPC_STATUS_OK, s4))"
    unfolding run [symmetric] cairn_commit_def
    by (simp add: l1 l3 w2 [unfolded commit_record_def length_mem_read] w4 in1 zd Let_def
        d_read_u32_def d_write_u32_def cairn_consts cong: if_cong)
  show ?thesis
  proof (cases "ok1 \<and> ?nxt < COMMIT_SLOTS")
    case False
    then show ?thesis using result load_super_spec [OF dv rel l1] by (auto split: if_splits)
  next
    case True
    then have ld1: "loaded content L s1" and room: "?nxt < COMMIT_SLOTS" and n: "sup_next ?m < 255"
      using load_super_spec [OF dv rel l1]
      by (auto simp: sup_next_def COMMIT_SLOTS_def word_less_nat_alt)
    have live: "live_rel (content (dev s1)) ?m L" using ld1 by (simp add: loaded_def)
    have log: "length (log L) < LOG_CAPACITY" using live_rel_bounds(1) [OF live] n by (simp add: LOG_CAPACITY_def)
    have le: "sup_next ?m \<le> unat ?nxt" by (simp add: sup_next_def)
    note slot = loaded_write_slot [OF dv ld1 le w2]
    note l3' = loaded_again [OF dv slot(1) slot(3) l3]
    show ?thesis
    proof (cases "st2 = 0 \<and> ok3")
      case False
      then show ?thesis using result True slot(1) l3'(1) by (auto split: if_splits)
    next
      case ok: True
      then have c: "content (dev s3) = (content (dev s1))(1601 + of_nat (sup_next ?m) := sector_of ?r)"
        unfolding l3'(2) sup_next_def by (intro slot(5)) simp
      have ld3: "loaded content L s3" using l3'(4) ok by simp
      have win: "sector_of (data s3) = sector_of ?m"
        using ld1 ld3 slot(4) l3'(2) by (simp add: loaded_def)
      have pushed: "live_rel (content (dev s3)) ?m' (ledger_commit ns ?v (ucast from) intent derived cls L)"
        using commit_stage [OF ld1 ld3 n ns _ c win] by simp
      show ?thesis
        using super_write [OF dv, of "s3\<lparr> data := ?m' \<rparr>" L _ st4 s4] loaded_store_rel [OF ld3] pushed w4 result True ok log
        by (auto split: if_splits)
    qed
  qed
qed

section \<open>Walking the chain\<close>

definition log_ok :: "(u64 \<Rightarrow> mem) \<Rightarrow> nat \<Rightarrow> bool" where
  "log_ok c n \<longleftrightarrow> n \<le> 255 \<and> (\<forall>k < n. commit_ok (commit_at c k) k)"

definition slot_in :: "nat \<Rightarrow> u32 \<Rightarrow> bool" where
  "slot_in n w \<longleftrightarrow> (\<forall>k. slot_opt w = Some k \<longrightarrow> k < n)"

definition walk :: "(u64 \<Rightarrow> mem) \<Rightarrow> u32 \<Rightarrow> nat list" where
  "walk c w = chain_opt (parent_at c) (slot_opt w)"

lemma live_log_ok: "live_rel c m L \<Longrightarrow> log_ok c (sup_next m)"
  by (simp add: live_rel_def log_ok_def)

lemma slot_opt_Some [simp]: "slot_opt w = Some k \<longleftrightarrow> w \<noteq> NONE \<and> unat w = k"
  by (auto simp: slot_opt_def)

lemma slot_opt_None [simp]: "slot_opt w = None \<longleftrightarrow> w = NONE"
  by (simp add: slot_opt_def)

lemma walk_NONE [simp]: "walk c NONE = []"
  by (simp add: walk_def slot_opt_def chain_opt_def)

lemma walk_step:
  assumes "log_ok c n" and "slot_in n w" and "w \<noteq> NONE"
  shows "walk c w = unat w # walk c (get_u32 (commit_at c (unat w)) 8)"
    and "slot_in n (get_u32 (commit_at c (unat w)) 8)"
    and "commit_ok (commit_at c (unat w)) (unat w)" and "unat w < n"
proof -
  have lt: "unat w < n" using assms by (simp add: slot_in_def)
  with assms(1) have ok: "commit_ok (commit_at c (unat w)) (unat w)" by (simp add: log_ok_def)
  then have par: "parent_at c (unat w) = Some q \<Longrightarrow> q < unat w" for q
    by (simp add: commit_ok_def parent_at_def)
  show "walk c w = unat w # walk c (get_u32 (commit_at c (unat w)) 8)"
    using chain_Cons [of "parent_at c" "unat w"] par assms(3)
    by (simp add: walk_def chain_opt_def slot_opt_def [of w] parent_at_def)
  show "slot_in n (get_u32 (commit_at c (unat w)) 8)"
    using ok lt by (auto simp: slot_in_def commit_ok_def)
qed (use assms in \<open>auto simp: log_ok_def slot_in_def\<close>)

lemma live_walk:
  assumes "live_rel c m L" and "ns < 8"
  shows "stack L ns = map (\<lambda>k. effect_of (commit_at c k)) (walk c (get_u32 m (32 + ns * 32)))"
    and "slot_in (sup_next m) (get_u32 m (32 + ns * 32))"
    and "unat (get_u32 m (36 + ns * 32)) = length (walk c (get_u32 m (32 + ns * 32)))"
  using assms by (auto simp: live_rel_def ns_rel_def sup_defs walk_def slot_in_def)

text \<open>One read of a commit in use.\<close>

lemma read_commit:
  assumes dv: "block_device dv content" and ok: "log_ok (content (dev s)) n" and w: "slot_in n w" "w \<noteq> NONE"
    and run: "rw dv (commit_sector w) False s = (st, s')"
  shows "content (dev s') = content (dev s)" and "input s' = input s"
    and "st = 0 \<Longrightarrow> sector_of (data s') = commit_at (content (dev s)) (unat w)"
    and "st = 0 \<Longrightarrow> data_starts_with MAGIC s'"
    and "st = 0 \<Longrightarrow> off + 4 \<le> 512 \<Longrightarrow> get_u32 (data s') off = get_u32 (commit_at (content (dev s)) (unat w)) off"
    and "st = 0 \<Longrightarrow> i < 512 \<Longrightarrow> data s' i = commit_at (content (dev s)) (unat w) i"
    and "st = 0 \<Longrightarrow> effect_of (data s') = effect_of (commit_at (content (dev s)) (unat w))"
proof -
  note r = rw_read [OF dv run]
  note step = walk_step [OF ok w]
  show c: "content (dev s') = content (dev s)" "input s' = input s" using r by simp_all
  show sec: "st = 0 \<Longrightarrow> sector_of (data s') = commit_at (content (dev s)) (unat w)"
    using r by (simp add: commit_at_def commit_sector_unat)
  show "st = 0 \<Longrightarrow> data_starts_with MAGIC s'"
    using starts_with_MAGIC [OF sec] step(3) by (simp add: commit_ok_def)
  show get: "st = 0 \<Longrightarrow> off + 4 \<le> 512 \<Longrightarrow> get_u32 (data s') off = get_u32 (commit_at (content (dev s)) (unat w)) off" for off
    using get_u32_sector_of [of off "data s'"] sec by simp
  show "st = 0 \<Longrightarrow> i < 512 \<Longrightarrow> data s' i = commit_at (content (dev s)) (unat w) i"
    using fun_cong [OF sec, of i] by (simp add: sector_of_def)
  show "st = 0 \<Longrightarrow> effect_of (data s') = effect_of (commit_at (content (dev s)) (unat w))"
    using effect_of_sector [of "data s'"] sec get [of 32] step(3) by (simp add: commit_ok_def)
qed

lemma rollback_walk_spec:
  assumes "block_device dv content" and "log_ok (content (dev s)) n" and "slot_in n cur"
    and "rollback_walk dv steps cur s = (r, s')"
  shows "content (dev s') = content (dev s) \<and> input s' = input s \<and>
    (\<forall>cur' walked. r = Some (cur', walked) \<longrightarrow> slot_in n cur' \<and>
       walk (content (dev s)) cur' = drop steps (walk (content (dev s)) cur) \<and>
       walked = min steps (length (walk (content (dev s)) cur)))"
  using assms
proof (induction steps arbitrary: cur s r s')
  case (Suc steps)
  show ?case
  proof (cases "cur = NONE")
    case False
    obtain st s1 where r1: "rw dv (commit_sector cur) False s = (st, s1)" by fastforce
    obtain r2 s2 where r2: "rollback_walk dv steps (d_read_u32 8 s1) s1 = (r2, s2)" by fastforce
    note rd = read_commit [OF Suc.prems(1-3) False r1] and stp = walk_step [OF Suc.prems(2,3) False]
    have run: "(r, s') = (if st \<noteq> 0 then (None, s1)
        else (map_option (\<lambda>(slot, walked). (slot, walked + 1)) r2, s2))"
      using Suc.prems(4) False r1 r2 rd(4) by (auto split: if_splits)
    show ?thesis
    proof (cases "st = 0")
      case True
      then have "d_read_u32 8 s1 = get_u32 (commit_at (content (dev s)) (unat cur)) 8"
        using rd(5) by (simp add: d_read_u32_def)
      with Suc.IH [OF Suc.prems(1) _ _ r2] Suc.prems(2) rd(1,2) stp run True show ?thesis by (auto simp: min_def)
    qed (use run rd in auto)
  qed (use Suc.prems in auto)
qed auto

lemma live_rel_set_head:
  assumes live: "live_rel c m L" and ns: "ns < 8" and w: "slot_in (sup_next m) w"
    and cnt: "unat cnt = length (walk c w)"
  shows "live_rel c (put_u32 (36 + ns * 32) cnt (put_u32 (32 + ns * 32) w m))
    (L\<lparr> stack := (stack L)(ns := map (\<lambda>k. effect_of (commit_at c k)) (walk c w)) \<rparr>)"
  using assms by (auto simp: live_rel_def ns_rel_def slot_in_def walk_def)

lemma unat_sat_sub:
  assumes "unat c = l" and "w \<le> l"
  shows "unat (sat_sub c (of_nat w)) = l - w"
proof -
  have "w < 2 ^ 32" using assms unat_u32_less [of c] by simp
  then have w: "unat (of_nat w :: u32) = w" by (simp add: unat_of_nat_small)
  with assms have "of_nat w \<le> c" by (simp add: word_le_nat_alt)
  with assms w show ?thesis by (simp add: sat_sub_def unat_sub)
qed

lemma cairn_rollback_spec:
  assumes dv: "block_device dv content" and rel: "store_rel (content (dev s)) L" and ns: "ns < 8"
    and run: "cairn_rollback dv ns steps s = (st, s')"
  shows "st = IPC_STATUS_UNAVAILABLE \<and> stack L ns = [] \<and> store_rel (content (dev s')) L \<or>
    st = IPC_STATUS_IO_FAILURE \<and> store_rel (content (dev s')) L \<or>
    st \<in> {IPC_STATUS_OK, IPC_STATUS_IO_FAILURE} \<and> store_rel (content (dev s')) (ledger_rollback ns steps L)"
proof -
  obtain ok1 s1 where l1: "cairn_load_super dv s = (ok1, s1)" by fastforce
  let ?head = "get_u32 (data s1) (32 + ns * 32)" and ?count = "get_u32 (data s1) (36 + ns * 32)"
  obtain r s2 where w2: "rollback_walk dv steps ?head s1 = (r, s2)" by fastforce
  obtain ok3 s3 where l3: "cairn_load_super dv s2 = (ok3, s3)" by fastforce
  note f1 = load_super_spec [OF dv rel l1]
  show ?thesis
  proof (cases "ok1 \<and> ?head \<noteq> NONE \<and> r \<noteq> None \<and> ok3")
    case False
    have "ok1 \<Longrightarrow> loaded content L s1" using f1 by simp
    then have "ok1 \<Longrightarrow> ?head = NONE \<Longrightarrow> stack L ns = []"
      using live_walk(1) [of "content (dev s1)" "data s1" L ns] ns by (simp add: loaded_def)
    moreover have "ok1 \<Longrightarrow> content (dev s2) = content (dev s1) \<and> formatted (content (dev s1))"
      using f1 rollback_walk_spec [OF dv live_log_ok _ w2] live_walk(2) [of "content (dev s1)" "data s1" L ns] ns
        loaded_formatted [of content L s1] by (auto simp: loaded_def)
    moreover from this have "ok1 \<Longrightarrow> store_rel (content (dev s3)) L"
      using f1 loaded_again(1) [OF dv _ _ l3] by auto
    ultimately show ?thesis
      using False run f1 l1 w2 l3
      by (auto simp: cairn_rollback_def d_read_u32_def cairn_consts Let_def split: if_splits option.splits prod.splits)
  next
    case True
    then obtain cur walked where r: "r = Some (cur, walked)" by auto
    have live: "live_rel (content (dev s1)) (data s1) L" using f1 True by (simp add: loaded_def)
    have wk: "content (dev s2) = content (dev s1)" "slot_in (sup_next (data s1)) cur"
      "walk (content (dev s1)) cur = drop steps (walk (content (dev s1)) ?head)"
      "walked = min steps (length (walk (content (dev s1)) ?head))"
      using rollback_walk_spec [OF dv live_log_ok [OF live] live_walk(2) [OF live ns] w2] r by auto
    have rel2: "store_rel (content (dev s2)) L" and fmt2: "formatted (content (dev s2))"
      using f1 True wk(1) loaded_formatted [of content L s1] by auto
    note l3' = loaded_again [OF dv rel2 fmt2 l3]
    have ld3: "live_rel (content (dev s3)) (data s3) L" and c3: "content (dev s3) = content (dev s1)"
      and win: "sector_of (data s3) = sector_of (data s1)"
      using l3' wk(1) f1 True by (simp_all add: loaded_def)
    have same: "sup_next (data s3) = sup_next (data s1)" using sup_sector_of(1) win by metis
    have "unat (sat_sub ?count (of_nat walked)) = length (walk (content (dev s1)) cur)"
      using unat_sat_sub [of ?count _ walked] live_walk(3) [OF live ns] wk(3,4) by simp
    then have new: "live_rel (content (dev s3)) (put_u32 (36 + ns * 32) (sat_sub ?count (of_nat walked))
        (put_u32 (32 + ns * 32) cur (data s3))) (ledger_rollback ns steps L)"
      using live_rel_set_head [OF ld3 ns, of cur] wk(2,3) live_walk(1) [OF live ns] same c3
      by (simp add: ledger_rollback_def drop_map)
    obtain st4 s4 where w4: "rw dv 1600 True (s3\<lparr> data := put_u32 (36 + ns * 32) (sat_sub ?count (of_nat walked))
        (put_u32 (32 + ns * 32) cur (data s3)) \<rparr>) = (st4, s4)" by fastforce
    have "(st, s') = (if st4 \<noteq> 0 then IPC_STATUS_IO_FAILURE else IPC_STATUS_OK, s4)"
      unfolding run [symmetric] using True r
      by (simp add: cairn_rollback_def l1 w2 l3 w4 Let_def d_read_u32_def d_write_u32_def cairn_consts)
    then show ?thesis
      using super_write [OF dv _ _ w4, of L "ledger_rollback ns steps L"] new l3'(1) by auto
  qed
qed

section \<open>Revocation\<close>

lemma cairn_ns_set_revoked_spec:
  assumes dv: "block_device dv content" and rel: "store_rel (content (dev s)) L"
    and run: "cairn_ns_set_revoked dv ns b s = (st, s')"
  shows "ns \<ge> 8 \<and> st = IPC_STATUS_BAD_REQUEST \<and> s' = s \<or>
    ns < 8 \<and> st = IPC_STATUS_IO_FAILURE \<and> store_rel (content (dev s')) L \<or>
    ns < 8 \<and> st \<in> {IPC_STATUS_OK, IPC_STATUS_IO_FAILURE} \<and> store_rel (content (dev s')) (ledger_cut ns b L)"
proof -
  obtain ok1 s1 where l1: "cairn_load_super dv s = (ok1, s1)" by fastforce
  let ?m = "put_u32 (40 + ns * 32) (if b then 1 else 0) (data s1)"
  obtain st2 s2 where w2: "rw dv 1600 True (s1\<lparr> data := ?m \<rparr>) = (st2, s2)" by fastforce
  note f1 = load_super_spec [OF dv rel l1]
  have result: "(st, s') = (if 8 \<le> ns then (IPC_STATUS_BAD_REQUEST, s)
      else if \<not> ok1 then (IPC_STATUS_IO_FAILURE, s1)
      else (if st2 \<noteq> 0 then IPC_STATUS_IO_FAILURE else IPC_STATUS_OK, s2))"
    unfolding run [symmetric]
    by (simp add: cairn_ns_set_revoked_def l1 w2 Let_def d_write_u32_def cairn_consts)
  have "live_rel (content (dev s1)) ?m (ledger_cut ns b L)" if "ns < 8" ok1
    using f1 that by (auto simp: loaded_def live_rel_def ns_rel_def ledger_cut_def)
  then show ?thesis
    using result f1 super_write [OF dv _ _ w2, of L "ledger_cut ns b L"] by (auto split: if_splits)
qed

lemma cairn_ns_revoked_spec:
  assumes dv: "block_device dv content" and rel: "store_rel (content (dev s)) L"
    and run: "cairn_ns_revoked dv ns s = (b, s')"
  shows "store_rel (content (dev s')) L \<and> input s' = input s \<and>
    b = (fst (cairn_load_super dv s) \<and> cut_off L ns)"
proof -
  obtain ok1 s1 where l1: "cairn_load_super dv s = (ok1, s1)" by fastforce
  note f1 = load_super_spec [OF dv rel l1]
  have "ok1 \<Longrightarrow> cut_off L ns = (ns < 8 \<and> get_u32 (data s1) (40 + ns * 32) \<noteq> 0)"
    using f1 by (cases "ns < 8") (auto simp: loaded_def live_rel_def ns_rel_def sup_cut_def)
  then show ?thesis
    using run l1 f1 by (auto simp: cairn_ns_revoked_def d_read_u32_def cairn_consts split: if_splits)
qed

section \<open>Reading\<close>

lemma cairn_load_head_spec:
  assumes dv: "block_device dv content" and rel: "store_rel (content (dev s)) L" and ns: "ns < 8"
    and run: "cairn_load_head dv ns s = (r, s')"
  shows "store_rel (content (dev s')) L" and "r = Some NONE \<Longrightarrow> stack L ns = []"
    and "r = Some w \<Longrightarrow> w \<noteq> NONE \<Longrightarrow> \<exists>es. stack L ns = effect_of (data s') # es \<and>
      unat (get_u32 (data s') 32) < 448"
proof -
  obtain ok1 s1 where l1: "cairn_load_super dv s = (ok1, s1)" by fastforce
  let ?head = "get_u32 (data s1) (32 + ns * 32)"
  obtain st2 s2 where r2: "rw dv (commit_sector ?head) False s1 = (st2, s2)" by fastforce
  note f1 = load_super_spec [OF dv rel l1] and f2 = rw_read [OF dv r2]
  have live: "ok1 \<Longrightarrow> live_rel (content (dev s1)) (data s1) L" using f1 by (simp add: loaded_def)
  have result: "(r, s') = (if \<not> ok1 then (None, s1) else if ?head = NONE then (Some NONE, s1)
      else if st2 \<noteq> 0 \<or> \<not> data_starts_with MAGIC s2 then (None, s2) else (Some ?head, s2))"
    unfolding run [symmetric]
    by (simp add: cairn_load_head_def l1 r2 Let_def d_read_u32_def cairn_consts cong: if_cong)
  show "store_rel (content (dev s')) L" using result f1 f2 by (auto split: if_splits)
  show "r = Some NONE \<Longrightarrow> stack L ns = []"
    using result live_walk(1) [OF live ns] by (auto split: if_splits)
  assume "r = Some w" "w \<noteq> NONE"
  with result have ok: "ok1" and head: "?head \<noteq> NONE" and st: "st2 = 0" and s': "s' = s2"
    by (auto split: if_splits)
  note lw = live_walk [OF live [OF ok] ns] and log = live_log_ok [OF live [OF ok]]
  note rd = read_commit [OF dv log lw(2) head r2] and stp = walk_step [OF log lw(2) head]
  show "\<exists>es. stack L ns = effect_of (data s') # es \<and> unat (get_u32 (data s') 32) < 448"
    using lw(1) stp(1,3) rd(5) [OF st, of 32] rd(7) [OF st] by (simp add: s' commit_ok_def)
qed

lemma cairn_get_spec:
  assumes dv: "block_device dv content" and rel: "store_rel (content (dev s)) L" and ns: "ns < 8"
    and run: "cairn_get dv ns s = (st, s')"
  shows "store_rel (content (dev s')) L \<and>
    (st = IPC_STATUS_IO_FAILURE \<or> st = IPC_STATUS_UNAVAILABLE \<and> stack L ns = [] \<or>
     st = IPC_STATUS_OK \<and> (\<exists>e es. stack L ns = e # es \<and>
       mem_read (data s') 0 512 = e_value e @ replicate (512 - length (e_value e)) 0))"
proof -
  obtain r s1 where l1: "cairn_load_head dv ns s = (r, s1)" by fastforce
  note f1 = cairn_load_head_spec [OF dv rel ns l1]
  show ?thesis
  proof (cases "r = None \<or> r = Some NONE")
    case True
    then show ?thesis
      using run f1(1,2) l1 by (auto simp: cairn_get_def split: if_splits)
  next
    case False
    then obtain w where w: "r = Some w" "w \<noteq> NONE" by auto
    from f1(3) [OF w] obtain es where es: "stack L ns = effect_of (data s1) # es"
      and len: "unat (get_u32 (data s1) 32) < 448" by auto
    have "mem_read (data s') 0 512 = e_value (effect_of (data s1)) @
        replicate (512 - length (e_value (effect_of (data s1)))) 0"
      using run w l1 len
      by (intro nth_equalityI)
        (auto simp: cairn_get_def Let_def d_read_u32_def effect_of_def SECTOR_SIZE_def VALUE_OFF_def nth_append)
    moreover have "st = IPC_STATUS_OK \<and> content (dev s') = content (dev s1)"
      using run w l1 by (auto simp: cairn_get_def Let_def)
    ultimately show ?thesis using es f1(1) by auto
  qed
qed

lemma cairn_verify_spec:
  assumes dv: "block_device dv content" and rel: "store_rel (content (dev s)) L" and ns: "ns < 8"
    and run: "cairn_verify dv ns s = (st, s')"
  shows "store_rel (content (dev s')) L \<and>
    (st = IPC_STATUS_IO_FAILURE \<or> st = IPC_STATUS_UNAVAILABLE \<and> stack L ns = [] \<or>
     st = IPC_STATUS_OK \<and> (\<exists>e es. stack L ns = e # es \<and> e_hash e = fnv64 (e_value e)))"
proof -
  obtain r s1 where l1: "cairn_load_head dv ns s = (r, s1)" by fastforce
  note f1 = cairn_load_head_spec [OF dv rel ns l1]
  show ?thesis
  proof (cases "r = None \<or> r = Some NONE")
    case True
    then show ?thesis
      using run f1(1,2) l1 by (auto simp: cairn_verify_def split: if_splits)
  next
    case False
    then obtain w where w: "r = Some w" "w \<noteq> NONE" by auto
    from f1(3) [OF w] obtain es where es: "stack L ns = effect_of (data s1) # es"
      and len: "unat (get_u32 (data s1) 32) < 448" by auto
    have "st = (if e_hash (effect_of (data s1)) = fnv64 (e_value (effect_of (data s1)))
        then IPC_STATUS_OK else IPC_STATUS_IO_FAILURE) \<and> s' = s1"
      using run w l1 len
      by (auto simp: cairn_verify_def Let_def d_read_u32_def d_read_u64_def effect_of_def cairn_consts min_def
          split: if_splits)
    then show ?thesis using es f1(1) by (auto split: if_splits)
  qed
qed

lemma sand_info_spec:
  assumes dv: "block_device dv content" and rel: "store_rel (content (dev s)) L" and ns: "ns < 8"
    and run: "sand_info dv ns s = (st, s')"
  shows "store_rel (content (dev s')) L"
  using cairn_load_head_spec(1) [OF dv rel ns] run
  by (auto simp: sand_info_def split: prod.splits option.splits if_splits)

lemma log_walk_spec:
  assumes "block_device dv content" and "log_ok (content (dev s)) n" and "slot_in n cur"
    and "log_walk dv steps cur s = (r, s')"
  shows "content (dev s') = content (dev s) \<and>
    (\<forall>slots. r = Some slots \<longrightarrow> map unat slots = take steps (walk (content (dev s)) cur))"
  using assms
proof (induction steps arbitrary: cur s r s')
  case (Suc steps)
  show ?case
  proof (cases "cur = NONE")
    case False
    obtain st s1 where r1: "rw dv (commit_sector cur) False s = (st, s1)" by fastforce
    obtain r2 s2 where r2: "log_walk dv steps (d_read_u32 8 s1) s1 = (r2, s2)" by fastforce
    note rd = read_commit [OF Suc.prems(1-3) False r1] and stp = walk_step [OF Suc.prems(2,3) False]
    have run: "(r, s') = (if st \<noteq> 0 then (None, s1) else (map_option (\<lambda>slots. cur # slots) r2, s2))"
      using Suc.prems(4) False r1 r2 rd(4) by (auto split: if_splits)
    show ?thesis
    proof (cases "st = 0")
      case True
      then have "d_read_u32 8 s1 = get_u32 (commit_at (content (dev s)) (unat cur)) 8"
        using rd(5) by (simp add: d_read_u32_def)
      with Suc.IH [OF Suc.prems(1) _ _ r2] Suc.prems(2) rd(1,2) stp run True show ?thesis by auto
    qed (use run rd in auto)
  qed (use Suc.prems in auto)
qed auto

lemma cairn_log_spec:
  assumes dv: "block_device dv content" and rel: "store_rel (content (dev s)) L" and ns: "ns < 8"
    and run: "cairn_log dv ns s = ((st, slots), s')"
  shows "store_rel (content (dev s')) L \<and> (st = IPC_STATUS_IO_FAILURE \<or> st = IPC_STATUS_OK \<and>
    map (\<lambda>w. effect_of (commit_at (content (dev s')) (unat w))) slots = take 8 (stack L ns))"
proof -
  obtain ok1 s1 where l1: "cairn_load_super dv s = (ok1, s1)" by fastforce
  let ?head = "get_u32 (data s1) (32 + ns * 32)"
  obtain r s2 where w2: "log_walk dv 8 ?head s1 = (r, s2)" by fastforce
  note f1 = load_super_spec [OF dv rel l1]
  show ?thesis
  proof (cases ok1)
    case False
    then show ?thesis using run l1 f1 by (simp add: cairn_log_def)
  next
    case True
    then have live: "live_rel (content (dev s1)) (data s1) L" using f1 by (simp add: loaded_def)
    note lw = live_walk [OF live ns]
    note wk = log_walk_spec [OF dv live_log_ok [OF live] lw(2) w2]
    have "map (\<lambda>w. effect_of (commit_at c (unat w))) ws = map (\<lambda>k. effect_of (commit_at c k)) (map unat ws)"
      for ws :: "u32 list" and c by simp
    with wk lw(1) run l1 w2 True f1 show ?thesis
      by (auto simp: cairn_log_def d_read_u32_def cairn_consts Let_def take_map simp del: map_map
          split: if_splits option.splits)
  qed
qed

lemma sand_log_is_cairn_log: "sand_log = cairn_log"
  by (simp add: fun_eq_iff sand_log_def cairn_log_def)

section \<open>Answers of a reliable device\<close>

lemma reliable_load_super: "reliable dv \<Longrightarrow> cairn_load_super dv s = (ok, s') \<Longrightarrow> ok"
  by (auto simp: cairn_load_super_def Let_def split: prod.splits if_splits dest: reliable_rw)

lemma reliable_loaded:
  assumes "reliable dv" and "block_device dv content" and "store_rel (content (dev s)) L"
  obtains s1 where "cairn_load_super dv s = (True, s1)" and "loaded content L s1" and "input s1 = input s"
proof -
  obtain ok s1 where l: "cairn_load_super dv s = (ok, s1)" by fastforce
  with reliable_load_super [OF assms(1) l] load_super_spec [OF assms(2,3) l] that show thesis by simp
qed

lemma loaded_next:
  assumes "loaded content L s"
  shows "unat (d_read_u32 8 s) = length (log L)" and "ns < 8 \<Longrightarrow> d_read_u32 (32 + ns * 32) s = NONE \<longleftrightarrow> stack L ns = []"
proof -
  have live: "live_rel (content (dev s)) (data s) L" using assms by (simp add: loaded_def)
  show "unat (d_read_u32 8 s) = length (log L)"
    using live_rel_bounds(1) [OF live] by (simp add: sup_next_def d_read_u32_def)
  show "d_read_u32 (32 + ns * 32) s = NONE \<longleftrightarrow> stack L ns = []" if "ns < 8"
    using live_walk [OF live that] walk_step(1) [OF live_log_ok [OF live] live_walk(2) [OF live that]]
    by (cases "get_u32 (data s) (32 + ns * 32) = NONE") (simp_all add: d_read_u32_def)
qed

lemma cairn_commit_reliable:
  assumes rel: "reliable dv" and dv: "block_device dv content" and L: "store_rel (content (dev s)) L"
    and run: "cairn_commit dv ns len from intent derived cls s = (st, s')"
  shows "st = (if length (log L) < LOG_CAPACITY then IPC_STATUS_OK else IPC_STATUS_IO_FAILURE)"
proof -
  obtain s1 where l1: "cairn_load_super dv s = (True, s1)" and ld: "loaded content L s1"
    using reliable_loaded [OF rel dv L] by blast
  have "d_read_u32 8 s1 \<ge> COMMIT_SLOTS \<longleftrightarrow> \<not> length (log L) < LOG_CAPACITY"
    using loaded_next(1) [OF ld] by (simp add: COMMIT_SLOTS_def LOG_CAPACITY_def word_le_nat_alt not_less)
  then show ?thesis
    using run by (auto simp: cairn_commit_def l1 Let_def split: prod.splits if_splits
        dest: reliable_rw [OF rel] reliable_load_super [OF rel])
qed

lemma cairn_ns_set_revoked_reliable:
  assumes rel: "reliable dv" and "ns < 8" and run: "cairn_ns_set_revoked dv ns b s = (st, s')"
  shows "st = IPC_STATUS_OK"
  using assms by (auto simp: cairn_ns_set_revoked_def cairn_consts Let_def split: prod.splits if_splits
      dest: reliable_rw [OF rel] reliable_load_super [OF rel])

lemma rollback_walk_reliable:
  assumes "reliable dv" and "block_device dv content" and "log_ok (content (dev s)) n" and "slot_in n cur"
    and "rollback_walk dv steps cur s = (r, s')"
  shows "r \<noteq> None"
  using assms(3-)
proof (induction steps arbitrary: cur s r s')
  case (Suc steps)
  show ?case
  proof (cases "cur = NONE")
    case False
    obtain st s1 where r1: "rw dv (commit_sector cur) False s = (st, s1)" by fastforce
    obtain r2 s2 where r2: "rollback_walk dv steps (d_read_u32 8 s1) s1 = (r2, s2)" by fastforce
    note rd = read_commit [OF assms(2) Suc.prems(1,2) False r1] and stp = walk_step [OF Suc.prems(1,2) False]
    have st: "st = 0" using reliable_rw [OF assms(1) r1] .
    then have "r2 \<noteq> None"
      using Suc.IH [OF _ _ r2] rd(1) rd(5) [of 8] Suc.prems(1) stp(2) by (simp add: d_read_u32_def)
    with Suc.prems(3) False r1 r2 st rd(4) show ?thesis by auto
  qed (use Suc.prems in auto)
qed auto

lemma cairn_rollback_reliable:
  assumes rel: "reliable dv" and dv: "block_device dv content" and L: "store_rel (content (dev s)) L" and ns: "ns < 8"
    and run: "cairn_rollback dv ns steps s = (st, s')"
  shows "st = (if stack L ns = [] then IPC_STATUS_UNAVAILABLE else IPC_STATUS_OK)"
proof -
  obtain s1 where l1: "cairn_load_super dv s = (True, s1)" and ld: "loaded content L s1"
    using reliable_loaded [OF rel dv L] by blast
  have live: "live_rel (content (dev s1)) (data s1) L" using ld by (simp add: loaded_def)
  obtain r s2 where w: "rollback_walk dv steps (d_read_u32 (32 + ns * 32) s1) s1 = (r, s2)" by fastforce
  have "r \<noteq> None"
    using rollback_walk_reliable [OF rel dv live_log_ok [OF live] _ w] live_walk(2) [OF live ns] by (simp add: d_read_u32_def)
  then show ?thesis
    using run w loaded_next(2) [OF ld ns]
    by (auto simp: cairn_rollback_def l1 Let_def cairn_ns_entry_off_def split: prod.splits if_splits
        dest: reliable_rw [OF rel] reliable_load_super [OF rel])
qed

lemma cairn_load_head_reliable:
  assumes rel: "reliable dv" and dv: "block_device dv content" and L: "store_rel (content (dev s)) L" and ns: "ns < 8"
    and run: "cairn_load_head dv ns s = (r, s')"
  shows "\<exists>w. r = Some w \<and> (w = NONE \<longleftrightarrow> stack L ns = [])"
proof -
  obtain s1 where l1: "cairn_load_super dv s = (True, s1)" and ld: "loaded content L s1"
    using reliable_loaded [OF rel dv L] by blast
  have live: "live_rel (content (dev s1)) (data s1) L" using ld by (simp add: loaded_def)
  let ?w = "d_read_u32 (32 + ns * 32) s1"
  obtain st s2 where r2: "rw dv (commit_sector ?w) False s1 = (st, s2)" by fastforce
  have "?w \<noteq> NONE \<Longrightarrow> data_starts_with MAGIC s2"
    using read_commit(4) [OF dv live_log_ok [OF live] _ _ r2] live_walk(2) [OF live ns] reliable_rw [OF rel r2]
    by (simp add: d_read_u32_def)
  then show ?thesis
    using run r2 reliable_rw [OF rel r2] loaded_next(2) [OF ld ns]
    by (auto simp: cairn_load_head_def l1 Let_def cairn_ns_entry_off_def split: if_splits)
qed

lemma cairn_reads_reliable:
  assumes rel: "reliable dv" and dv: "block_device dv content" and L: "store_rel (content (dev s)) L" and ns: "ns < 8"
  shows "cairn_get dv ns s = (st, s') \<Longrightarrow> st = (if stack L ns = [] then IPC_STATUS_UNAVAILABLE else IPC_STATUS_OK)"
    and "sand_info dv ns s = (st, s') \<Longrightarrow> st = (if stack L ns = [] then IPC_STATUS_UNAVAILABLE else IPC_STATUS_OK)"
    and "cairn_verify dv ns s = (st, s') \<Longrightarrow> st = (case stack L ns of [] \<Rightarrow> IPC_STATUS_UNAVAILABLE
      | e # _ \<Rightarrow> if e_hash e = fnv64 (e_value e) then IPC_STATUS_OK else IPC_STATUS_IO_FAILURE)"
proof -
  obtain r s1 where l: "cairn_load_head dv ns s = (r, s1)" by fastforce
  obtain w where w: "r = Some w" "w = NONE \<longleftrightarrow> stack L ns = []"
    using cairn_load_head_reliable [OF rel dv L ns l] by blast
  show "cairn_get dv ns s = (st, s') \<Longrightarrow> st = (if stack L ns = [] then IPC_STATUS_UNAVAILABLE else IPC_STATUS_OK)"
    "sand_info dv ns s = (st, s') \<Longrightarrow> st = (if stack L ns = [] then IPC_STATUS_UNAVAILABLE else IPC_STATUS_OK)"
    using w by (auto simp: cairn_get_def sand_info_def l Let_def split: if_splits)
  show "st = (case stack L ns of [] \<Rightarrow> IPC_STATUS_UNAVAILABLE
      | e # _ \<Rightarrow> if e_hash e = fnv64 (e_value e) then IPC_STATUS_OK else IPC_STATUS_IO_FAILURE)"
    if "cairn_verify dv ns s = (st, s')"
  proof (cases "stack L ns")
    case (Cons e es)
    with w cairn_load_head_spec(3) [OF dv L ns l] have e: "e = effect_of (data s1)" "unat (get_u32 (data s1) 32) < 448" by auto
    with that w Cons show ?thesis
      by (auto simp: cairn_verify_def l Let_def effect_of_def d_read_u64_def d_read_u32_def cairn_consts split: if_splits)
  qed (use that w in \<open>auto simp: cairn_verify_def l\<close>)
qed

lemma log_walk_reliable:
  assumes "reliable dv" and "block_device dv content" and "log_ok (content (dev s)) n" and "slot_in n cur"
    and "log_walk dv steps cur s = (r, s')"
  shows "r \<noteq> None"
  using assms(3-)
proof (induction steps arbitrary: cur s r s')
  case (Suc steps)
  show ?case
  proof (cases "cur = NONE")
    case False
    obtain st s1 where r1: "rw dv (commit_sector cur) False s = (st, s1)" by fastforce
    obtain r2 s2 where r2: "log_walk dv steps (d_read_u32 8 s1) s1 = (r2, s2)" by fastforce
    note rd = read_commit [OF assms(2) Suc.prems(1,2) False r1] and stp = walk_step [OF Suc.prems(1,2) False]
    have st: "st = 0" using reliable_rw [OF assms(1) r1] .
    then have "r2 \<noteq> None"
      using Suc.IH [OF _ _ r2] rd(1) rd(5) [of 8] Suc.prems(1) stp(2) by (simp add: d_read_u32_def)
    with Suc.prems(3) False r1 r2 st rd(4) show ?thesis by (auto simp: Let_def)
  qed (use Suc.prems in auto)
qed auto

lemma cairn_log_reliable:
  assumes rel: "reliable dv" and dv: "block_device dv content" and L: "store_rel (content (dev s)) L" and ns: "ns < 8"
    and run: "cairn_log dv ns s = ((st, slots), s')"
  shows "st = IPC_STATUS_OK"
proof -
  obtain s1 where l1: "cairn_load_super dv s = (True, s1)" and ld: "loaded content L s1"
    using reliable_loaded [OF rel dv L] by blast
  have live: "live_rel (content (dev s1)) (data s1) L" using ld by (simp add: loaded_def)
  obtain r s2 where w: "log_walk dv 8 (d_read_u32 (32 + ns * 32) s1) s1 = (r, s2)" by fastforce
  have "r \<noteq> None"
    using log_walk_reliable [OF rel dv live_log_ok [OF live] _ w] live_walk(2) [OF live ns] by (simp add: d_read_u32_def)
  then show ?thesis
    using run w by (auto simp: cairn_log_def l1 Let_def cairn_ns_entry_off_def split: if_splits)
qed

section \<open>Witness disks and the round trip\<close>

lemma blank_rel: "c 1600 0 = 0 \<Longrightarrow> store_rel c empty_ledger"
  by (auto simp: store_rel_def formatted_def bytes_def mem_read_def upt_rec)

lemma blank_store: "store_rel (plain_content blank_disk) empty_ledger"
  by (rule blank_rel) (simp add: plain_content_def blank_disk_def sector_of_def)

definition faulty_disk :: ramdisk where
  "faulty_disk = \<lparr> rd_sectors = blank_disk, rd_faults = [False, True, False, True] \<rparr>"

lemma faulty_store: "store_rel (ramdisk_content faulty_disk) empty_ledger"
  by (rule blank_rel) (simp add: faulty_disk_def ramdisk_content_def blank_disk_def sector_of_def)

text \<open>
  C11. On a device whose transfers succeed and a log with room, a value committed to a namespace is
  what the next read of it returns, padded with zeroes to a sector; values longer than 447 bytes are
  cut there.
\<close>

theorem commit_then_get:
  assumes "reliable dv" and dv: "block_device dv content" and L: "store_rel (content (dev s)) L"
    and ns: "ns < 8" and room: "length (log L) < LOG_CAPACITY"
    and commit: "cairn_commit dv ns len from intent derived cls s = (st1, s1)" and get: "cairn_get dv ns s1 = (st2, s2)"
  shows "st1 = IPC_STATUS_OK \<and> st2 = IPC_STATUS_OK \<and>
    mem_read (data s2) 0 512 = mem_read (input s) 0 (min len 447) @ replicate (512 - min len 447) 0"
proof -
  let ?v = "mem_read (input s) 0 (min len 447)"
  let ?L = "ledger_commit ns ?v (ucast from) intent derived cls L"
  have st1: "st1 = IPC_STATUS_OK" using cairn_commit_reliable [OF assms(1) dv L commit] room by simp
  then have L1: "store_rel (content (dev s1)) ?L"
    using cairn_commit_spec [OF dv L ns commit] by (auto simp: status_defs)
  have top: "stack ?L ns = new_effect ns (ucast from) intent derived cls COMMITTED ?v (length (stack L ns)) # stack L ns"
    by (simp add: ledger_commit_def ledger_push_def)
  show ?thesis
    using st1 cairn_get_spec [OF dv L1 ns get] cairn_reads_reliable(1) [OF assms(1) dv L1 ns get]
    unfolding top by (auto simp: new_effect_def status_defs)
qed

theorem commit_then_get_witness:
  "\<exists>st1 s1 st2 s2. cairn_commit plain_disk_io 3 5 9 0 0 0 \<lparr> dev = blank_disk, data = (\<lambda>_. 0), input = (\<lambda>i. 65) \<rparr> = (st1, s1) \<and>
    cairn_get plain_disk_io 3 s1 = (st2, s2) \<and> st1 = IPC_STATUS_OK \<and> st2 = IPC_STATUS_OK \<and>
    mem_read (data s2) 0 512 = [65, 65, 65, 65, 65] @ replicate 507 0"
proof -
  let ?s = "\<lparr> dev = blank_disk, data = (\<lambda>_. 0), input = (\<lambda>i. 65) \<rparr>"
  obtain st1 s1 where c: "cairn_commit plain_disk_io 3 5 9 0 0 0 ?s = (st1, s1)" by fastforce
  obtain st2 s2 where g: "cairn_get plain_disk_io 3 s1 = (st2, s2)" by fastforce
  have "st1 = IPC_STATUS_OK \<and> st2 = IPC_STATUS_OK \<and>
      mem_read (data s2) 0 512 = mem_read (input ?s) 0 (min 5 447) @ replicate (512 - min 5 447) 0"
    by (rule commit_then_get [OF plain_disk_reliable plain_disk_block_device _ _ _ c g, of empty_ledger])
      (simp_all add: blank_store LOG_CAPACITY_def)
  moreover have "mem_read (input ?s) 0 (min 5 447) = [65, 65, 65, 65, 65]" by (simp add: mem_read_def upt_rec)
  ultimately show ?thesis using c g by auto
qed

end
