(* ===== verification/Sfar.thy ===== *)
theory Sfar
  imports Cairn_Store
begin

text \<open>
  Missions of the storage daemon (\<open>sfar_*\<close>, \<open>tbar\<close> and their helpers in
  \<open>dezh-boot/virtio-blk/src/main.rs\<close>): the scan for touched namespaces, mission authority, the
  forecast, the provenance graph and the rollback of a whole mission. The forecast and the
  graph return what they print as a tally. The rollback's inner loop has no bound in the
  source and is a partial function here; the lemmas show that it returns on every
  well-formed store and that the rollback is the specified one.
\<close>

unbundle bit_operations_syntax

section \<open>Scanning and authority\<close>

definition SAND_COMP_SEP :: u8 where "SAND_COMP_SEP = 0x1f"

text \<open>The search for the separator and the copy of the action behind it, one byte of the window at a time.\<close>

function comp_find :: "mem \<Rightarrow> nat \<Rightarrow> nat \<Rightarrow> nat option" where
  "comp_find p vlen i =
     (if i < vlen then
        if p (VALUE_OFF + i) = SAND_COMP_SEP then Some i else comp_find p vlen (i + 1)
      else None)"
  by pat_completeness auto
termination by (relation "measure (\<lambda>(p, vlen, i). vlen - i)") auto

function comp_copy :: "mem \<Rightarrow> nat \<Rightarrow> nat \<Rightarrow> nat \<Rightarrow> u8 list \<Rightarrow> u8 list" where
  "comp_copy p vlen room j out =
     (if j < vlen \<and> length out < room then
        if p (VALUE_OFF + j) = 0 then out else comp_copy p vlen room (j + 1) (out @ [p (VALUE_OFF + j)])
      else out)"
  by pat_completeness auto
termination by (relation "measure (\<lambda>(p, vlen, room, j, out). vlen - j)") auto

declare comp_find.simps [simp del] comp_copy.simps [simp del]

text \<open>\<open>room\<close> is the length of the caller's buffer, whose filled part is returned.\<close>

definition extract_compensation :: "nat \<Rightarrow> 'd blk \<Rightarrow> u8 list option" where
  "extract_compensation room s =
     (let vlen = min (unat (d_read_u32 32 s)) CAIRN1_VALUE_MAX in
      case comp_find (data s) vlen 0 of
        None \<Rightarrow> None
      | Some sep \<Rightarrow>
          let out = comp_copy (data s) vlen room (sep + 1) [] in
          if length out = 0 then None else Some out)"

lemma comp_find_window:
  "dropWhile (\<lambda>b. b \<noteq> 0x1f) (map (\<lambda>k. p (VALUE_OFF + k)) [i..<vlen]) =
     (case comp_find p vlen i of None \<Rightarrow> [] | Some k \<Rightarrow> 0x1f # map (\<lambda>k. p (VALUE_OFF + k)) [k + 1..<vlen])"
proof (induction p vlen i rule: comp_find.induct)
  case (1 p vlen i)
  then show ?case by (subst comp_find.simps) (auto simp: SAND_COMP_SEP_def upt_conv_Cons)
qed

lemma comp_copy_window:
  "comp_copy p vlen room j out = out @ take (room - length out) (takeWhile (\<lambda>b. b \<noteq> 0) (map (\<lambda>k. p (VALUE_OFF + k)) [j..<vlen]))"
proof (induction p vlen room j out rule: comp_copy.induct)
  case (1 p vlen room j out)
  then show ?case by (subst comp_copy.simps) (auto simp: upt_conv_Cons take_Cons' )
qed

text \<open>The two loops find the compensation of the ledger's specification.\<close>

lemma extract_compensation_exact:
  "extract_compensation room s =
     compensation_of room (mem_read (data s) VALUE_OFF (min (unat (d_read_u32 32 s)) CAIRN1_VALUE_MAX))"
  by (simp add: extract_compensation_def compensation_of_def mem_read_def comp_find_window comp_copy_window Let_def split: option.splits)

definition append_commit_raw ::
    "'d device \<Rightarrow> u32 \<Rightarrow> u32 \<Rightarrow> nat \<Rightarrow> u8 list \<Rightarrow> u32 \<Rightarrow> u32 \<Rightarrow> u32 \<Rightarrow> u8 \<Rightarrow> u32 \<Rightarrow> 'd blk \<Rightarrow> bool \<times> 'd blk" where
  "append_commit_raw dv slot parent ns value actor intent derived status gen s =
     (let len = min (length value) (CAIRN1_VALUE_MAX - 1);
          hash = fnv64 (take len value);
          s = set_data MAGIC (zero_data s);
          s = d_write_u32 4 slot s;
          s = d_write_u32 8 parent s;
          s = d_write_u32 12 (of_nat ns) s;
          s = d_write_u64 16 hash s;
          s = d_write_u32 24 actor s;
          s = d_write_u32 28 1 s;
          s = d_write_u32 32 (of_nat len) s;
          s = d_write_u32 36 intent s;
          s = d_write_u32 40 derived s;
          s = s\<lparr> data := (data s)(44 := REVERSIBLE, 45 := status, 46 := ucast gen, 47 := ucast (drop_bit 8 gen)) \<rparr>;
          s = s\<lparr> data := mem_write (data s) VALUE_OFF (take len value) \<rparr>;
          (st, s) = rw dv (commit_sector slot) True s
      in (st = 0, s))"

text \<open>One bounded walk down a live chain: does it meet an effect of the mission?\<close>

fun touched_walk :: "'d device \<Rightarrow> u32 \<Rightarrow> nat \<Rightarrow> u32 \<Rightarrow> 'd blk \<Rightarrow> bool \<times> 'd blk" where
  "touched_walk dv ahd 0 cur s = (False, s)"
| "touched_walk dv ahd (Suc guard) cur s =
     (if cur = NONE then (False, s)
      else let (st, s) = rw dv (commit_sector cur) False s in
        if st \<noteq> 0 \<or> \<not> data_starts_with MAGIC s then (False, s)
        else let parent = d_read_u32 8 s;
                 hit = (d_read_u32 36 s = ahd);
                 (rest, s) = touched_walk dv ahd guard parent s in
          (hit \<or> rest, s))"

fun touched_scan :: "'d device \<Rightarrow> u32 \<Rightarrow> (nat \<Rightarrow> u32) \<Rightarrow> nat list \<Rightarrow> u32 \<Rightarrow> 'd blk \<Rightarrow> u32 \<times> 'd blk" where
  "touched_scan dv ahd head [] touched s = (touched, s)"
| "touched_scan dv ahd head (ns # nss) touched s =
     (let (hit, s) = touched_walk dv ahd (unat COMMIT_SLOTS) (head ns) s in
      touched_scan dv ahd head nss (if hit then touched OR push_bit ns 1 else touched) s)"

definition sfar_touched_ns :: "'d device \<Rightarrow> u32 \<Rightarrow> (nat \<Rightarrow> u32) \<Rightarrow> 'd blk \<Rightarrow> u32 \<times> 'd blk" where
  "sfar_touched_ns dv ahd head s = touched_scan dv ahd head [0..<CAIRN1_NS_MAX] 0 s"

definition sfar_authorized :: "u32 \<Rightarrow> u64 \<Rightarrow> bool" where
  "sfar_authorized touched sender_caps \<longleftrightarrow>
     list_all (\<lambda>ns. \<not> (touched AND push_bit ns 1 \<noteq> 0 \<and> sender_caps AND push_bit (TASK_CAIRN_NS_BASE + ns) 1 = 0))
       [0..<CAIRN1_NS_MAX]"

section \<open>The forecast and the provenance graph\<close>

record tally =
  t_reversible :: nat
  t_compensatable :: nat
  t_irreversible :: nat
  t_unknown :: nat

definition no_tally :: tally where
  "no_tally = \<lparr> t_reversible = 0, t_compensatable = 0, t_irreversible = 0, t_unknown = 0 \<rparr>"

definition tally_add :: "u8 \<Rightarrow> tally \<Rightarrow> tally" where
  "tally_add cls t =
     (if cls = REVERSIBLE then t\<lparr> t_reversible := t_reversible t + 1 \<rparr>
      else if cls = COMPENSATABLE then t\<lparr> t_compensatable := t_compensatable t + 1 \<rparr>
      else if cls = IRREVERSIBLE then t\<lparr> t_irreversible := t_irreversible t + 1 \<rparr>
      else t\<lparr> t_unknown := t_unknown t + 1 \<rparr>)"

definition tally_total :: "tally \<Rightarrow> nat" where
  "tally_total t = t_reversible t + t_compensatable t + t_irreversible t + t_unknown t"

fun tally_walk :: "'d device \<Rightarrow> u32 \<Rightarrow> nat \<Rightarrow> u32 \<Rightarrow> tally \<Rightarrow> 'd blk \<Rightarrow> tally \<times> 'd blk" where
  "tally_walk dv ahd 0 cur t s = (t, s)"
| "tally_walk dv ahd (Suc guard) cur t s =
     (if cur = NONE then (t, s)
      else let (st, s) = rw dv (commit_sector cur) False s in
        if st \<noteq> 0 \<or> \<not> data_starts_with MAGIC s then (t, s)
        else let parent = d_read_u32 8 s;
                 t = (if d_read_u32 36 s = ahd then tally_add (d_read_u8 44 s) t else t) in
          tally_walk dv ahd guard parent t s)"

fun tally_scan :: "'d device \<Rightarrow> u32 \<Rightarrow> (nat \<Rightarrow> u32) \<Rightarrow> nat list \<Rightarrow> tally \<Rightarrow> 'd blk \<Rightarrow> tally \<times> 'd blk" where
  "tally_scan dv ahd head [] t s = (t, s)"
| "tally_scan dv ahd head (ns # nss) t s =
     (let (t, s) = tally_walk dv ahd (unat COMMIT_SLOTS) (head ns) t s in
      tally_scan dv ahd head nss t s)"

definition sup_heads :: "mem \<Rightarrow> nat \<Rightarrow> u32" where
  "sup_heads m ns = get_u32 m (cairn_ns_entry_off ns + 16)"

definition sfar_plan :: "'d device \<Rightarrow> u32 \<Rightarrow> u64 \<Rightarrow> 'd blk \<Rightarrow> (u64 \<times> tally) \<times> 'd blk" where
  "sfar_plan dv ahd sender_caps s =
     (if ahd = 0 then ((IPC_STATUS_BAD_REQUEST, no_tally), s)
      else let (ok, s) = cairn_load_super dv s in
        if \<not> ok then ((IPC_STATUS_IO_FAILURE, no_tally), s)
        else let head = sup_heads (data s);
                 (touched, s) = sfar_touched_ns dv ahd head s in
          if touched \<noteq> 0 \<and> \<not> sfar_authorized touched sender_caps then ((IPC_STATUS_DENIED, no_tally), s)
          else let (t, s) = tally_scan dv ahd head [0..<CAIRN1_NS_MAX] no_tally s in
            if tally_total t = 0 then ((IPC_STATUS_UNAVAILABLE, t), s) else ((IPC_STATUS_OK, t), s))"

definition tbar :: "'d device \<Rightarrow> u32 \<Rightarrow> u64 \<Rightarrow> 'd blk \<Rightarrow> (u64 \<times> nat) \<times> 'd blk" where
  "tbar dv ahd sender_caps s =
     (if ahd = 0 then ((IPC_STATUS_BAD_REQUEST, 0), s)
      else let (ok, s) = cairn_load_super dv s in
        if \<not> ok then ((IPC_STATUS_IO_FAILURE, 0), s)
        else let head = sup_heads (data s);
                 (touched, s) = sfar_touched_ns dv ahd head s in
          if touched = 0 then ((IPC_STATUS_UNAVAILABLE, 0), s)
          else if \<not> sfar_authorized touched sender_caps then ((IPC_STATUS_DENIED, 0), s)
          else let (t, s) = tally_scan dv ahd head [0..<CAIRN1_NS_MAX] no_tally s in
            ((IPC_STATUS_OK, tally_total t), s))"

section \<open>Rolling a mission back\<close>

text \<open>The staged variables of one namespace and the shared free slot.\<close>

record sfar_vars =
  sv_head :: u32
  sv_undone :: u32
  sv_appended :: u32
  sv_next :: u32

definition COMPENSATION_PREFIX :: "u8 list" where
  "COMPENSATION_PREFIX = bytes ''[compensation] ''"

text \<open>The compensating append, at the effect in the data window; \<open>None\<close> is the early I/O failure.\<close>

definition sfar_compensate ::
    "'d device \<Rightarrow> u32 \<Rightarrow> u64 \<Rightarrow> nat \<Rightarrow> u32 \<Rightarrow> u32 \<Rightarrow> sfar_vars \<Rightarrow> 'd blk \<Rightarrow> sfar_vars option \<times> 'd blk" where
  "sfar_compensate dv ahd from ns count cur v s =
     (case extract_compensation 96 s of
        None \<Rightarrow> (Some v, s)
      | Some act \<Rightarrow>
          if sv_next v \<ge> COMMIT_SLOTS then (Some v, s)
          else let val = COMPENSATION_PREFIX @ take (128 - length COMPENSATION_PREFIX) act;
                   slot = sv_next v;
                   gen = sat_sub count (sv_undone v) + 1;
                   (ok, s) = append_commit_raw dv slot cur ns val (ucast from) ahd (d_read_u32 40 s) COMPENSATION gen s in
            if \<not> ok then (None, s)
            else (Some (v\<lparr> sv_next := sv_next v + 1, sv_head := slot, sv_appended := sv_appended v + 1 \<rparr>), s))"

partial_function (option) sfar_loop ::
    "'d device \<Rightarrow> u32 \<Rightarrow> u64 \<Rightarrow> nat \<Rightarrow> u32 \<Rightarrow> u32 \<Rightarrow> sfar_vars \<Rightarrow> 'd blk \<Rightarrow> (sfar_vars option \<times> 'd blk) option" where
  "sfar_loop dv ahd from ns count cur v s =
     (if cur = NONE then Some (Some v, s)
      else let r = rw dv (commit_sector cur) False s; s = snd r in
        if fst r \<noteq> 0 \<or> \<not> data_starts_with MAGIC s then Some (Some v, s)
        else if d_read_u32 36 s \<noteq> ahd then Some (Some v, s)
        else if d_read_u8 44 s = COMPENSATABLE then Some (sfar_compensate dv ahd from ns count cur v s)
        else if d_read_u8 44 s \<noteq> REVERSIBLE then Some (Some v, s)
        else sfar_loop dv ahd from ns count (d_read_u32 8 s)
          (v\<lparr> sv_head := d_read_u32 8 s, sv_undone := sv_undone v + 1 \<rparr>) s)"

text \<open>
  The loop has no bound of its own. At a reversible record of the mission that names itself as its
  parent it does not come back; a well-formed store has no such record.
\<close>

lemma sfar_loop_self_parent:
  assumes dv: "reliable dv" "block_device dv content"
    and rec: "mem_read r 0 (length MAGIC) = MAGIC" "get_u32 r 36 = ahd" "r 44 = REVERSIBLE" "get_u32 r 8 = cur"
    and cur: "cur \<noteq> NONE" and s: "content (dev s) (commit_sector cur) = r"
  shows "sfar_loop dv ahd from ns count cur v s = None"
proof -
  have step: "fst (rw dv (commit_sector cur) False s) = 0 \<and> content (dev s1) (commit_sector cur) = r \<and>
      data_starts_with MAGIC s1 \<and> d_read_u32 36 s1 = ahd \<and> d_read_u8 44 s1 = REVERSIBLE \<and> d_read_u32 8 s1 = cur"
    if "content (dev s) (commit_sector cur) = r" and "s1 = snd (rw dv (commit_sector cur) False s)" for s s1
  proof -
    obtain st s1' where rw: "rw dv (commit_sector cur) False s = (st, s1')" by fastforce
    with that have "st = 0" "content (dev s1) = content (dev s)" "sector_of (data s1) = r"
      using reliable_rw [OF dv(1) rw] rw_read [OF dv(2) rw] by auto
    moreover have "mem_read (data s1) 0 (length MAGIC) = mem_read r 0 (length MAGIC)" "get_u32 (data s1) 36 = get_u32 r 36"
      "get_u32 (data s1) 8 = get_u32 r 8"
      unfolding \<open>sector_of (data s1) = r\<close> [symmetric] by (simp_all add: MAGIC_def)
    moreover have "data s1 44 = r 44" unfolding \<open>sector_of (data s1) = r\<close> [symmetric] by (simp add: sector_of_def)
    ultimately show ?thesis using rw that rec by (simp add: data_starts_with_def d_read_u32_def d_read_u8_def)
  qed
  have "dv' = dv \<and> ahd' = ahd \<and> cur' = cur \<longrightarrow> content (dev s) (commit_sector cur) \<noteq> r"
    if "sfar_loop dv' ahd' from' ns' count' cur' v s = Some res" for dv' ahd' from' ns' count' cur' v s res
  proof (rule sfar_loop.raw_induct [OF _ that, where P = "\<lambda>dv' ahd' from' ns' count' cur' v s res.
      dv' = dv \<and> ahd' = ahd \<and> cur' = cur \<longrightarrow> content (dev s) (commit_sector cur) \<noteq> r"], goal_cases)
    case (1 f dv' ahd' from' ns' count' cur' v s res)
    show ?case
    proof (intro impI notI)
      assume eq: "dv' = dv \<and> ahd' = ahd \<and> cur' = cur" and at: "content (dev s) (commit_sector cur) = r"
      define s1 where "s1 = snd (rw dv (commit_sector cur) False s)"
      note st = step [OF at s1_def]
      have "f dv ahd from' ns' count' cur (v\<lparr> sv_head := cur, sv_undone := sv_undone v + 1 \<rparr>) s1 = Some res"
        using 1(2) st cur unfolding eq [THEN conjunct1] eq [THEN conjunct2, THEN conjunct1] eq [THEN conjunct2, THEN conjunct2]
        by (simp add: Let_def s1_def [symmetric] rev_defs)
      from 1(1) [OF this] st show False by simp
    qed
  qed
  with s show ?thesis by (cases "sfar_loop dv ahd from ns count cur v s") auto
qed

text \<open>The staged variables of all namespaces.\<close>

record sfar_stage =
  sg_head :: "nat \<Rightarrow> u32"
  sg_undone :: "nat \<Rightarrow> u32"
  sg_appended :: "nat \<Rightarrow> u32"
  sg_next :: u32

fun sfar_each ::
    "'d device \<Rightarrow> u32 \<Rightarrow> u64 \<Rightarrow> (nat \<Rightarrow> u32) \<Rightarrow> nat list \<Rightarrow> sfar_stage \<Rightarrow> 'd blk \<Rightarrow> (sfar_stage option \<times> 'd blk) option" where
  "sfar_each dv ahd from count [] g s = Some (Some g, s)"
| "sfar_each dv ahd from count (ns # nss) g s =
     (case sfar_loop dv ahd from ns (count ns) (sg_head g ns)
         \<lparr> sv_head = sg_head g ns, sv_undone = sg_undone g ns, sv_appended = sg_appended g ns, sv_next = sg_next g \<rparr> s of
        None \<Rightarrow> None
      | Some (None, s) \<Rightarrow> Some (None, s)
      | Some (Some v, s) \<Rightarrow> sfar_each dv ahd from count nss
          (g\<lparr> sg_head := (sg_head g)(ns := sv_head v), sg_undone := (sg_undone g)(ns := sv_undone v),
             sg_appended := (sg_appended g)(ns := sv_appended v), sg_next := sv_next v \<rparr>) s)"

definition sfar_write_ns :: "(nat \<Rightarrow> u32) \<Rightarrow> sfar_stage \<Rightarrow> nat \<Rightarrow> 'd blk \<Rightarrow> 'd blk" where
  "sfar_write_ns count g ns s =
     (if sg_undone g ns > 0 \<or> sg_appended g ns > 0
      then d_write_u32 (cairn_ns_entry_off ns + 20) (sat_sub (count ns) (sg_undone g ns) + sg_appended g ns)
             (d_write_u32 (cairn_ns_entry_off ns + 16) (sg_head g ns) s)
      else s)"

definition sfar_rollback :: "'d device \<Rightarrow> u32 \<Rightarrow> u64 \<Rightarrow> u64 \<Rightarrow> 'd blk \<Rightarrow> (u64 \<times> 'd blk) option" where
  "sfar_rollback dv ahd sender_caps from s =
     (if ahd = 0 then Some (IPC_STATUS_BAD_REQUEST, s)
      else let (ok, s) = cairn_load_super dv s in
        if \<not> ok then Some (IPC_STATUS_IO_FAILURE, s)
        else let head = sup_heads (data s);
                 m = data s;
                 count = (\<lambda>ns. get_u32 m (cairn_ns_entry_off ns + 20));
                 g = \<lparr> sg_head = head, sg_undone = (\<lambda>_. 0), sg_appended = (\<lambda>_. 0), sg_next = d_read_u32 8 s \<rparr>;
                 (touched, s) = sfar_touched_ns dv ahd head s in
          if touched \<noteq> 0 \<and> \<not> sfar_authorized touched sender_caps then Some (IPC_STATUS_DENIED, s)
          else case sfar_each dv ahd from count [0..<CAIRN1_NS_MAX] g s of
            None \<Rightarrow> None
          | Some (None, s) \<Rightarrow> Some (IPC_STATUS_IO_FAILURE, s)
          | Some (Some g, s) \<Rightarrow>
              let (ok, s) = cairn_load_super dv s in
              if \<not> ok then Some (IPC_STATUS_IO_FAILURE, s)
              else let s = fold (sfar_write_ns count g) [0..<CAIRN1_NS_MAX] s;
                       s = d_write_u32 8 (sg_next g) s;
                       (st, s) = rw dv CAIRN1_SUPER_SECTOR True s in
                if st \<noteq> 0 then Some (IPC_STATUS_IO_FAILURE, s) else Some (IPC_STATUS_OK, s))"

section \<open>The scan\<close>

text \<open>Every read of the device succeeds; without it a scan may stop early.\<close>

definition reads_succeed :: "'d device \<Rightarrow> bool" where
  "reads_succeed dv \<longleftrightarrow> (\<forall>d sec m. fst (dv d sec False m) = 0)"

lemma reads_succeed_rw: "reads_succeed dv \<Longrightarrow> rw dv sec False s = (st, s') \<Longrightarrow> st = 0"
  by (auto simp: reads_succeed_def rw_def split: prod.splits) (metis fst_conv)

lemma reliable_reads: "reliable dv \<Longrightarrow> reads_succeed dv"
  by (simp add: reliable_def reads_succeed_def)

lemma effect_fields [simp]:
  "e_intent (effect_of m) = get_u32 m 36" "e_class (effect_of m) = m 44" "e_derived (effect_of m) = get_u32 m 40"
  by (simp_all add: effect_of_def)

abbreviation effects :: "(u64 \<Rightarrow> mem) \<Rightarrow> nat list \<Rightarrow> effect list" where
  "effects c \<equiv> map (\<lambda>k. effect_of (commit_at c k))"

lemma touched_walk_spec:
  assumes "block_device dv content" and "log_ok (content (dev s)) n" and "slot_in n cur"
    and "touched_walk dv ahd guard cur s = (hit, s')"
  shows "content (dev s') = content (dev s) \<and> input s' = input s \<and>
    (hit \<longrightarrow> (\<exists>e \<in> set (effects (content (dev s)) (walk (content (dev s)) cur)). e_intent e = ahd)) \<and>
    (reads_succeed dv \<and> length (walk (content (dev s)) cur) \<le> guard \<longrightarrow>
      hit = (\<exists>e \<in> set (effects (content (dev s)) (walk (content (dev s)) cur)). e_intent e = ahd))"
  using assms
proof (induction guard arbitrary: cur s hit s')
  case (Suc guard)
  show ?case
  proof (cases "cur = NONE")
    case False
    obtain st s1 where r1: "rw dv (commit_sector cur) False s = (st, s1)" by fastforce
    obtain h2 s2 where r2: "touched_walk dv ahd guard (d_read_u32 8 s1) s1 = (h2, s2)" by fastforce
    note rd = read_commit [OF Suc.prems(1-3) False r1] and stp = walk_step [OF Suc.prems(2,3) False]
    have run: "(hit, s') = (if st \<noteq> 0 then (False, s1) else (get_u32 (data s1) 36 = ahd \<or> h2, s2))"
      using Suc.prems(4) False r1 r2 rd(4) by (auto simp: d_read_u32_def split: if_splits)
    show ?thesis
    proof (cases "st = 0")
      case True
      then have "d_read_u32 8 s1 = get_u32 (commit_at (content (dev s)) (unat cur)) 8"
        "get_u32 (data s1) 36 = get_u32 (commit_at (content (dev s)) (unat cur)) 36"
        using rd(5) by (simp_all add: d_read_u32_def)
      with Suc.IH [OF Suc.prems(1) _ _ r2] Suc.prems(2) rd(1,2) stp run True show ?thesis by auto
    next
      case False
      with run rd reads_succeed_rw [OF _ r1] show ?thesis by auto
    qed
  qed (use Suc.prems in auto)
qed auto

lemma walk_length_le:
  assumes "log_ok c n" and "slot_in n w"
  shows "length (walk c w) \<le> 255"
proof (cases "w = NONE")
  case False
  with assms have "unat w < n" "n \<le> 255" by (auto simp: slot_in_def log_ok_def)
  with False length_chain [of "parent_at c" "unat w"] show ?thesis
    by (simp add: walk_def chain_opt_def slot_opt_def)
qed simp

lemma touched_scan_spec:
  assumes dv: "block_device dv content" and "log_ok (content (dev s)) n" and "\<forall>ns \<in> set nss. slot_in n (head ns)"
    and "touched_scan dv ahd head nss t s = (touched, s')" and "\<forall>ns \<in> set nss. ns < 8"
  shows "content (dev s') = content (dev s) \<and> input s' = input s \<and>
    (reads_succeed dv \<longrightarrow> (\<forall>ns < 32. bit touched ns \<longleftrightarrow> bit t ns \<or> ns \<in> set nss \<and>
      (\<exists>e \<in> set (effects (content (dev s)) (walk (content (dev s)) (head ns))). e_intent e = ahd)))"
  using assms(2-)
proof (induction nss arbitrary: t s)
  case (Cons ns nss)
  obtain hit s1 where w: "touched_walk dv ahd (unat COMMIT_SLOTS) (head ns) s = (hit, s1)" by fastforce
  have len: "length (walk (content (dev s)) (head ns)) \<le> unat COMMIT_SLOTS"
    using walk_length_le [OF Cons.prems(1)] Cons.prems(2) by (simp add: COMMIT_SLOTS_def)
  have bits: "bit (if hit then t OR push_bit ns 1 else t) k \<longleftrightarrow> bit t k \<or> hit \<and> k = ns" if "k < 32" for k
    using that by (auto simp: bit_or_iff bit_exp_iff)
  have c1: "content (dev s1) = content (dev s)" and i1: "input s1 = input s"
    and hit: "reads_succeed dv \<Longrightarrow> hit =
      (\<exists>e \<in> set (effects (content (dev s)) (walk (content (dev s)) (head ns))). e_intent e = ahd)"
    using touched_walk_spec [OF dv Cons.prems(1) _ w] Cons.prems(2) len by simp_all
  have run: "touched_scan dv ahd head nss (if hit then t OR push_bit ns 1 else t) s1 = (touched, s')"
    using Cons.prems(3) w by simp
  have IH: "content (dev s') = content (dev s) \<and> input s' = input s \<and>
    (reads_succeed dv \<longrightarrow> (\<forall>k < 32. bit touched k \<longleftrightarrow> bit (if hit then t OR push_bit ns 1 else t) k \<or> k \<in> set nss \<and>
      (\<exists>e \<in> set (effects (content (dev s)) (walk (content (dev s)) (head k))). e_intent e = ahd)))"
    using Cons.IH [OF _ _ run] Cons.prems(1,2,4) c1 i1 by simp
  show ?case
  proof (intro conjI impI allI)
    fix k :: nat assume rs: "reads_succeed dv" and k: "k < 32"
    with IH have "bit touched k \<longleftrightarrow> bit (if hit then t OR push_bit ns 1 else t) k \<or> k \<in> set nss \<and>
      (\<exists>e \<in> set (effects (content (dev s)) (walk (content (dev s)) (head k))). e_intent e = ahd)" by blast
    with bits [OF k] hit [OF rs] show "bit touched k \<longleftrightarrow> bit t k \<or> k \<in> set (ns # nss) \<and>
      (\<exists>e \<in> set (effects (content (dev s)) (walk (content (dev s)) (head k))). e_intent e = ahd)"
      by (metis list.set_intros set_ConsD)
  qed (use IH in simp_all)
qed simp

lemma sfar_authorized_iff:
  "sfar_authorized touched caps \<longleftrightarrow> (\<forall>ns < 8. bit touched ns \<longrightarrow> bit caps (8 + ns))"
proof -
  have "\<not> (touched AND push_bit ns 1 \<noteq> 0 \<and> caps AND push_bit (TASK_CAIRN_NS_BASE + ns) 1 = 0) \<longleftrightarrow>
      (bit touched ns \<longrightarrow> bit caps (8 + ns))" if "ns < 8" for ns
    using that and_single_bit_ne_zero [where 'a = 32, of ns touched] and_single_bit_ne_zero [where 'a = 64, of "8 + ns" caps]
    by (simp only: TASK_CAIRN_NS_BASE_def) auto
  then show ?thesis by (auto simp: sfar_authorized_def list_all_iff CAIRN1_NS_MAX_def)
qed

text \<open>The caller holds the capability of every namespace the mission touched.\<close>

definition mission_authority :: "u32 \<Rightarrow> u64 \<Rightarrow> ledger \<Rightarrow> bool" where
  "mission_authority ahd caps L \<longleftrightarrow> (\<forall>ns < 8. mission_touches ahd L ns \<longrightarrow> bit caps (8 + ns))"

lemma sup_heads_eq: "sup_heads m ns = get_u32 m (32 + ns * 32)"
  by (simp add: sup_heads_def cairn_ns_entry_off_def)

lemma sfar_touched_spec:
  assumes dv: "block_device dv content" and ld: "loaded content L s"
    and run: "sfar_touched_ns dv ahd (sup_heads (data s)) s = (touched, s')"
  shows "content (dev s') = content (dev s)" and "input s' = input s"
    and "reads_succeed dv \<Longrightarrow> ns < 8 \<Longrightarrow> bit touched ns = mission_touches ahd L ns"
    and "reads_succeed dv \<Longrightarrow> (touched \<noteq> 0 \<and> \<not> sfar_authorized touched caps) = (\<not> mission_authority ahd caps L)"
    and "reads_succeed dv \<Longrightarrow> touched = 0 \<longleftrightarrow> (\<forall>ns < 8. \<not> mission_touches ahd L ns)"
proof -
  have live: "live_rel (content (dev s)) (data s) L" using ld by (simp add: loaded_def)
  note lw = live_walk [OF live]
  have sc: "content (dev s') = content (dev s) \<and> input s' = input s \<and>
    (reads_succeed dv \<longrightarrow> (\<forall>ns < 32. bit touched ns \<longleftrightarrow> bit (0 :: u32) ns \<or> ns \<in> set [0..<8] \<and>
      (\<exists>e \<in> set (effects (content (dev s)) (walk (content (dev s)) (sup_heads (data s) ns))). e_intent e = ahd)))"
    by (rule touched_scan_spec [OF dv live_log_ok [OF live] _ run [unfolded sfar_touched_ns_def CAIRN1_NS_MAX_def]])
      (use lw(2) in \<open>auto simp: sup_heads_eq\<close>)
  show "content (dev s') = content (dev s)" "input s' = input s" using sc by simp_all
  show bits: "reads_succeed dv \<Longrightarrow> ns < 8 \<Longrightarrow> bit touched ns = mission_touches ahd L ns" for ns
    using sc lw(1) [of ns] by (auto simp: mission_touches_def sup_heads_eq)
  have "touched = 0 \<Longrightarrow> sfar_authorized touched caps" by (simp add: sfar_authorized_iff)
  then show "reads_succeed dv \<Longrightarrow> (touched \<noteq> 0 \<and> \<not> sfar_authorized touched caps) = (\<not> mission_authority ahd caps L)"
    using bits by (auto simp: sfar_authorized_iff mission_authority_def)
  show "touched = 0 \<longleftrightarrow> (\<forall>ns < 8. \<not> mission_touches ahd L ns)" if rs: "reads_succeed dv"
  proof
    assume none: "\<forall>ns < 8. \<not> mission_touches ahd L ns"
    have "\<not> bit touched k" if "k < 32" for k using sc rs that none bits [OF rs, of k] by auto
    then show "touched = 0" by (intro bit_word_eqI) simp
  qed (use bits [OF rs] in auto)
qed

section \<open>The forecast\<close>

definition tally_of :: "u32 \<Rightarrow> effect list \<Rightarrow> tally \<Rightarrow> tally" where
  "tally_of ahd es t = fold (\<lambda>e t. if e_intent e = ahd then tally_add (e_class e) t else t) es t"

definition mission_effects :: "ledger \<Rightarrow> effect list" where
  "mission_effects L = concat (map (stack L) [0..<8])"

lemma tally_walk_spec:
  assumes "block_device dv content" and "log_ok (content (dev s)) n" and "slot_in n cur"
    and "tally_walk dv ahd guard cur t s = (t', s')"
  shows "content (dev s') = content (dev s) \<and> input s' = input s \<and>
    (reads_succeed dv \<and> length (walk (content (dev s)) cur) \<le> guard \<longrightarrow>
      t' = tally_of ahd (effects (content (dev s)) (walk (content (dev s)) cur)) t)"
  using assms
proof (induction guard arbitrary: cur s t)
  case (Suc guard)
  show ?case
  proof (cases "cur = NONE")
    case False
    obtain st s1 where r1: "rw dv (commit_sector cur) False s = (st, s1)" by fastforce
    note rd = read_commit [OF Suc.prems(1-3) False r1] and stp = walk_step [OF Suc.prems(2,3) False]
    show ?thesis
    proof (cases "st = 0")
      case True
      let ?r = "commit_at (content (dev s)) (unat cur)"
      have get: "get_u32 (data s1) 8 = get_u32 ?r 8" "get_u32 (data s1) 36 = get_u32 ?r 36" "data s1 44 = ?r 44"
        using rd(5,6) True by simp_all
      have "tally_walk dv ahd guard (get_u32 ?r 8) (if get_u32 ?r 36 = ahd then tally_add (?r 44) t else t) s1 = (t', s')"
        using Suc.prems(4) False r1 rd(4) True get by (simp add: d_read_u32_def d_read_u8_def cong: if_cong)
      from Suc.IH [OF Suc.prems(1) _ _ this] Suc.prems(2) rd(1,2) stp show ?thesis
        by (auto simp: tally_of_def)
    next
      case st: False
      then show ?thesis using Suc.prems(4) False r1 rd(1,2) reads_succeed_rw [OF _ r1] by auto
    qed
  qed (use Suc.prems in \<open>auto simp: tally_of_def\<close>)
qed (auto simp: tally_of_def)

lemma tally_scan_spec:
  assumes dv: "block_device dv content" and "log_ok (content (dev s)) n" and "\<forall>ns \<in> set nss. slot_in n (head ns)"
    and "tally_scan dv ahd head nss t s = (t', s')"
  shows "content (dev s') = content (dev s) \<and> input s' = input s \<and> (reads_succeed dv \<longrightarrow>
    t' = tally_of ahd (concat (map (\<lambda>ns. effects (content (dev s)) (walk (content (dev s)) (head ns))) nss)) t)"
  using assms(2-)
proof (induction nss arbitrary: t s)
  case (Cons ns nss)
  obtain t1 s1 where w: "tally_walk dv ahd (unat COMMIT_SLOTS) (head ns) t s = (t1, s1)" by fastforce
  have len: "length (walk (content (dev s)) (head ns)) \<le> unat COMMIT_SLOTS"
    using walk_length_le [OF Cons.prems(1)] Cons.prems(2) by (simp add: COMMIT_SLOTS_def)
  have c1: "content (dev s1) = content (dev s)" "input s1 = input s"
    and t1: "reads_succeed dv \<Longrightarrow> t1 = tally_of ahd (effects (content (dev s)) (walk (content (dev s)) (head ns))) t"
    using tally_walk_spec [OF dv Cons.prems(1) _ w] Cons.prems(2) len by simp_all
  have run: "tally_scan dv ahd head nss t1 s1 = (t', s')" using Cons.prems(3) w by simp
  show ?case
    using Cons.IH [OF _ _ run] Cons.prems(1,2) c1 t1 by (simp add: tally_of_def)
qed (simp add: tally_of_def)

lemma tally_heads:
  assumes dv: "block_device dv content" and ld: "loaded content L s"
    and c1: "content (dev s1) = content (dev s)"
    and run: "tally_scan dv ahd (sup_heads (data s)) [0..<CAIRN1_NS_MAX] no_tally s1 = (t, s')"
  shows "content (dev s') = content (dev s) \<and> input s' = input s1 \<and>
    (reads_succeed dv \<longrightarrow> t = tally_of ahd (mission_effects L) no_tally)"
proof -
  have live: "live_rel (content (dev s)) (data s) L" using ld by (simp add: loaded_def)
  note lw = live_walk [OF live]
  have stacks: "map (\<lambda>ns. effects (content (dev s)) (walk (content (dev s)) (sup_heads (data s) ns))) [0..<8]
      = map (stack L) [0..<8]"
    using lw(1) by (simp add: sup_heads_eq)
  have "content (dev s') = content (dev s1) \<and> input s' = input s1 \<and> (reads_succeed dv \<longrightarrow>
      t = tally_of ahd (concat (map (\<lambda>ns. effects (content (dev s1))
        (walk (content (dev s1)) (sup_heads (data s) ns))) [0..<8])) no_tally)"
    using tally_scan_spec [OF dv _ _ run, of "sup_next (data s)"] live_log_ok [OF live] lw(2) c1
    by (simp add: CAIRN1_NS_MAX_def sup_heads_eq)
  then show ?thesis unfolding c1 stacks mission_effects_def by simp
qed

lemma sfar_plan_spec:
  assumes dv: "block_device dv content" and rel: "store_rel (content (dev s)) L"
    and run: "sfar_plan dv ahd caps s = ((st, t), s')"
  shows "store_rel (content (dev s')) L"
    and "reads_succeed dv \<Longrightarrow> ahd \<noteq> 0 \<Longrightarrow> st \<noteq> IPC_STATUS_IO_FAILURE \<Longrightarrow>
      (if mission_authority ahd caps L
       then t = tally_of ahd (mission_effects L) no_tally \<and>
         st = (if tally_total t = 0 then IPC_STATUS_UNAVAILABLE else IPC_STATUS_OK)
       else st = IPC_STATUS_DENIED)"
proof -
  obtain ok1 s1 where l1: "cairn_load_super dv s = (ok1, s1)" by fastforce
  obtain touched s2 where w2: "sfar_touched_ns dv ahd (sup_heads (data s1)) s1 = (touched, s2)" by fastforce
  obtain t3 s3 where w3: "tally_scan dv ahd (sup_heads (data s1)) [0..<CAIRN1_NS_MAX] no_tally s2 = (t3, s3)" by fastforce
  note f1 = load_super_spec [OF dv rel l1]
  have result: "((st, t), s') = (if ahd = 0 then ((IPC_STATUS_BAD_REQUEST, no_tally), s)
      else if \<not> ok1 then ((IPC_STATUS_IO_FAILURE, no_tally), s1)
      else if touched \<noteq> 0 \<and> \<not> sfar_authorized touched caps then ((IPC_STATUS_DENIED, no_tally), s2)
      else ((if tally_total t3 = 0 then IPC_STATUS_UNAVAILABLE else IPC_STATUS_OK, t3), s3))"
    unfolding run [symmetric] by (simp add: sfar_plan_def l1 w2 w3 Let_def cong: if_cong)
  show "store_rel (content (dev s')) L"
  proof (cases "ahd \<noteq> 0 \<and> ok1")
    case True
    with f1 have ld: "loaded content L s1" by simp
    note f2 = sfar_touched_spec [OF dv ld w2]
    show ?thesis using True result f1 f2(1) tally_heads [OF dv ld f2(1) w3] by (auto split: if_splits)
  qed (use result f1 rel in \<open>auto split: if_splits\<close>)
  assume rs: "reads_succeed dv" and ahd: "ahd \<noteq> 0" and io: "st \<noteq> IPC_STATUS_IO_FAILURE"
  then have ld: "loaded content L s1" using result f1 by (auto split: if_splits)
  note f2 = sfar_touched_spec [OF dv ld w2]
  show "if mission_authority ahd caps L
       then t = tally_of ahd (mission_effects L) no_tally \<and>
         st = (if tally_total t = 0 then IPC_STATUS_UNAVAILABLE else IPC_STATUS_OK)
       else st = IPC_STATUS_DENIED"
    using result ahd io f2(4) [OF rs, of caps] tally_heads [OF dv ld f2(1) w3] rs by (auto split: if_splits)
qed

lemma tbar_spec:
  assumes dv: "block_device dv content" and rel: "store_rel (content (dev s)) L"
    and run: "tbar dv ahd caps s = ((st, n), s')"
  shows "store_rel (content (dev s')) L"
    and "reads_succeed dv \<Longrightarrow> ahd \<noteq> 0 \<Longrightarrow> st \<noteq> IPC_STATUS_IO_FAILURE \<Longrightarrow>
      (if \<forall>ns < 8. \<not> mission_touches ahd L ns then st = IPC_STATUS_UNAVAILABLE
       else if mission_authority ahd caps L
       then st = IPC_STATUS_OK \<and> n = tally_total (tally_of ahd (mission_effects L) no_tally)
       else st = IPC_STATUS_DENIED)"
proof -
  obtain ok1 s1 where l1: "cairn_load_super dv s = (ok1, s1)" by fastforce
  obtain touched s2 where w2: "sfar_touched_ns dv ahd (sup_heads (data s1)) s1 = (touched, s2)" by fastforce
  obtain t3 s3 where w3: "tally_scan dv ahd (sup_heads (data s1)) [0..<CAIRN1_NS_MAX] no_tally s2 = (t3, s3)" by fastforce
  note f1 = load_super_spec [OF dv rel l1]
  have result: "((st, n), s') = (if ahd = 0 then ((IPC_STATUS_BAD_REQUEST, 0), s)
      else if \<not> ok1 then ((IPC_STATUS_IO_FAILURE, 0), s1)
      else if touched = 0 then ((IPC_STATUS_UNAVAILABLE, 0), s2)
      else if \<not> sfar_authorized touched caps then ((IPC_STATUS_DENIED, 0), s2)
      else ((IPC_STATUS_OK, tally_total t3), s3))"
    unfolding run [symmetric] by (simp add: tbar_def l1 w2 w3 Let_def cong: if_cong)
  show "store_rel (content (dev s')) L"
  proof (cases "ahd \<noteq> 0 \<and> ok1")
    case True
    with f1 have ld: "loaded content L s1" by simp
    note f2 = sfar_touched_spec [OF dv ld w2]
    show ?thesis using True result f1 f2(1) tally_heads [OF dv ld f2(1) w3] by (auto split: if_splits)
  qed (use result f1 rel in \<open>auto split: if_splits\<close>)
  assume rs: "reads_succeed dv" and ahd: "ahd \<noteq> 0" and io: "st \<noteq> IPC_STATUS_IO_FAILURE"
  then have ld: "loaded content L s1" using result f1 by (auto split: if_splits)
  note f2 = sfar_touched_spec [OF dv ld w2]
  show "if \<forall>ns < 8. \<not> mission_touches ahd L ns then st = IPC_STATUS_UNAVAILABLE
       else if mission_authority ahd caps L
       then st = IPC_STATUS_OK \<and> n = tally_total (tally_of ahd (mission_effects L) no_tally)
       else st = IPC_STATUS_DENIED"
    unfolding f2(5) [OF rs, symmetric]
    using result ahd io f2(4) [OF rs, of caps] tally_heads [OF dv ld f2(1) w3] rs by (auto split: if_splits)
qed

lemma sfar_queries_reliable:
  assumes rel: "reliable dv"
  shows "sfar_plan dv ahd caps s = ((st, t), s') \<Longrightarrow> st \<noteq> IPC_STATUS_IO_FAILURE"
    and "tbar dv ahd caps s = ((st, n), s') \<Longrightarrow> st \<noteq> IPC_STATUS_IO_FAILURE"
  by (auto simp: sfar_plan_def tbar_def Let_def status_defs split: prod.splits if_splits dest: reliable_load_super [OF rel])

section \<open>Appending a compensation\<close>

lemma magic_window: "data (set_data MAGIC (zero_data s)) = mem_write (data (zero_data s)) 0 MAGIC"
  by (rule ext) (auto simp: set_data_def zero_data_def mem_write_def SECTOR_SIZE_def)

lemma gen_bytes:
  "ucast (ucast g :: u16) = (ucast (g :: u32) :: u8)"
  "ucast (drop_bit 8 (ucast g :: u16)) = (ucast (drop_bit 8 (g :: u32)) :: u8)"
  by (rule bit_word_eqI; auto simp: bit_simps)+

lemma ucast_next_gen: "(ucast (of_nat k + 1 :: u32) :: u16) = of_nat (k + 1)"
  by (simp flip: of_nat_Suc) (transfer, simp add: take_bit_eq_mod mod_mod_cancel add.commute)

text \<open>The open-coded layout is the encoder's.\<close>

lemma append_commit_raw_encodes:
  assumes "length v < 448"
  shows "append_commit_raw dv slot parent ns v actor intent derived status gen s =
    (let (st, s') = rw dv (commit_sector slot) True (s\<lparr> data := mem_write (encode
       \<lparr> h_slot = slot, h_parent = parent, h_ns = of_nat ns, h_hash = fnv64 v, h_actor = actor, h_flags = 1,
         h_len = of_nat (length v), h_intent = intent, h_derived = derived, h_rev_class = REVERSIBLE,
         h_status = status, h_generation = ucast gen \<rparr> (data (zero_data s))) 64 v \<rparr>) in (st = 0, s'))"
proof -
  have take: "min (length v) (CAIRN1_VALUE_MAX - 1) = length v" using assms by (simp add: cairn_consts)
  have upd: "(set_data MAGIC (zero_data s))\<lparr> data := x \<rparr> = s\<lparr> data := x \<rparr>" for x
    by (simp add: set_data_def zero_data_def Let_def)
  show ?thesis
    unfolding append_commit_raw_def take Let_def take_all [OF order_refl]
    by (simp add: d_write_u32_def d_write_u64_def upd magic_window encode_def Let_def gen_bytes VALUE_OFF_def)
qed

section \<open>The rollback loop\<close>

text \<open>
  What the loop leaves for one namespace: \<open>u\<close> effects retracted and, in the second case, the
  compensation \<open>r\<close> written to the free slot.
\<close>

definition retracted :: "bool \<Rightarrow> (u64 \<Rightarrow> mem) \<Rightarrow> u32 \<Rightarrow> nat list \<Rightarrow> sfar_vars \<Rightarrow> nat \<Rightarrow> (u64 \<Rightarrow> mem) \<Rightarrow> sfar_vars \<Rightarrow> bool" where
  "retracted exact c ahd ks v u c' v' \<longleftrightarrow>
     u \<le> length (takeWhile (retractable ahd) (effects c ks)) \<and>
     c' = c \<and> sv_next v' = sv_next v \<and> sv_appended v' = sv_appended v \<and>
     slot_in (unat (sv_next v)) (sv_head v') \<and> walk c (sv_head v') = drop u ks \<and>
     (u = 0 \<longrightarrow> sv_head v' = sv_head v) \<and>
     (exact \<longrightarrow> u = length (takeWhile (retractable ahd) (effects c ks)) \<and>
        (compensation_due ahd (effects c ks) = None \<or> 255 \<le> unat (sv_next v)))"

definition compensated :: "(u64 \<Rightarrow> mem) \<Rightarrow> u32 \<Rightarrow> u32 \<Rightarrow> nat \<Rightarrow> nat list \<Rightarrow> sfar_vars \<Rightarrow> nat \<Rightarrow> (u64 \<Rightarrow> mem) \<Rightarrow> sfar_vars \<Rightarrow> bool" where
  "compensated c ahd actor ns ks v u c' v' \<longleftrightarrow>
     u = length (takeWhile (retractable ahd) (effects c ks)) \<and> unat (sv_next v) < 255 \<and>
     sv_next v' = sv_next v + 1 \<and> sv_appended v' = sv_appended v + 1 \<and> sv_head v' = sv_next v \<and>
     (\<exists>act r. compensation_due ahd (effects c ks) = Some act \<and>
        c' = c(1601 + of_nat (unat (sv_next v)) := r) \<and> commit_ok r (unat (sv_next v)) \<and>
        slot_in (unat (sv_next v)) (get_u32 r 8) \<and> walk c (get_u32 r 8) = drop u ks \<and>
        effect_of r = new_effect ns actor ahd (e_derived (hd (drop u (effects c ks)))) REVERSIBLE COMPENSATION
          (COMPENSATION_PREFIX @ act) (length ks - u))"

lemma compensation_of_length: "compensation_of room v = Some act \<Longrightarrow> length act \<le> room"
  by (auto simp: compensation_of_def Let_def split: list.splits if_splits)

lemma effect_value: "e_value (effect_of m) = mem_read m 64 (unat (get_u32 m 32))"
  by (simp add: effect_of_def)

lemma length_prefix: "length COMPENSATION_PREFIX = 15"
  by (simp add: COMPENSATION_PREFIX_def)

lemma sfar_compensate_spec:
  assumes dv: "block_device dv content" and log: "log_ok (content (dev s)) (unat (sv_next v))"
    and cur: "slot_in (unat (sv_next v)) cur" "cur \<noteq> NONE"
    and win: "sector_of (data s) = commit_at (content (dev s)) (unat cur)"
    and mission: "get_u32 (data s) 36 = ahd" "data s 44 = COMPENSATABLE"
    and undone: "unat (sv_undone v) + length (walk (content (dev s)) cur) = unat count" and head: "sv_head v = cur"
    and run: "sfar_compensate dv ahd from ns count cur v s = (res, s')"
  shows "input s' = input s \<and> (reliable dv \<longrightarrow> res \<noteq> None) \<and> (case res of
      None \<Rightarrow> \<exists>r. content (dev s') = content (dev s) \<or> content (dev s') = (content (dev s))(1601 + of_nat (unat (sv_next v)) := r)
    | Some v' \<Rightarrow> sv_undone v' = sv_undone v \<and>
        (retracted True (content (dev s)) ahd (walk (content (dev s)) cur) v 0 (content (dev s')) v' \<or>
         compensated (content (dev s)) ahd (ucast from) ns (walk (content (dev s)) cur) v 0 (content (dev s')) v'))"
proof -
  let ?c = "content (dev s)" and ?n = "unat (sv_next v)"
  note stp = walk_step [OF log cur]
  have eff: "effect_of (commit_at ?c (unat cur)) = effect_of (data s)" and len: "unat (get_u32 (data s) 32) < 448"
    using stp(3) effect_of_sector [of "data s"] get_u32_sector_of [of 32 "data s"] win by (simp_all add: commit_ok_def)
  have es: "effects ?c (walk ?c cur) = effect_of (data s) # effects ?c (walk ?c (get_u32 (commit_at ?c (unat cur)) 8))"
    by (simp add: stp(1) eff)
  have nr: "\<not> retractable ahd (effect_of (data s))" using mission by (simp add: retractable_def effect_value rev_defs)
  have due: "compensation_due ahd (effects ?c (walk ?c cur)) = extract_compensation 96 s"
    using mission nr len unfolding es
    by (simp add: compensation_due_def standing_def extract_compensation_exact effect_value d_read_u32_def cairn_consts)
  have plain: "retracted True ?c ahd (walk ?c cur) v 0 ?c v"
    if "extract_compensation 96 s = None \<or> 255 \<le> ?n"
    using that nr due cur head es by (simp add: retracted_def)
  show ?thesis
  proof (cases "extract_compensation 96 s = None \<or> 255 \<le> ?n")
    case True
    then have "res = Some v \<and> s' = s"
      using run by (auto simp: sfar_compensate_def COMMIT_SLOTS_def word_le_nat_alt split: option.splits if_splits)
    then show ?thesis using plain [OF True] by simp
  next
    case False
    then obtain act where act: "extract_compensation 96 s = Some act" and n: "?n < 255" by auto
    define val where "val = COMPENSATION_PREFIX @ act"
    have "length act \<le> 96" using act compensation_of_length by (auto simp: extract_compensation_exact)
    then have take: "COMPENSATION_PREFIX @ take (128 - length COMPENSATION_PREFIX) act = val"
      and vlen: "length val < 448" by (simp_all add: length_prefix val_def)
    define h where "h = \<lparr> h_slot = sv_next v, h_parent = cur, h_ns = of_nat ns, h_hash = fnv64 val,
      h_actor = ucast from, h_flags = 1, h_len = of_nat (length val), h_intent = ahd,
      h_derived = get_u32 (data s) 40, h_rev_class = REVERSIBLE, h_status = COMPENSATION,
      h_generation = ucast (sat_sub count (sv_undone v) + 1) \<rparr>"
    define r where "r = sector_of (mem_write (encode h (data (zero_data s))) 64 val)"
    obtain st s1 where w: "rw dv (commit_sector (sv_next v)) True
        (s\<lparr> data := mem_write (encode h (data (zero_data s))) 64 val \<rparr>) = (st, s1)" by fastforce
    have res: "res = (if st \<noteq> 0 then None
        else Some (v\<lparr> sv_next := sv_next v + 1, sv_head := sv_next v, sv_appended := sv_appended v + 1 \<rparr>))" "s' = s1"
      using run act n w
      by (auto simp: sfar_compensate_def take append_commit_raw_encodes [OF vlen] COMMIT_SLOTS_def word_le_nat_alt
          d_read_u32_def h_def [symmetric] Let_def split: if_splits)
    have io: "input s1 = input s" "content (dev s1) = ?c(1601 + of_nat ?n := r) \<or> st \<noteq> 0 \<and> content (dev s1) = ?c"
      using rw_write [OF dv w] by (simp_all add: r_def commit_sector_unat)
    have "commit_ok r ?n" "slot_opt (get_u32 r 8) = slot_opt cur"
      and er: "effect_of r = \<lparr> e_ns = of_nat ns, e_hash = fnv64 val, e_actor = ucast from, e_intent = ahd,
        e_derived = get_u32 (data s) 40, e_class = REVERSIBLE, e_status = COMPENSATION,
        e_gen = ucast (sat_sub count (sv_undone v) + 1), e_value = val \<rparr>"
      unfolding r_def
      using record_written [of h val ?n "data (zero_data s)"] vlen cur by (simp_all add: h_def slot_in_def unat_of_nat_small)
    moreover have "sat_sub count (sv_undone v) = of_nat (length (walk ?c cur))"
      using undone unat_sat_sub [of count "unat count" "unat (sv_undone v)"]
      by (intro of_nat_unat_count) simp
    then have "effect_of r = new_effect ns (ucast from) ahd (get_u32 (data s) 40) REVERSIBLE COMPENSATION val (length (walk ?c cur))"
      by (simp only: er new_effect_def ucast_next_gen)
    ultimately have "compensated ?c ahd (ucast from) ns (walk ?c cur) v 0 (?c(1601 + of_nat ?n := r))
        (v\<lparr> sv_next := sv_next v + 1, sv_head := sv_next v, sv_appended := sv_appended v + 1 \<rparr>)"
      unfolding compensated_def es
      using n due [unfolded es] act nr cur
      by (intro conjI exI [of _ act] exI [of _ r]) (simp_all add: val_def slot_in_def walk_def effect_value)
    then show ?thesis using res io reliable_rw [OF _ w] by (auto split: if_splits)
  qed
qed

text \<open>One more retraction in front of a result.\<close>

lemma retracted_Cons:
  assumes "retractable ahd (effect_of (commit_at c k))"
    and "retracted exact c ahd ks (v\<lparr> sv_head := w, sv_undone := z \<rparr>) u c' v'"
  shows "retracted exact c ahd (k # ks) v (Suc u) c' v'"
  using assms by (auto simp: retracted_def compensation_due_def standing_def)

lemma compensated_Cons:
  assumes "retractable ahd (effect_of (commit_at c k))"
    and "compensated c ahd a ns ks (v\<lparr> sv_head := w, sv_undone := z \<rparr>) u c' v'"
  shows "compensated c ahd a ns (k # ks) v (Suc u) c' v'"
  using assms by (auto simp: compensated_def compensation_due_def standing_def)

lemma retracted_none:
  assumes "slot_in (unat (sv_next v)) (sv_head v)" "walk c (sv_head v) = ks"
    and "exact \<Longrightarrow> takeWhile (retractable ahd) (effects c ks) = []"
    and "exact \<Longrightarrow> compensation_due ahd (effects c ks) = None"
  shows "retracted exact c ahd ks v 0 c v"
  using assms by (simp add: retracted_def)

text \<open>What one run of the loop leaves, for every fault pattern of the device.\<close>

definition loop_post :: "bool \<Rightarrow> (u64 \<Rightarrow> mem) \<Rightarrow> u32 \<Rightarrow> u32 \<Rightarrow> nat \<Rightarrow> nat list \<Rightarrow> sfar_vars \<Rightarrow> (u64 \<Rightarrow> mem) \<Rightarrow> sfar_vars option \<Rightarrow> bool" where
  "loop_post exact c ahd a ns ks v c' res \<longleftrightarrow>
     (case res of
        None \<Rightarrow> \<exists>r. c' = c \<or> c' = c(1601 + of_nat (unat (sv_next v)) := r)
      | Some v' \<Rightarrow> \<exists>u. unat (sv_undone v') = unat (sv_undone v) + u \<and>
          (retracted exact c ahd ks v u c' v' \<or> compensated c ahd a ns ks v u c' v'))"

lemma loop_post_Cons:
  assumes "retractable ahd (effect_of (commit_at c k))" and "unat (sv_undone v) + 1 < 2 ^ 32"
    and post: "loop_post exact c ahd a ns ks (v\<lparr> sv_head := w, sv_undone := sv_undone v + 1 \<rparr>) c' res"
  shows "loop_post exact c ahd a ns (k # ks) v c' res"
proof (cases res)
  case (Some v')
  have "unat (sv_undone v + 1) = unat (sv_undone v) + 1"
    using assms(2) by (simp add: unat_word_ariths)
  with Some post obtain u where "unat (sv_undone v') = unat (sv_undone v) + Suc u"
    and "retracted exact c ahd ks (v\<lparr> sv_head := w, sv_undone := sv_undone v + 1 \<rparr>) u c' v' \<or>
      compensated c ahd a ns ks (v\<lparr> sv_head := w, sv_undone := sv_undone v + 1 \<rparr>) u c' v'"
    by (auto simp: loop_post_def)
  with Some assms(1) show ?thesis unfolding loop_post_def by (auto intro: retracted_Cons compensated_Cons)
qed (use post in \<open>simp add: loop_post_def\<close>)

lemma sfar_loop_spec:
  assumes dv: "block_device dv content" and "log_ok (content (dev s)) (unat (sv_next v))"
    and "slot_in (unat (sv_next v)) cur" and "sv_head v = cur"
    and "unat (sv_undone v) + length (walk (content (dev s)) cur) = unat count"
  shows "\<exists>res s'. sfar_loop dv ahd from ns count cur v s = Some (res, s') \<and> input s' = input s \<and>
    (reliable dv \<longrightarrow> res \<noteq> None) \<and>
    loop_post (reads_succeed dv) (content (dev s)) ahd (ucast from) ns (walk (content (dev s)) cur) v (content (dev s')) res"
  using assms(2-)
proof (induction "walk (content (dev s)) cur" arbitrary: cur v s)
  case Nil
  then have "cur = NONE" using walk_step(1) [OF Nil.prems(1,2)] by auto
  with Nil.prems show ?case
    by (intro exI [of _ "Some v"] exI [of _ s])
      (auto simp: sfar_loop.simps loop_post_def compensation_due_def standing_def intro!: retracted_none)
next
  case (Cons k ks)
  have cur: "cur \<noteq> NONE" using Cons.hyps(2) by auto
  let ?c = "content (dev s)"
  obtain st s1 where r1: "rw dv (commit_sector cur) False s = (st, s1)" by fastforce
  note rd = read_commit [OF dv Cons.prems(1,2) cur r1] and stp = walk_step [OF Cons.prems(1,2) cur]
  have c1: "content (dev s1) = ?c" "input s1 = input s" using rd by simp_all
  have k: "k = unat cur" and ks: "ks = walk ?c (get_u32 (commit_at ?c (unat cur)) 8)" using Cons.hyps(2) stp(1) by simp_all
  show ?case
  proof (cases "st \<noteq> 0 \<or> get_u32 (data s1) 36 \<noteq> ahd \<or> data s1 44 \<noteq> COMPENSATABLE \<and> data s1 44 \<noteq> REVERSIBLE")
    case True
    then have run: "sfar_loop dv ahd from ns count cur v s = Some (Some v, s1)"
      using cur r1 by (subst sfar_loop.simps) (auto simp: Let_def d_read_u32_def d_read_u8_def)
    have "retracted (reads_succeed dv) ?c ahd (walk ?c cur) v 0 ?c v"
      using True rd(5) [of 36] rd(6) [of 44] reads_succeed_rw [OF _ r1] Cons.prems(2,3)
      by (intro retracted_none) (auto simp: stp(1) retractable_def compensation_due_def standing_def)
    with run c1 show ?thesis unfolding loop_post_def by (auto intro: exI [of _ 0])
  next
    case False
    then have st: "st = 0" and ahd: "get_u32 (data s1) 36 = ahd" by simp_all
    show ?thesis
    proof (cases "data s1 44 = COMPENSATABLE")
      case True
      obtain res s2 where cmp: "sfar_compensate dv ahd from ns count cur v s1 = (res, s2)" by fastforce
      have run: "sfar_loop dv ahd from ns count cur v s = Some (res, s2)"
        using cur r1 st ahd True cmp rd(4) by (subst sfar_loop.simps) (simp add: Let_def d_read_u32_def d_read_u8_def)
      have "input s2 = input s \<and> (reliable dv \<longrightarrow> res \<noteq> None) \<and> loop_post (reads_succeed dv) ?c ahd (ucast from) ns (walk ?c cur) v (content (dev s2)) res"
        using sfar_compensate_spec [OF dv _ Cons.prems(2) cur _ ahd True _ Cons.prems(3) cmp] Cons.prems(1,4) rd(3) st c1
        by (auto simp: loop_post_def retracted_def split: option.splits intro: exI [of _ 0])
      with run show ?thesis by auto
    next
      case nc: False
      let ?p = "get_u32 (commit_at ?c (unat cur)) 8"
      let ?v = "v\<lparr> sv_head := ?p, sv_undone := sv_undone v + 1 \<rparr>"
      have bound: "unat (sv_undone v) + 1 < 2 ^ 32" and u1: "unat (sv_undone v + 1) = unat (sv_undone v) + 1"
        using Cons.prems(4) stp(1) unat_u32_less [of count] by (auto simp: unat_word_ariths)
      have run: "sfar_loop dv ahd from ns count cur v s = sfar_loop dv ahd from ns count ?p ?v s1"
        using cur r1 st ahd nc False rd(4) rd(5) [of 8]
        by (subst sfar_loop.simps) (simp add: Let_def d_read_u32_def d_read_u8_def)
      have "\<exists>res s'. sfar_loop dv ahd from ns count ?p ?v s1 = Some (res, s') \<and> input s' = input s1 \<and>
        (reliable dv \<longrightarrow> res \<noteq> None) \<and>
        loop_post (reads_succeed dv) (content (dev s1)) ahd (ucast from) ns (walk (content (dev s1)) ?p) ?v (content (dev s')) res"
        by (rule Cons.hyps(1)) (use ks c1 Cons.prems stp u1 in simp_all)
      moreover have "retractable ahd (effect_of (commit_at ?c (unat cur)))"
        using ahd nc False rd(5) [of 36] rd(6) [of 44] st by (simp add: retractable_def)
      ultimately show ?thesis
        unfolding run c1 stp(1) using loop_post_Cons [OF _ bound] by blast
    qed
  qed
qed

section \<open>The staged references\<close>

text \<open>The ledger a log and a set of heads stand for, before the superblock records them.\<close>

definition refs_rel :: "(u64 \<Rightarrow> mem) \<Rightarrow> (nat \<Rightarrow> u32) \<Rightarrow> nat \<Rightarrow> ledger \<Rightarrow> bool" where
  "refs_rel c H n L \<longleftrightarrow> log_ok c n \<and> log L = effects c [0..<n] \<and>
     (\<forall>ns < 8. slot_in n (H ns) \<and> stack L ns = effects c (walk c (H ns))) \<and> (\<forall>ns \<ge> 8. stack L ns = [])"

lemma walk_cong:
  assumes same: "\<And>k. k < n \<Longrightarrow> commit_at c' k = commit_at c k" and w: "slot_in n w"
  shows "walk c' w = walk c w" and "effects c' (walk c w) = effects c (walk c w)"
proof -
  have "walk c' w = walk c w \<and> (\<forall>j \<in> set (walk c w). j < n)"
  proof (cases "w = NONE")
    case False
    then have "unat w < n" using w by (simp add: slot_in_def)
    then have "chain (parent_at c') (unat w) = chain (parent_at c) (unat w)"
      by (intro chain_cong) (simp add: parent_at_def same)
    with False \<open>unat w < n\<close> show ?thesis
      by (auto simp: walk_def chain_opt_def slot_opt_def dest: chain_le)
  qed simp
  then show "walk c' w = walk c w" and "effects c' (walk c w) = effects c (walk c w)" by (simp_all add: same)
qed

lemma walk_appended:
  assumes log: "log_ok c n" and n: "n < 255" and r: "commit_ok r n" "slot_in n (get_u32 r 8)" and w: "unat w = n"
  shows "log_ok (c(1601 + of_nat n := r)) (n + 1)"
    and "walk (c(1601 + of_nat n := r)) w = n # walk c (get_u32 r 8)"
    and "k < n \<Longrightarrow> commit_at (c(1601 + of_nat n := r)) k = commit_at c k"
    and "commit_at (c(1601 + of_nat n := r)) n = r"
proof -
  let ?c = "c(1601 + of_nat n := r)"
  show old: "k < n \<Longrightarrow> commit_at ?c k = commit_at c k" for k using n by (simp add: commit_at_upd)
  show new: "commit_at ?c n = r" using n by (simp add: commit_at_upd)
  show ok: "log_ok ?c (n + 1)" using log n r old new by (auto simp: log_ok_def less_Suc_eq)
  have "w \<noteq> NONE" using w n by (auto simp: NONE_def)
  then have "walk ?c w = n # walk ?c (get_u32 r 8)"
    using walk_step(1) [OF ok, of w] w new by (auto simp: slot_in_def)
  with walk_cong(1) [OF old r(2)] show "walk ?c w = n # walk c (get_u32 r 8)" by simp
qed

lemma refs_rel_retracted:
  assumes "refs_rel c H (unat (sv_next v)) L" and "ns < 8"
    and "retracted exact c ahd (walk c (H ns)) v u c' v'"
  shows "refs_rel c' (H(ns := sv_head v')) (unat (sv_next v')) (ledger_rollback ns u L)"
  using assms by (auto simp: refs_rel_def retracted_def ledger_rollback_def drop_map)

lemma standing_drop: "standing ahd es = drop (length (takeWhile (retractable ahd) es)) es"
  by (simp add: standing_def dropWhile_eq_drop)

lemma refs_rel_compensated:
  assumes refs: "refs_rel c H (unat (sv_next v)) L" and ns: "ns < 8"
    and comp: "compensated c ahd a ns (walk c (H ns)) v u c' v'"
  shows "refs_rel c' (H(ns := sv_head v')) (unat (sv_next v')) (mission_rollback_ns ahd a ns L)"
proof -
  let ?n = "unat (sv_next v)" and ?es = "effects c (walk c (H ns))"
  obtain act r where n: "?n < 255" and v': "sv_next v' = sv_next v + 1" "sv_head v' = sv_next v"
    and u: "u = length (takeWhile (retractable ahd) ?es)" and act: "compensation_due ahd ?es = Some act"
    and c': "c' = c(1601 + of_nat ?n := r)" and r: "commit_ok r ?n" "slot_in ?n (get_u32 r 8)"
      "walk c (get_u32 r 8) = drop u (walk c (H ns))"
    and er: "effect_of r = new_effect ns a ahd (e_derived (hd (drop u ?es))) REVERSIBLE COMPENSATION
      (COMPENSATION_PREFIX @ act) (length (walk c (H ns)) - u)"
    using comp by (auto simp: compensated_def)
  have log: "log_ok c ?n" and st: "stack L ns = ?es" and lg: "log L = effects c [0..<?n]"
    using refs ns by (simp_all add: refs_rel_def)
  note app = walk_appended [OF log n r(1,2), folded c', of "sv_next v"]
  have next': "unat (sv_next v') = ?n + 1" using n v' by (simp add: unat_word_ariths)
  have rest: "standing ahd ?es = drop u ?es" by (simp add: standing_drop u)
  have L': "mission_rollback_ns ahd a ns L =
      ledger_push ns (effect_of r) (L\<lparr> stack := (stack L)(ns := drop u ?es) \<rparr>)"
    using act n er lg by (simp add: mission_rollback_ns_def Let_def st rest LOG_CAPACITY_def COMPENSATION_PREFIX_def)
  have "slot_in (?n + 1) (H ns') \<and> effects c' (walk c' (H ns')) = effects c (walk c (H ns'))" if "ns' < 8" for ns'
    using refs that walk_cong [of ?n c' c "H ns'"] app(3) by (auto simp: refs_rel_def slot_in_def less_Suc_eq)
  moreover have "effects c' (walk c' (sv_head v')) = effect_of r # drop u ?es"
    using app(2,4) walk_cong(2) [of ?n c' c "get_u32 r 8"] app(3) r v' by (simp add: drop_map)
  moreover have "effects c' [0..<?n + 1] = log L @ [effect_of r]" using app(3,4) lg by simp
  ultimately show ?thesis
    using refs ns app(1) v' unfolding refs_rel_def next' L'
    by (auto simp: ledger_push_def slot_in_def)
qed

text \<open>
  What a fault may leave of a mission's rollback in one namespace: the whole step, or a prefix
  of the retractions.
\<close>

definition mission_step :: "u32 \<Rightarrow> u32 \<Rightarrow> nat \<Rightarrow> ledger \<Rightarrow> ledger \<Rightarrow> bool" where
  "mission_step ahd a ns L L' \<longleftrightarrow> L' = mission_rollback_ns ahd a ns L \<or>
     (\<exists>u \<le> length (takeWhile (retractable ahd) (stack L ns)). L' = ledger_rollback ns u L)"

fun mission_steps :: "u32 \<Rightarrow> u32 \<Rightarrow> nat list \<Rightarrow> ledger \<Rightarrow> ledger \<Rightarrow> bool" where
  "mission_steps ahd a [] L L' \<longleftrightarrow> L' = L"
| "mission_steps ahd a (ns # nss) L L' \<longleftrightarrow>
     (\<exists>L1. mission_step ahd a ns L L1 \<and> mission_steps ahd a nss L1 L')"

lemma mission_step_frame:
  assumes "mission_step ahd a ns L L'"
  shows "cut_off L' = cut_off L" and "ns' \<noteq> ns \<Longrightarrow> stack L' ns' = stack L ns'"
  using assms by (auto simp: mission_step_def mission_rollback_ns_def ledger_rollback_def ledger_push_def Let_def
      split: option.splits if_splits)

lemma mission_steps_cut: "mission_steps ahd a nss L L' \<Longrightarrow> cut_off L' = cut_off L"
  by (induction nss arbitrary: L) (auto dest: mission_step_frame(1))

text \<open>The staged count of a namespace is its depth, and an untouched namespace keeps its head.\<close>

definition staged :: "(nat \<Rightarrow> u32) \<Rightarrow> (nat \<Rightarrow> u32) \<Rightarrow> sfar_stage \<Rightarrow> ledger \<Rightarrow> nat \<Rightarrow> bool" where
  "staged count H0 g L ns \<longleftrightarrow>
     unat (sat_sub (count ns) (sg_undone g ns) + sg_appended g ns) = length (stack L ns) \<and>
     (sg_undone g ns = 0 \<and> sg_appended g ns = 0 \<longrightarrow> sg_head g ns = H0 ns)"

definition store_vars :: "nat \<Rightarrow> sfar_vars \<Rightarrow> sfar_stage \<Rightarrow> sfar_stage" where
  "store_vars ns v g = g\<lparr> sg_head := (sg_head g)(ns := sv_head v), sg_undone := (sg_undone g)(ns := sv_undone v),
     sg_appended := (sg_appended g)(ns := sv_appended v), sg_next := sv_next v \<rparr>"

text \<open>One namespace: the loop performs a step of the ledger.\<close>

lemma loop_step:
  assumes refs: "refs_rel c (sg_head g) (unat (sg_next g)) L" and ns: "ns < 8"
    and fresh: "sg_undone g ns = 0" "sg_appended g ns = 0" and st: "staged count H0 g L ns"
    and post: "loop_post exact c ahd a ns (walk c (sg_head g ns))
      \<lparr> sv_head = sg_head g ns, sv_undone = sg_undone g ns, sv_appended = sg_appended g ns, sv_next = sg_next g \<rparr>
      c' (Some v)"
  shows "\<exists>L'. refs_rel c' (sg_head (store_vars ns v g)) (unat (sg_next (store_vars ns v g))) L' \<and>
    mission_step ahd a ns L L' \<and> staged count H0 (store_vars ns v g) L' ns \<and>
    (exact \<longrightarrow> L' = mission_rollback_ns ahd a ns L)"
proof -
  let ?v = "\<lparr> sv_head = sg_head g ns, sv_undone = sg_undone g ns, sv_appended = sg_appended g ns, sv_next = sg_next g \<rparr>"
  let ?ks = "walk c (sg_head g ns)"
  obtain u where u: "unat (sv_undone v) = u" and
    res: "retracted exact c ahd ?ks ?v u c' v \<or> compensated c ahd a ns ?ks ?v u c' v"
    using post fresh by (auto simp: loop_post_def)
  have es: "stack L ns = effects c ?ks" using refs ns by (simp add: refs_rel_def)
  have count: "unat (count ns) = length ?ks" and H0: "sg_head g ns = H0 ns"
    using st fresh es by (simp_all add: staged_def sat_sub_def)
  have len: "length ?ks \<le> 255" using refs ns walk_length_le [of c _ "sg_head g ns"] by (auto simp: refs_rel_def)
  have ule: "u \<le> length ?ks" using res length_takeWhile_le [of "retractable ahd" "effects c ?ks"]
    by (auto simp: retracted_def compensated_def)
  have left: "unat (sat_sub (count ns) (sv_undone v)) = length ?ks - u"
    using unat_sat_sub [OF count ule] u by auto
  have log: "length (log L) = unat (sg_next g)" using refs by (simp add: refs_rel_def)
  show ?thesis
    using res
  proof
    assume ret: "retracted exact c ahd ?ks ?v u c' v"
    have refs': "refs_rel c' (sg_head (store_vars ns v g)) (unat (sg_next (store_vars ns v g))) (ledger_rollback ns u L)"
      using refs_rel_retracted [of c "sg_head g" ?v L ns] refs ns ret by (simp add: store_vars_def)
    have "u \<le> length (takeWhile (retractable ahd) (stack L ns))" using ret es by (simp add: retracted_def)
    then have "mission_step ahd a ns L (ledger_rollback ns u L)" by (auto simp: mission_step_def)
    moreover have "staged count H0 (store_vars ns v g) (ledger_rollback ns u L) ns"
      using ret left u H0 es fresh by (auto simp: staged_def store_vars_def retracted_def ledger_rollback_def)
    moreover have "mission_rollback_ns ahd a ns L = ledger_rollback ns u L" if exact
      using ret that log es by (auto simp: retracted_def mission_rollback_ns_def ledger_rollback_def Let_def
          standing_drop LOG_CAPACITY_def split: option.splits)
    ultimately show ?thesis using refs' by auto
  next
    assume cmp: "compensated c ahd a ns ?ks ?v u c' v"
    let ?L = "mission_rollback_ns ahd a ns L"
    have "refs_rel c' (sg_head (store_vars ns v g)) (unat (sg_next (store_vars ns v g))) ?L"
      using refs_rel_compensated [of c "sg_head g" ?v L ns] refs ns cmp by (simp add: store_vars_def)
    moreover have "length (stack ?L ns) = length ?ks - u + 1"
      using cmp log es by (auto simp: compensated_def mission_rollback_ns_def Let_def standing_drop LOG_CAPACITY_def ledger_push_def)
    then have "staged count H0 (store_vars ns v g) ?L ns"
      using cmp left fresh len by (simp add: staged_def store_vars_def compensated_def unat_word_ariths)
    ultimately show ?thesis by (auto simp: mission_step_def)
  qed
qed

lemma loop_post_frame:
  assumes "loop_post exact c ahd a ns ks v c' res"
  shows "k < unat (sv_next v) \<Longrightarrow> commit_at c' k = commit_at c k" and "c' 1600 = c 1600"
    and "res = Some v' \<Longrightarrow> unat (sv_next v) \<le> unat (sv_next v')"
proof -
  have n: "unat (sv_next v) < 2 ^ 32" using unat_u32_less .
  obtain r where c': "c' = c \<or> c' = c(1601 + of_nat (unat (sv_next v)) := r)"
    using assms by (auto simp: loop_post_def retracted_def compensated_def split: option.splits)
  then show "k < unat (sv_next v) \<Longrightarrow> commit_at c' k = commit_at c k"
    using n commit_at_upd [OF n, of k c r] by auto
  show "c' 1600 = c 1600" using c' super_at_upd [OF n, of c r] by (auto simp only:)
  show "res = Some v' \<Longrightarrow> unat (sv_next v) \<le> unat (sv_next v')"
    using assms by (auto simp: loop_post_def retracted_def compensated_def unat_word_ariths)
qed

lemma sfar_each_spec:
  assumes dv: "block_device dv content" and "refs_rel (content (dev s)) (sg_head g) (unat (sg_next g)) L"
    and "\<forall>ns < 8. staged count H0 g L ns"
    and "\<forall>ns \<in> set nss. ns < 8 \<and> sg_undone g ns = 0 \<and> sg_appended g ns = 0" and "distinct nss"
  shows "\<exists>res s'. sfar_each dv ahd from count nss g s = Some (res, s') \<and> input s' = input s \<and>
    (reliable dv \<longrightarrow> res \<noteq> None) \<and>
    (\<forall>k < unat (sg_next g). commit_at (content (dev s')) k = commit_at (content (dev s)) k) \<and>
    content (dev s') 1600 = content (dev s) 1600 \<and>
    (\<forall>g'. res = Some g' \<longrightarrow> (\<exists>L'. refs_rel (content (dev s')) (sg_head g') (unat (sg_next g')) L' \<and>
       mission_steps ahd (ucast from) nss L L' \<and> (\<forall>ns < 8. staged count H0 g' L' ns) \<and>
       (reads_succeed dv \<longrightarrow> L' = fold (mission_rollback_ns ahd (ucast from)) nss L)))"
  using assms(2-)
proof (induction nss arbitrary: g s L)
  case (Cons ns nss)
  let ?v = "\<lparr> sv_head = sg_head g ns, sv_undone = sg_undone g ns, sv_appended = sg_appended g ns, sv_next = sg_next g \<rparr>"
  let ?c = "content (dev s)"
  have ns: "ns < 8" and fresh: "sg_undone g ns = 0" "sg_appended g ns = 0" and st: "staged count H0 g L ns"
    using Cons.prems by simp_all
  have es: "stack L ns = effects ?c (walk ?c (sg_head g ns))" and slot: "slot_in (unat (sg_next g)) (sg_head g ns)"
    and log: "log_ok ?c (unat (sg_next g))" using Cons.prems(1) ns by (simp_all add: refs_rel_def)
  have len: "unat (sg_undone g ns) + length (walk ?c (sg_head g ns)) = unat (count ns)"
    using st fresh es by (simp add: staged_def sat_sub_def)
  have "\<exists>res s'. sfar_loop dv ahd from ns (count ns) (sg_head g ns) ?v s = Some (res, s') \<and> input s' = input s \<and>
      (reliable dv \<longrightarrow> res \<noteq> None) \<and>
      loop_post (reads_succeed dv) ?c ahd (ucast from) ns (walk ?c (sg_head g ns)) ?v (content (dev s')) res"
    by (rule sfar_loop_spec [OF dv]) (use slot log len in simp_all)
  then obtain res s1 where run: "sfar_loop dv ahd from ns (count ns) (sg_head g ns) ?v s = Some (res, s1)"
    and i1: "input s1 = input s" and ok: "reliable dv \<longrightarrow> res \<noteq> None"
    and post: "loop_post (reads_succeed dv) ?c ahd (ucast from) ns (walk ?c (sg_head g ns)) ?v (content (dev s1)) res"
    by blast
  note frame = loop_post_frame [OF post]
  show ?case
  proof (cases res)
    case None
    with run i1 frame ok show ?thesis by simp
  next
    case (Some v)
    let ?g = "store_vars ns v g"
    have run': "sfar_each dv ahd from count (ns # nss) g s = sfar_each dv ahd from count nss ?g s1"
      using run Some by (simp add: store_vars_def)
    obtain L1 where refs: "refs_rel (content (dev s1)) (sg_head ?g) (unat (sg_next ?g)) L1"
      and step: "mission_step ahd (ucast from) ns L L1" and st1: "staged count H0 ?g L1 ns"
      and exact: "reads_succeed dv \<longrightarrow> L1 = mission_rollback_ns ahd (ucast from) ns L"
      using loop_step [OF Cons.prems(1) ns fresh st post [unfolded Some]] by blast
    have others: "staged count H0 ?g L1 ns'" if "ns' < 8" for ns'
      using that st1 Cons.prems(2) mission_step_frame(2) [OF step, of ns']
      by (cases "ns' = ns") (auto simp: staged_def store_vars_def)
    have le: "unat (sg_next g) \<le> unat (sg_next ?g)" using frame(3) [OF Some] by (simp add: store_vars_def)
    have "\<forall>ns' < 8. staged count H0 ?g L1 ns'"
      and "\<forall>ns' \<in> set nss. ns' < 8 \<and> sg_undone ?g ns' = 0 \<and> sg_appended ?g ns' = 0" and "distinct nss"
      using others Cons.prems(3,4) by (auto simp: store_vars_def)
    from Cons.IH [OF refs this] obtain res2 s2 where rest: "sfar_each dv ahd from count nss ?g s1 = Some (res2, s2)"
      "input s2 = input s1" "content (dev s2) 1600 = content (dev s1) 1600" "reliable dv \<longrightarrow> res2 \<noteq> None"
      "\<forall>k < unat (sg_next ?g). commit_at (content (dev s2)) k = commit_at (content (dev s1)) k"
      and out: "\<forall>g'. res2 = Some g' \<longrightarrow> (\<exists>L'. refs_rel (content (dev s2)) (sg_head g') (unat (sg_next g')) L' \<and>
        mission_steps ahd (ucast from) nss L1 L' \<and> (\<forall>ns < 8. staged count H0 g' L' ns) \<and>
        (reads_succeed dv \<longrightarrow> L' = fold (mission_rollback_ns ahd (ucast from)) nss L1))"
      by blast
    have "\<forall>k < unat (sg_next g). commit_at (content (dev s2)) k = commit_at ?c k"
      using rest(5) frame(1) le by auto
    moreover have "\<forall>g'. res2 = Some g' \<longrightarrow> (\<exists>L'. refs_rel (content (dev s2)) (sg_head g') (unat (sg_next g')) L' \<and>
        mission_steps ahd (ucast from) (ns # nss) L L' \<and> (\<forall>ns < 8. staged count H0 g' L' ns) \<and>
        (reads_succeed dv \<longrightarrow> L' = fold (mission_rollback_ns ahd (ucast from)) (ns # nss) L))"
      using out step exact by fastforce
    ultimately show ?thesis using run' rest(1-4) i1 frame(2) by auto
  qed
qed auto

section \<open>Recording the rollback\<close>

lemma sfar_write_ns_fields:
  assumes "s' = sfar_write_ns count g ns s"
  shows "dev s' = dev s \<and> input s' = input s \<and> sup_next (data s') = sup_next (data s) \<and>
    mem_read (data s') 0 8 = mem_read (data s) 0 8 \<and> sup_cut (data s') = sup_cut (data s) \<and>
    sup_head (data s') = (sup_head (data s))(ns := if sg_undone g ns > 0 \<or> sg_appended g ns > 0
      then slot_opt (sg_head g ns) else sup_head (data s) ns) \<and>
    sup_count (data s') = (sup_count (data s))(ns := if sg_undone g ns > 0 \<or> sg_appended g ns > 0
      then unat (sat_sub (count ns) (sg_undone g ns) + sg_appended g ns) else sup_count (data s) ns)"
  unfolding assms sfar_write_ns_def by (auto simp: d_write_u32_def cairn_ns_entry_off_def fun_eq_iff)

lemma sfar_write_fields:
  assumes "distinct nss"
  shows "dev (fold (sfar_write_ns count g) nss s) = dev s \<and> input (fold (sfar_write_ns count g) nss s) = input s \<and>
    mem_read (data (fold (sfar_write_ns count g) nss s)) 0 8 = mem_read (data s) 0 8 \<and>
    sup_cut (data (fold (sfar_write_ns count g) nss s)) = sup_cut (data s) \<and>
    (\<forall>ns. sup_head (data (fold (sfar_write_ns count g) nss s)) ns =
      (if ns \<in> set nss \<and> (sg_undone g ns > 0 \<or> sg_appended g ns > 0) then slot_opt (sg_head g ns) else sup_head (data s) ns) \<and>
     sup_count (data (fold (sfar_write_ns count g) nss s)) ns =
      (if ns \<in> set nss \<and> (sg_undone g ns > 0 \<or> sg_appended g ns > 0)
       then unat (sat_sub (count ns) (sg_undone g ns) + sg_appended g ns) else sup_count (data s) ns))"
  using assms
proof (induction nss arbitrary: s)
  case (Cons ns nss)
  show ?case
    using Cons.IH [of "sfar_write_ns count g ns s"] Cons.prems sfar_write_ns_fields [OF refl, of count g ns s] by auto
qed simp

lemma stage_refs:
  assumes refs: "refs_rel c (sg_head g) (unat (sg_next g)) L'" and cut: "cut_off L' = cut_off L"
    and st: "\<forall>ns < 8. staged count (sup_heads m) g L' ns" and count: "\<forall>ns < 8. unat (count ns) = sup_count m ns"
    and live: "live_rel c0 m L" and win: "sector_of (data s) = sector_of m"
  shows "live_rel c (data (d_write_u32 8 (sg_next g) (fold (sfar_write_ns count g) [0..<8] s))) L'"
proof -
  let ?s = "fold (sfar_write_ns count g) [0..<8] s"
  note w = sfar_write_fields [of "[0..<8]" count g s]
  have old: "sup_head (data s) ns = sup_head m ns" "sup_count (data s) ns = sup_count m ns"
    "sup_cut (data s) ns = sup_cut m ns" if "ns < 8" for ns
    using that sup_sector_of(2-4) [of ns "data s"] sup_sector_of(2-4) [of ns m] win by simp_all
  have magic: "mem_read (data s) 0 8 = mem_read m 0 8"
    using win mem_read_sector_of [of 0 8 "data s"] mem_read_sector_of [of 0 8 m] by simp
  have head: "sup_head (data ?s) ns = slot_opt (sg_head g ns)" and cnt: "sup_count (data ?s) ns = length (stack L' ns)"
    if "ns < 8" for ns
  proof -
    have wns: "sup_head (data ?s) ns = (if sg_undone g ns = 0 \<and> sg_appended g ns = 0 then sup_head m ns else slot_opt (sg_head g ns))"
      "sup_count (data ?s) ns = (if sg_undone g ns = 0 \<and> sg_appended g ns = 0 then sup_count m ns
        else unat (sat_sub (count ns) (sg_undone g ns) + sg_appended g ns))"
      using that w old [OF that] by (simp_all add: word_neq_0_conv [symmetric])
    have "staged count (sup_heads m) g L' ns" using st that by simp
    then show "sup_head (data ?s) ns = slot_opt (sg_head g ns)" "sup_count (data ?s) ns = length (stack L' ns)"
      using wns count that by (auto simp: staged_def sup_heads_eq sup_head_def sat_sub_def)
  qed
  have "ns_rel c (put_u32 8 (sg_next g) (data ?s)) ns L'" if "ns < 8" for ns
    using that head [OF that] cnt [OF that] refs w old [OF that] live cut
    by (auto simp: ns_rel_def refs_rel_def slot_in_def walk_def live_rel_def)
  then show ?thesis
    using refs w magic live cut by (auto simp: live_rel_def refs_rel_def log_ok_def d_write_u32_def)
qed

text \<open>
  Every call returns, on every store and under every fault pattern. Either the ledger is the
  old one, or every namespace has made its step, or part of it when a read failed.
\<close>

definition rolled :: "bool \<Rightarrow> u32 \<Rightarrow> u32 \<Rightarrow> ledger \<Rightarrow> ledger \<Rightarrow> bool" where
  "rolled exact ahd a L L' \<longleftrightarrow> mission_steps ahd a [0..<8] L L' \<and> (exact \<longrightarrow> L' = mission_rollback ahd a L)"

definition rollback_post :: "bool \<Rightarrow> u32 \<Rightarrow> u64 \<Rightarrow> u64 \<Rightarrow> ledger \<Rightarrow> u64 \<Rightarrow> (u64 \<Rightarrow> mem) \<Rightarrow> bool" where
  "rollback_post exact ahd caps from L st c \<longleftrightarrow>
     (st = IPC_STATUS_BAD_REQUEST \<and> ahd = 0 \<and> store_rel c L) \<or>
     (st = IPC_STATUS_DENIED \<and> ahd \<noteq> 0 \<and> (exact \<longrightarrow> \<not> mission_authority ahd caps L) \<and> store_rel c L) \<or>
     (st = IPC_STATUS_OK \<and> ahd \<noteq> 0 \<and> (exact \<longrightarrow> mission_authority ahd caps L) \<and>
        (\<exists>L'. rolled exact ahd (ucast from) L L' \<and> store_rel c L')) \<or>
     (st = IPC_STATUS_IO_FAILURE \<and> ahd \<noteq> 0 \<and>
        (store_rel c L \<or> (exact \<longrightarrow> mission_authority ahd caps L) \<and>
           (\<exists>L'. rolled exact ahd (ucast from) L L' \<and> store_rel c L')))"

text \<open>The second half of the call: the loops, then one superblock write.\<close>

definition sfar_tail :: "'d device \<Rightarrow> (nat \<Rightarrow> u32) \<Rightarrow> (sfar_stage option \<times> 'd blk) option \<Rightarrow> (u64 \<times> 'd blk) option" where
  "sfar_tail dv count r =
     (case r of
        None \<Rightarrow> None
      | Some (None, s) \<Rightarrow> Some (IPC_STATUS_IO_FAILURE, s)
      | Some (Some g, s) \<Rightarrow>
          let (ok, s) = cairn_load_super dv s in
          if \<not> ok then Some (IPC_STATUS_IO_FAILURE, s)
          else let (st, s) = rw dv 1600 True (d_write_u32 8 (sg_next g) (fold (sfar_write_ns count g) [0..<8] s)) in
            if st \<noteq> 0 then Some (IPC_STATUS_IO_FAILURE, s) else Some (IPC_STATUS_OK, s))"

lemma sfar_finish:
  assumes dv: "block_device dv content" and ld: "loaded content L s1" and c2: "content (dev s2) = content (dev s1)"
    and ahd: "ahd \<noteq> 0" and auth: "reads_succeed dv \<Longrightarrow> mission_authority ahd caps L"
    and count: "\<forall>ns < 8. count ns = get_u32 (data s1) (36 + ns * 32)"
    and g: "g = \<lparr> sg_head = sup_heads (data s1), sg_undone = (\<lambda>_. 0), sg_appended = (\<lambda>_. 0), sg_next = get_u32 (data s1) 8 \<rparr>"
  shows "\<exists>st s'. sfar_tail dv count (sfar_each dv ahd from count [0..<8] g s2) = Some (st, s') \<and> input s' = input s2 \<and>
    (reliable dv \<longrightarrow> st \<noteq> IPC_STATUS_IO_FAILURE) \<and> rollback_post (reads_succeed dv) ahd caps from L st (content (dev s'))"
proof -
  have live: "live_rel (content (dev s2)) (data s1) L" using ld c2 by (simp add: loaded_def)
  have refs: "refs_rel (content (dev s2)) (sg_head g) (unat (sg_next g)) L"
    using live live_walk [OF live] by (auto simp: g refs_rel_def live_rel_def log_ok_def sup_heads_eq sup_next_def)
  have st: "\<forall>ns < 8. staged count (sup_heads (data s1)) g L ns"
    using count live_walk [OF live] by (auto simp: g staged_def sat_sub_def)
  have "\<forall>ns \<in> set [0..<8]. ns < 8 \<and> sg_undone g ns = 0 \<and> sg_appended g ns = 0" by (simp add: g)
  from sfar_each_spec [OF dv refs st this distinct_upt, of ahd "from"] obtain res s3 where e:
    "sfar_each dv ahd from count [0..<8] g s2 = Some (res, s3)" "input s3 = input s2"
    "\<forall>k < unat (sg_next g). commit_at (content (dev s3)) k = commit_at (content (dev s2)) k"
    "content (dev s3) 1600 = content (dev s2) 1600" "reliable dv \<longrightarrow> res \<noteq> None"
    and out: "\<forall>g'. res = Some g' \<longrightarrow> (\<exists>L'. refs_rel (content (dev s3)) (sg_head g') (unat (sg_next g')) L' \<and>
       mission_steps ahd (ucast from) [0..<8] L L' \<and> (\<forall>ns < 8. staged count (sup_heads (data s1)) g' L' ns) \<and>
       (reads_succeed dv \<longrightarrow> L' = fold (mission_rollback_ns ahd (ucast from)) [0..<8] L))"
    by blast
  have live3: "live_rel (content (dev s3)) (data s1) L"
    using e(3) by (intro live_rel_cong [OF _ live]) (simp add: g sup_next_def)
  have sup3: "content (dev s3) 1600 = sector_of (data s1)" using e(4) c2 ld by (simp add: loaded_def)
  have rel3: "store_rel (content (dev s3)) L" using store_rel_super [OF live3] sup3 by (simp only: fun_upd_idem)
  have fmt3: "formatted (content (dev s3))" using live3 sup3 by (simp add: formatted_def live_rel_def)
  show ?thesis
  proof (cases res)
    case None
    with e rel3 ahd show ?thesis by (simp add: sfar_tail_def rollback_post_def)
  next
    case (Some g')
    obtain ok s4 where l4: "cairn_load_super dv s3 = (ok, s4)" by fastforce
    note f4 = loaded_again [OF dv rel3 fmt3 l4]
    let ?s = "d_write_u32 8 (sg_next g') (fold (sfar_write_ns count g') [0..<8] s4)"
    obtain st5 s5 where w5: "rw dv 1600 True ?s = (st5, s5)" by fastforce
    obtain L' where L': "refs_rel (content (dev s3)) (sg_head g') (unat (sg_next g')) L'"
      "\<forall>ns < 8. staged count (sup_heads (data s1)) g' L' ns" and rl: "rolled (reads_succeed dv) ahd (ucast from) L L'"
      using out Some by (auto simp: rolled_def mission_rollback_def)
    have dev: "dev ?s = dev s4" "input ?s = input s4" using sfar_write_fields [of "[0..<8]" count g' s4] by (simp_all add: d_write_u32_def)
    show ?thesis
    proof (cases ok)
      case True
      have "sector_of (data s4) = sector_of (data s1)" using f4(2,4) True sup3 by (simp add: loaded_def)
      moreover have "cut_off L' = cut_off L" using rl by (auto simp: rolled_def intro: mission_steps_cut)
      moreover have "\<forall>ns < 8. unat (count ns) = sup_count (data s1) ns" using count by (simp add: sup_count_def)
      ultimately have new: "live_rel (content (dev ?s)) (data ?s) L'"
        using stage_refs [OF L'(1) _ L'(2) _ live3, of s4] f4(2) dev by simp
      have "store_rel (content (dev s5)) L' \<or> st5 \<noteq> 0 \<and> store_rel (content (dev s5)) L"
        by (rule super_write [OF dv _ new w5]) (use f4 dev in simp)
      moreover have "input s5 = input s2" using rw_write [OF dv w5] dev f4 e by simp
      moreover have "sfar_tail dv count (sfar_each dv ahd from count [0..<8] g s2) =
          Some (if st5 \<noteq> 0 then IPC_STATUS_IO_FAILURE else IPC_STATUS_OK, s5)"
        using e(1) Some l4 True w5 by (simp add: sfar_tail_def)
      ultimately show ?thesis using ahd auth rl reliable_rw [OF _ w5] by (auto simp: rollback_post_def status_defs)
    next
      case False
      then show ?thesis using e Some l4 f4 ahd reliable_load_super [OF _ l4] by (auto simp: sfar_tail_def rollback_post_def)
    qed
  qed
qed

lemma sfar_rollback_spec:
  assumes dv: "block_device dv content" and rel: "store_rel (content (dev s)) L"
  shows "\<exists>st s'. sfar_rollback dv ahd caps from s = Some (st, s') \<and> input s' = input s \<and>
    (reliable dv \<longrightarrow> st \<noteq> IPC_STATUS_IO_FAILURE) \<and> rollback_post (reads_succeed dv) ahd caps from L st (content (dev s'))"
proof -
  obtain ok1 s1 where l1: "cairn_load_super dv s = (ok1, s1)" by fastforce
  note f1 = load_super_spec [OF dv rel l1]
  show ?thesis
  proof (cases "ahd = 0 \<or> \<not> ok1")
    case True
    then show ?thesis
      using l1 f1 rel reliable_load_super [OF _ l1] by (auto simp: sfar_rollback_def rollback_post_def Let_def status_defs)
  next
    case False
    then have ahd: "ahd \<noteq> 0" and ok1 and ld: "loaded content L s1" using f1 by auto
    then have live: "live_rel (content (dev s1)) (data s1) L" by (simp add: loaded_def)
    let ?count = "\<lambda>ns. get_u32 (data s1) (cairn_ns_entry_off ns + 20)"
    let ?g = "\<lparr> sg_head = sup_heads (data s1), sg_undone = (\<lambda>_. 0), sg_appended = (\<lambda>_. 0), sg_next = d_read_u32 8 s1 \<rparr>"
    obtain touched s2 where w2: "sfar_touched_ns dv ahd (sup_heads (data s1)) s1 = (touched, s2)" by fastforce
    note f2 = sfar_touched_spec [OF dv ld w2]
    have run: "sfar_rollback dv ahd caps from s =
      (if touched \<noteq> 0 \<and> \<not> sfar_authorized touched caps then Some (IPC_STATUS_DENIED, s2)
       else sfar_tail dv ?count (sfar_each dv ahd from ?count [0..<8] ?g s2))"
      using l1 w2 ahd \<open>ok1\<close> by (simp add: sfar_rollback_def sfar_tail_def Let_def cairn_consts cong: if_cong option.case_cong)
    show ?thesis
    proof (cases "touched \<noteq> 0 \<and> \<not> sfar_authorized touched caps")
      case True
      with run f2(1,2) f2(4) [of caps] ahd loaded_store_rel [OF ld] f1 show ?thesis by (auto simp: rollback_post_def status_defs)
    next
      case False
      have auth: "reads_succeed dv \<Longrightarrow> mission_authority ahd caps L" using f2(4) [of caps] False by simp
      show ?thesis
        unfolding run if_not_P [OF False]
        using sfar_finish [OF dv ld f2(1) ahd auth, of ?count ?g "from"] f1 f2(2)
        by (simp add: cairn_ns_entry_off_def d_read_u32_def)
    qed
  qed
qed

section \<open>Missions on the disk\<close>

text \<open>
  C10. On every well-formed store, one whose commits link only to earlier commits, and under every
  pattern of device faults, a mission's rollback returns, although its loop has no guard, and leaves
  the old ledger or a step of every namespace.
\<close>

theorem mission_rollback_terminates:
  assumes "block_device dv content" and "store_rel (content (dev s)) L"
  shows "\<exists>st s' L'. sfar_rollback dv ahd caps from s = Some (st, s') \<and> store_rel (content (dev s')) L' \<and>
    (L' = L \<or> mission_steps ahd (ucast from) [0..<8] L L')"
  using sfar_rollback_spec [OF assms, of ahd caps "from"] by (auto simp: rollback_post_def rolled_def)

theorem mission_rollback_terminates_witness:
  "\<exists>st s' L'. sfar_rollback ramdisk_io 7 0 5 \<lparr> dev = faulty_disk, data = (\<lambda>_. 0), input = (\<lambda>_. 0) \<rparr> = Some (st, s') \<and>
    store_rel (ramdisk_content (dev s')) L' \<and> (L' = empty_ledger \<or> mission_steps 7 5 [0..<8] empty_ledger L')"
  using mission_rollback_terminates [OF ramdisk_block_device,
      of "\<lparr> dev = faulty_disk, data = (\<lambda>_. 0), input = (\<lambda>_. 0) \<rparr>" empty_ledger 7 0 5] faulty_store by simp

text \<open>
  C7. On a device without faults a mission's rollback needs the capability of every namespace
  the mission touched, refuses before changing anything otherwise, and then retracts and
  compensates exactly as the ledger's mission rollback.
\<close>

theorem mission_rollback_exact:
  assumes "reliable dv" and "block_device dv content" and "store_rel (content (dev s)) L"
  shows "\<exists>s'. sfar_rollback dv ahd caps from s =
      Some (if ahd = 0 then IPC_STATUS_BAD_REQUEST
            else if mission_authority ahd caps L then IPC_STATUS_OK else IPC_STATUS_DENIED, s') \<and>
    store_rel (content (dev s'))
      (if ahd \<noteq> 0 \<and> mission_authority ahd caps L then mission_rollback ahd (ucast from) L else L)"
  using sfar_rollback_spec [OF assms(2,3), of ahd caps "from"] reliable_reads [OF assms(1)] assms(1)
  by (auto simp: rollback_post_def rolled_def)

theorem mission_rollback_exact_witness:
  "\<exists>s'. sfar_rollback plain_disk_io 7 0 5 \<lparr> dev = blank_disk, data = (\<lambda>_. 0), input = (\<lambda>_. 0) \<rparr> =
      Some (if (7 :: u32) = 0 then IPC_STATUS_BAD_REQUEST
            else if mission_authority 7 0 empty_ledger then IPC_STATUS_OK else IPC_STATUS_DENIED, s') \<and>
    store_rel (plain_content (dev s'))
      (if (7 :: u32) \<noteq> 0 \<and> mission_authority 7 0 empty_ledger then mission_rollback 7 (ucast (5 :: u64)) empty_ledger else empty_ledger)"
  using mission_rollback_exact [OF plain_disk_reliable plain_disk_block_device,
      of "\<lparr> dev = blank_disk, data = (\<lambda>_. 0), input = (\<lambda>_. 0) \<rparr>" empty_ledger 7 0 5] blank_store by simp

definition mission_class :: "u32 \<Rightarrow> ledger \<Rightarrow> (u8 \<Rightarrow> bool) \<Rightarrow> nat" where
  "mission_class ahd L P = length (filter (\<lambda>e. e_intent e = ahd \<and> P (e_class e)) (mission_effects L))"

lemma tally_of_counts:
  "t_reversible (tally_of ahd es t) = t_reversible t + length (filter (\<lambda>e. e_intent e = ahd \<and> e_class e = REVERSIBLE) es)"
  "t_compensatable (tally_of ahd es t) = t_compensatable t + length (filter (\<lambda>e. e_intent e = ahd \<and> e_class e = COMPENSATABLE) es)"
  "t_irreversible (tally_of ahd es t) = t_irreversible t + length (filter (\<lambda>e. e_intent e = ahd \<and> e_class e = IRREVERSIBLE) es)"
  "t_unknown (tally_of ahd es t) = t_unknown t +
     length (filter (\<lambda>e. e_intent e = ahd \<and> e_class e \<notin> {REVERSIBLE, COMPENSATABLE, IRREVERSIBLE}) es)"
proof -
  have step: "tally_of ahd (e # es) t = tally_of ahd es (if e_intent e = ahd then tally_add (e_class e) t else t)" for e es t
    by (simp add: tally_of_def)
  have nil: "tally_of ahd [] t = t" for t by (simp add: tally_of_def)
  show "t_reversible (tally_of ahd es t) = t_reversible t + length (filter (\<lambda>e. e_intent e = ahd \<and> e_class e = REVERSIBLE) es)"
    by (induction es arbitrary: t) (simp_all add: step nil tally_add_def)
  show "t_compensatable (tally_of ahd es t) = t_compensatable t + length (filter (\<lambda>e. e_intent e = ahd \<and> e_class e = COMPENSATABLE) es)"
    by (induction es arbitrary: t) (simp_all add: step nil tally_add_def rev_defs)
  show "t_irreversible (tally_of ahd es t) = t_irreversible t + length (filter (\<lambda>e. e_intent e = ahd \<and> e_class e = IRREVERSIBLE) es)"
    by (induction es arbitrary: t) (simp_all add: step nil tally_add_def rev_defs)
  show "t_unknown (tally_of ahd es t) = t_unknown t +
     length (filter (\<lambda>e. e_intent e = ahd \<and> e_class e \<notin> {REVERSIBLE, COMPENSATABLE, IRREVERSIBLE}) es)"
    by (induction es arbitrary: t) (simp_all add: step nil tally_add_def)
qed

text \<open>
  C19. On a device whose transfers succeed, the rollback forecast counts, for each reversibility class, exactly the mission's
  standing effects of that class over all namespaces, and is refused without their capabilities.
\<close>

theorem forecast_exact:
  assumes "reliable dv" and "block_device dv content" and "store_rel (content (dev s)) L" and "ahd \<noteq> 0"
    and "sfar_plan dv ahd caps s = ((st, t), s')"
  shows "if mission_authority ahd caps L
    then t_reversible t = mission_class ahd L (\<lambda>c. c = REVERSIBLE) \<and>
      t_compensatable t = mission_class ahd L (\<lambda>c. c = COMPENSATABLE) \<and>
      t_irreversible t = mission_class ahd L (\<lambda>c. c = IRREVERSIBLE) \<and>
      t_unknown t = mission_class ahd L (\<lambda>c. c \<notin> {REVERSIBLE, COMPENSATABLE, IRREVERSIBLE}) \<and>
      (st = IPC_STATUS_OK \<longleftrightarrow> (\<exists>e \<in> set (mission_effects L). e_intent e = ahd))
    else st = IPC_STATUS_DENIED"
proof -
  have tally: "if mission_authority ahd caps L
       then t = tally_of ahd (mission_effects L) no_tally \<and>
         st = (if tally_total t = 0 then IPC_STATUS_UNAVAILABLE else IPC_STATUS_OK)
       else st = IPC_STATUS_DENIED"
    by (rule sfar_plan_spec(2) [OF assms(2,3,5) reliable_reads [OF assms(1)] assms(4)])
      (rule sfar_queries_reliable(1) [OF assms(1,5)])
  have "tally_total (tally_of ahd es no_tally) = 0 \<longleftrightarrow> (\<forall>e \<in> set es. e_intent e \<noteq> ahd)" for es
    by (auto simp: tally_total_def tally_of_counts no_tally_def filter_empty_conv)
  with tally show ?thesis
    by (auto simp: mission_class_def tally_of_counts no_tally_def status_defs split: if_splits)
qed

theorem forecast_exact_witness:
  "\<exists>st t s'. sfar_plan plain_disk_io 7 0xff00 \<lparr> dev = blank_disk, data = (\<lambda>_. 0), input = (\<lambda>_. 0) \<rparr> = ((st, t), s') \<and>
    t_reversible t = 0 \<and> st \<noteq> IPC_STATUS_OK"
proof -
  let ?s = "\<lparr> dev = blank_disk, data = (\<lambda>_. 0), input = (\<lambda>_. 0) \<rparr>"
  obtain st t s' where run: "sfar_plan plain_disk_io 7 0xff00 ?s = ((st, t), s')" by (metis surj_pair)
  have "mission_authority 7 0xff00 empty_ledger" "mission_effects empty_ledger = []"
    by (simp_all add: mission_authority_def mission_touches_def mission_effects_def empty_ledger_def)
  with forecast_exact [OF plain_disk_reliable plain_disk_block_device _ _ run, of empty_ledger] run blank_store
  show ?thesis by (auto simp: mission_class_def)
qed

lemma mission_rollback_buried:
  assumes "\<forall>ns. \<forall>e es. stack L ns = e # es \<longrightarrow> e_intent e \<noteq> ahd"
  shows "mission_rollback ahd a L = L"
proof -
  have "mission_rollback_ns ahd a ns L = L" for ns
  proof -
    have keep: "standing ahd es = es \<and> compensation_due ahd es = None" if "\<And>e es'. es = e # es' \<Longrightarrow> e_intent e \<noteq> ahd" for es
      using that by (cases es) (auto simp: standing_def compensation_due_def retractable_def)
    show ?thesis using keep [of "stack L ns"] assms by (simp add: mission_rollback_ns_def)
  qed
  then have "fold (mission_rollback_ns ahd a) nss L = L" for nss by (induction nss) simp_all
  then show ?thesis by (simp add: mission_rollback_def)
qed

text \<open>
  C30. The forecast can promise more than the rollback does: when every namespace that the
  mission touched has an effect of another intent on top, the forecast calls the mission
  fully reversible and the rollback, answered \<open>OK\<close>, undoes nothing.
\<close>

theorem forecast_overpromises:
  assumes "reliable dv" and "block_device dv content" and "store_rel (content (dev s)) L" and "ahd \<noteq> 0"
    and "mission_authority ahd caps L" and "\<forall>e \<in> set (mission_effects L). e_intent e = ahd \<longrightarrow> e_class e = REVERSIBLE"
    and "\<forall>ns. \<forall>e es. stack L ns = e # es \<longrightarrow> e_intent e \<noteq> ahd"
    and "sfar_plan dv ahd caps s = ((st, t), s1)"
  shows "t_reversible t = length (filter (\<lambda>e. e_intent e = ahd) (mission_effects L)) \<and>
    t_compensatable t = 0 \<and> t_irreversible t = 0 \<and> t_unknown t = 0 \<and>
    (\<exists>s'. sfar_rollback dv ahd caps from s = Some (IPC_STATUS_OK, s') \<and> store_rel (content (dev s')) L)"
proof -
  have "sfar_rollback dv ahd caps from s = Some (IPC_STATUS_OK, s') \<and> store_rel (content (dev s')) L"
    if "sfar_rollback dv ahd caps from s = Some (st', s')" for st' s'
    using sfar_rollback_spec [OF assms(2,3), of ahd caps "from"] reliable_reads [OF assms(1)] assms(1,4,5) that
      mission_rollback_buried [OF assms(7)]
    by (auto simp: rollback_post_def rolled_def)
  then have roll: "\<exists>s'. sfar_rollback dv ahd caps from s = Some (IPC_STATUS_OK, s') \<and> store_rel (content (dev s')) L"
    using sfar_rollback_spec [OF assms(2,3), of ahd caps "from"] by blast
  have "t = tally_of ahd (mission_effects L) no_tally"
    using sfar_plan_spec(2) [OF assms(2,3,8) reliable_reads [OF assms(1)] assms(4)]
      sfar_queries_reliable(1) [OF assms(1,8)] assms(5) by simp
  moreover have "filter (\<lambda>e. e_intent e = ahd \<and> e_class e = REVERSIBLE) (mission_effects L) = filter (\<lambda>e. e_intent e = ahd) (mission_effects L)"
    using assms(6) by (auto intro: filter_cong)
  ultimately show ?thesis
    using roll assms(6) by (auto simp: tally_of_counts no_tally_def filter_empty_conv rev_defs)
qed

theorem forecast_overpromises_witness:
  "\<exists>s st t s1. sfar_plan plain_disk_io 7 0xff00 s = ((st, t), s1) \<and> t_reversible t = 1 \<and> t_irreversible t = 0 \<and>
    (\<exists>s' L. sfar_rollback plain_disk_io 7 0xff00 5 s = Some (IPC_STATUS_OK, s') \<and>
       store_rel (plain_content (dev s')) L \<and> map e_intent (stack L 2) = [0, 7])"
proof -
  let ?s = "\<lparr> dev = blank_disk, data = (\<lambda>_. 0), input = (\<lambda>_. 65) \<rparr>"
  obtain st1 s1 where c1: "cairn_commit plain_disk_io 2 3 5 7 1 REVERSIBLE ?s = (st1, s1)" by fastforce
  obtain st2 s2 where c2: "cairn_commit plain_disk_io 2 3 5 0 1 REVERSIBLE s1 = (st2, s2)" by fastforce
  define L1 where "L1 = ledger_commit 2 (mem_read (input ?s) 0 (min 3 447)) (ucast (5 :: u64)) 7 1 REVERSIBLE empty_ledger"
  define L2 where "L2 = ledger_commit 2 (mem_read (input s1) 0 (min 3 447)) (ucast (5 :: u64)) 0 1 REVERSIBLE L1"
  have log: "length (log empty_ledger) < LOG_CAPACITY" "length (log L1) < LOG_CAPACITY"
    by (simp_all add: L1_def ledger_commit_def ledger_push_def LOG_CAPACITY_def)
  have "store_rel (plain_content (dev ?s)) empty_ledger" by (simp add: blank_store)
  then have rel1: "store_rel (plain_content (dev s1)) L1"
    using cairn_commit_spec [OF plain_disk_block_device _ _ c1, of empty_ledger] log(1)
      cairn_commit_reliable [OF plain_disk_reliable plain_disk_block_device _ c1, of empty_ledger]
    unfolding L1_def by (simp add: status_defs)
  then have rel2: "store_rel (plain_content (dev s2)) L2"
    using cairn_commit_spec [OF plain_disk_block_device rel1 _ c2] log(2)
      cairn_commit_reliable [OF plain_disk_reliable plain_disk_block_device rel1 c2]
    unfolding L2_def by (simp add: status_defs)
  have st2: "map e_intent (stack L2 2) = [0, 7]" "map e_class (stack L2 2) = [REVERSIBLE, REVERSIBLE]" "ns \<noteq> 2 \<Longrightarrow> stack L2 ns = []" for ns
    by (simp_all add: L1_def L2_def ledger_commit_def ledger_push_def new_effect_def)
  have eff: "mission_effects L2 = stack L2 2"
    by (simp add: mission_effects_def upt_rec st2(3) numeral_2_eq_2)
  obtain st t s3 where plan: "sfar_plan plain_disk_io 7 0xff00 s2 = ((st, t), s3)" by (metis surj_pair)
  obtain e0 e1 where es: "stack L2 2 = [e0, e1]" "e_intent e0 = 0" "e_intent e1 = 7" "e_class e1 = REVERSIBLE" using st2 by auto
  have "ns = 2" if "mission_touches 7 L2 ns" for ns using that st2(3) [of ns] by (cases "ns = 2") (simp_all add: mission_touches_def)
  moreover have "bit (0xff00 :: u64) (8 + 2)" by simp
  ultimately have "mission_authority 7 0xff00 L2" unfolding mission_authority_def by blast
  moreover have "\<forall>ns. \<forall>e es. stack L2 ns = e # es \<longrightarrow> e_intent e \<noteq> 7"
  proof (intro allI impI)
    fix ns e es assume top: "stack L2 ns = e # es"
    have "ns = 2" using st2(3) [of ns] top by (cases "ns = 2") simp_all
    with top es show "e_intent e \<noteq> 7" by simp
  qed
  ultimately have "t_reversible t = length (filter (\<lambda>e. e_intent e = 7) (mission_effects L2)) \<and>
      t_compensatable t = 0 \<and> t_irreversible t = 0 \<and> t_unknown t = 0 \<and>
      (\<exists>s'. sfar_rollback plain_disk_io 7 0xff00 5 s2 = Some (IPC_STATUS_OK, s') \<and> store_rel (plain_content (dev s')) L2)"
    by (intro forecast_overpromises [OF plain_disk_reliable plain_disk_block_device rel2 _ _ _ _ plan])
      (simp_all add: es eff)
  then obtain s' where "t_reversible t = 1" "t_irreversible t = 0"
    "sfar_rollback plain_disk_io 7 0xff00 5 s2 = Some (IPC_STATUS_OK, s')" "store_rel (plain_content (dev s')) L2"
    by (auto simp: eff es)
  with plan st2(1) show ?thesis
    by (intro exI [of _ s2] exI [of _ st] exI [of _ t] exI [of _ s3] exI [of _ s'] exI [of _ L2] conjI)
qed

end
