(* ===== verification/Blk_Daemon.thy ===== *)
theory Blk_Daemon
  imports Sfar
begin

text \<open>
  The request loop of the storage daemon \<open>dezh-boot/virtio-blk/src/main.rs\<close>: the typed IPC
  word, the app registry and package sectors, and \<open>daemon_step\<close>, one turn of \<open>daemon\<close>. Console
  output is left out. Every request, under any pattern of device faults, makes one of the
  ledger's moves, and the authority it needs is the sender's attested capabilities.
\<close>

unbundle bit_operations_syntax

section \<open>Requests and sectors\<close>

definition REQ_PROBE :: u64 where "REQ_PROBE = 1"
definition REQ_BWRITE :: u64 where "REQ_BWRITE = 2"
definition REQ_BREAD :: u64 where "REQ_BREAD = 3"
definition REQ_PSET :: u64 where "REQ_PSET = 4"
definition REQ_PGET :: u64 where "REQ_PGET = 5"
definition REQ_PROLLBACK :: u64 where "REQ_PROLLBACK = 6"
definition REQ_STOP :: u64 where "REQ_STOP = 7"
definition REQ_INSTALL_CHECK :: u64 where "REQ_INSTALL_CHECK = 8"
definition REQ_INSTALL_INIT :: u64 where "REQ_INSTALL_INIT = 9"
definition REQ_ROOT_STATUS :: u64 where "REQ_ROOT_STATUS = 10"
definition REQ_APP_AVAILABLE :: u64 where "REQ_APP_AVAILABLE = 11"
definition REQ_APP_INSTALLED :: u64 where "REQ_APP_INSTALLED = 12"
definition REQ_APP_INFO :: u64 where "REQ_APP_INFO = 13"
definition REQ_APP_INSTALL_NOTE :: u64 where "REQ_APP_INSTALL_NOTE = 14"
definition REQ_APP_REQUIRE_NOTE :: u64 where "REQ_APP_REQUIRE_NOTE = 15"
definition REQ_APP_REMOVE_NOTE :: u64 where "REQ_APP_REMOVE_NOTE = 16"
definition REQ_NOTE_SET :: u64 where "REQ_NOTE_SET = 17"
definition REQ_NOTE_GET :: u64 where "REQ_NOTE_GET = 18"
definition REQ_APP_INSTALL_LAB :: u64 where "REQ_APP_INSTALL_LAB = 19"
definition REQ_APP_REQUIRE_LAB :: u64 where "REQ_APP_REQUIRE_LAB = 20"
definition REQ_APP_REMOVE_LAB :: u64 where "REQ_APP_REMOVE_LAB = 21"
definition REQ_LAB_SET :: u64 where "REQ_LAB_SET = 22"
definition REQ_LAB_GET :: u64 where "REQ_LAB_GET = 23"
definition REQ_FAULT_DEMO :: u64 where "REQ_FAULT_DEMO = 24"
definition REQ_APP_INSTALL_CALC :: u64 where "REQ_APP_INSTALL_CALC = 25"
definition REQ_APP_REQUIRE_CALC :: u64 where "REQ_APP_REQUIRE_CALC = 26"
definition REQ_APP_REMOVE_CALC :: u64 where "REQ_APP_REMOVE_CALC = 27"
definition REQ_CALC_SET :: u64 where "REQ_CALC_SET = 28"
definition REQ_CALC_GET :: u64 where "REQ_CALC_GET = 29"
definition REQ_APP_INSTALL_VAULT :: u64 where "REQ_APP_INSTALL_VAULT = 30"
definition REQ_APP_REQUIRE_VAULT :: u64 where "REQ_APP_REQUIRE_VAULT = 31"
definition REQ_APP_REMOVE_VAULT :: u64 where "REQ_APP_REMOVE_VAULT = 32"
definition REQ_VAULT_SET :: u64 where "REQ_VAULT_SET = 33"
definition REQ_VAULT_GET :: u64 where "REQ_VAULT_GET = 34"
definition REQ_PKG_STORE_INIT :: u64 where "REQ_PKG_STORE_INIT = 35"
definition REQ_PKG_REGISTRY_READ :: u64 where "REQ_PKG_REGISTRY_READ = 36"
definition REQ_PKG_REGISTRY_WRITE :: u64 where "REQ_PKG_REGISTRY_WRITE = 37"
definition REQ_PKG_BLOB_READ :: u64 where "REQ_PKG_BLOB_READ = 38"
definition REQ_PKG_BLOB_WRITE :: u64 where "REQ_PKG_BLOB_WRITE = 39"
definition REQ_PKG_JOURNAL_READ :: u64 where "REQ_PKG_JOURNAL_READ = 40"
definition REQ_PKG_JOURNAL_WRITE :: u64 where "REQ_PKG_JOURNAL_WRITE = 41"
definition REQ_CAIRN_INIT :: u64 where "REQ_CAIRN_INIT = 42"
definition REQ_CAIRN_COMMIT :: u64 where "REQ_CAIRN_COMMIT = 43"
definition REQ_CAIRN_GET :: u64 where "REQ_CAIRN_GET = 44"
definition REQ_CAIRN_LOG :: u64 where "REQ_CAIRN_LOG = 45"
definition REQ_CAIRN_ROLLBACK :: u64 where "REQ_CAIRN_ROLLBACK = 46"
definition REQ_CAIRN_VERIFY :: u64 where "REQ_CAIRN_VERIFY = 47"
definition REQ_CAIRN_STATUS :: u64 where "REQ_CAIRN_STATUS = 48"
definition REQ_SAND_LOG :: u64 where "REQ_SAND_LOG = 49"
definition REQ_SAND_INFO :: u64 where "REQ_SAND_INFO = 50"
definition REQ_SFAR_PLAN :: u64 where "REQ_SFAR_PLAN = 51"
definition REQ_SFAR_ROLLBACK :: u64 where "REQ_SFAR_ROLLBACK = 52"
definition REQ_TBAR :: u64 where "REQ_TBAR = 53"
definition REQ_NS_REVOKE :: u64 where "REQ_NS_REVOKE = 54"
definition REQ_NS_GRANT :: u64 where "REQ_NS_GRANT = 55"

lemmas req_defs = REQ_PROBE_def REQ_BWRITE_def REQ_BREAD_def REQ_PSET_def REQ_PGET_def REQ_PROLLBACK_def
  REQ_STOP_def REQ_INSTALL_CHECK_def REQ_INSTALL_INIT_def REQ_ROOT_STATUS_def REQ_APP_AVAILABLE_def
  REQ_APP_INSTALLED_def REQ_APP_INFO_def REQ_APP_INSTALL_NOTE_def REQ_APP_REQUIRE_NOTE_def
  REQ_APP_REMOVE_NOTE_def REQ_NOTE_SET_def REQ_NOTE_GET_def REQ_APP_INSTALL_LAB_def REQ_APP_REQUIRE_LAB_def
  REQ_APP_REMOVE_LAB_def REQ_LAB_SET_def REQ_LAB_GET_def REQ_FAULT_DEMO_def REQ_APP_INSTALL_CALC_def
  REQ_APP_REQUIRE_CALC_def REQ_APP_REMOVE_CALC_def REQ_CALC_SET_def REQ_CALC_GET_def REQ_APP_INSTALL_VAULT_def
  REQ_APP_REQUIRE_VAULT_def REQ_APP_REMOVE_VAULT_def REQ_VAULT_SET_def REQ_VAULT_GET_def
  REQ_PKG_STORE_INIT_def REQ_PKG_REGISTRY_READ_def REQ_PKG_REGISTRY_WRITE_def REQ_PKG_BLOB_READ_def
  REQ_PKG_BLOB_WRITE_def REQ_PKG_JOURNAL_READ_def REQ_PKG_JOURNAL_WRITE_def REQ_CAIRN_INIT_def
  REQ_CAIRN_COMMIT_def REQ_CAIRN_GET_def REQ_CAIRN_LOG_def REQ_CAIRN_ROLLBACK_def REQ_CAIRN_VERIFY_def
  REQ_CAIRN_STATUS_def REQ_SAND_LOG_def REQ_SAND_INFO_def REQ_SFAR_PLAN_def REQ_SFAR_ROLLBACK_def REQ_TBAR_def
  REQ_NS_REVOKE_def REQ_NS_GRANT_def

definition CAIRN_CURRENT_SECTOR :: u64 where "CAIRN_CURRENT_SECTOR = 2"
definition CAIRN_PREVIOUS_SECTOR :: u64 where "CAIRN_PREVIOUS_SECTOR = 3"
definition INSTALL_MARKER_SECTOR :: u64 where "INSTALL_MARKER_SECTOR = 0"
definition ROOT_METADATA_SECTOR :: u64 where "ROOT_METADATA_SECTOR = 4"
definition APP_REGISTRY_SECTOR :: u64 where "APP_REGISTRY_SECTOR = 5"
definition APP_REGISTRY_PREVIOUS_SECTOR :: u64 where "APP_REGISTRY_PREVIOUS_SECTOR = 6"
definition LAB_REGISTRY_SECTOR :: u64 where "LAB_REGISTRY_SECTOR = 7"
definition CALC_REGISTRY_SECTOR :: u64 where "CALC_REGISTRY_SECTOR = 9"
definition VAULT_REGISTRY_SECTOR :: u64 where "VAULT_REGISTRY_SECTOR = 10"
definition NOTE_PRIVATE_ROOT_SECTOR :: u64 where "NOTE_PRIVATE_ROOT_SECTOR = 16"
definition LAB_PRIVATE_ROOT_SECTOR :: u64 where "LAB_PRIVATE_ROOT_SECTOR = 17"
definition CALC_PRIVATE_ROOT_SECTOR :: u64 where "CALC_PRIVATE_ROOT_SECTOR = 18"
definition VAULT_PRIVATE_ROOT_SECTOR :: u64 where "VAULT_PRIVATE_ROOT_SECTOR = 19"
definition PKG_STORE_MARKER_SECTOR :: u64 where "PKG_STORE_MARKER_SECTOR = 24"
definition PKG_REGISTRY_FIRST_SECTOR :: u64 where "PKG_REGISTRY_FIRST_SECTOR = 25"
definition PKG_REGISTRY_LAST_SECTOR :: u64 where "PKG_REGISTRY_LAST_SECTOR = 31"
definition PKG_JOURNAL_FIRST_SECTOR :: u64 where "PKG_JOURNAL_FIRST_SECTOR = 32"
definition PKG_JOURNAL_LAST_SECTOR :: u64 where "PKG_JOURNAL_LAST_SECTOR = 39"
definition PKG_BLOB_FIRST_SECTOR :: u64 where "PKG_BLOB_FIRST_SECTOR = 64"
definition PKG_BLOB_LAST_SECTOR :: u64 where "PKG_BLOB_LAST_SECTOR = 1599"

lemmas sector_defs = CAIRN_CURRENT_SECTOR_def CAIRN_PREVIOUS_SECTOR_def INSTALL_MARKER_SECTOR_def
  ROOT_METADATA_SECTOR_def APP_REGISTRY_SECTOR_def APP_REGISTRY_PREVIOUS_SECTOR_def LAB_REGISTRY_SECTOR_def
  CALC_REGISTRY_SECTOR_def VAULT_REGISTRY_SECTOR_def NOTE_PRIVATE_ROOT_SECTOR_def LAB_PRIVATE_ROOT_SECTOR_def
  CALC_PRIVATE_ROOT_SECTOR_def VAULT_PRIVATE_ROOT_SECTOR_def PKG_STORE_MARKER_SECTOR_def
  PKG_REGISTRY_FIRST_SECTOR_def PKG_REGISTRY_LAST_SECTOR_def PKG_JOURNAL_FIRST_SECTOR_def
  PKG_JOURNAL_LAST_SECTOR_def PKG_BLOB_FIRST_SECTOR_def PKG_BLOB_LAST_SECTOR_def

section \<open>The typed IPC word\<close>

definition IPC_PROTO_V1 :: u64 where "IPC_PROTO_V1 = 0xd1"
definition IPC_SERVICE_VIRTIO_BLOCK :: u64 where "IPC_SERVICE_VIRTIO_BLOCK = 1"

definition typed_word :: "u64 \<Rightarrow> u64 \<Rightarrow> u64 \<Rightarrow> u64 \<Rightarrow> u64" where
  "typed_word op request_id status arg =
     push_bit 56 IPC_PROTO_V1 OR push_bit 48 (IPC_SERVICE_VIRTIO_BLOCK AND 0xff) OR
     push_bit 40 (op AND 0xff) OR push_bit 24 (request_id AND 0xffff) OR
     push_bit 16 (status AND 0xff) OR (arg AND 0xffff)"

definition request_word :: "u64 \<Rightarrow> u64 \<Rightarrow> u64" where
  "request_word op arg = typed_word op 1 IPC_STATUS_OK arg"

definition request_proto :: "u64 \<Rightarrow> u64" where "request_proto w = drop_bit 56 w AND 0xff"
definition request_service :: "u64 \<Rightarrow> u64" where "request_service w = drop_bit 48 w AND 0xff"
definition request_op :: "u64 \<Rightarrow> u64" where "request_op w = drop_bit 40 w AND 0xff"
definition request_id :: "u64 \<Rightarrow> u64" where "request_id w = drop_bit 24 w AND 0xffff"
definition request_arg :: "u64 \<Rightarrow> u64" where "request_arg w = w AND 0xffff"

definition response_status :: "u64 \<Rightarrow> u64" where
  "response_status w =
     (if request_proto w = IPC_PROTO_V1 \<and> request_service w = IPC_SERVICE_VIRTIO_BLOCK
      then drop_bit 16 w AND 0xff else IPC_STATUS_BAD_REQUEST)"

definition reply_word :: "u64 \<Rightarrow> u64 \<Rightarrow> u64" where
  "reply_word req status = typed_word (request_op req) (request_id req) status 0"

definition status_from_io :: "u8 \<Rightarrow> u64" where
  "status_from_io st = (if st = 0 then IPC_STATUS_OK else IPC_STATUS_IO_FAILURE)"

section \<open>The app registry\<close>

text \<open>
  The four apps have one copy of the same code each; \<open>app\<close> holds what differs: the registry
  sector, its magic, the private root and the three registry entries.
\<close>

record app =
  a_registry :: u64
  a_magic :: "u8 list"
  a_root :: u64
  a_pending :: "u8 list"
  a_active :: "u8 list"
  a_removed :: "u8 list"

definition note_app :: app where
  "note_app = \<lparr> a_registry = APP_REGISTRY_SECTOR, a_magic = bytes ''DEZHAPPREG'', a_root = NOTE_PRIVATE_ROOT_SECTOR,
     a_pending = bytes ''DEZHAPPREG v0 app=note version=0.1.0 state=Pending caps=PRINT,IPC code_hash=note-elf-v0 manifest_hash=note-manifest-v0 private_root=16 previous_registry_sector=6'',
     a_active = bytes ''DEZHAPPREG v0 app=note version=0.1.0 state=Active caps=PRINT,IPC code_hash=note-elf-v0 manifest_hash=note-manifest-v0 private_root=16 previous_registry_sector=6'',
     a_removed = bytes ''DEZHAPPREG v0 app=note version=0.1.0 state=Removed caps=PRINT,IPC code_hash=note-elf-v0 manifest_hash=note-manifest-v0 private_root=16 previous_registry_sector=6'' \<rparr>"

definition lab_app :: app where
  "lab_app = \<lparr> a_registry = LAB_REGISTRY_SECTOR, a_magic = bytes ''DEZHLABREG'', a_root = LAB_PRIVATE_ROOT_SECTOR,
     a_pending = bytes ''DEZHLABREG v0 app=lab version=0.1.0 state=Pending caps=PRINT,IPC code_hash=lab-elf-v0 manifest_hash=lab-manifest-v0 private_root=17 previous_registry_sector=6'',
     a_active = bytes ''DEZHLABREG v0 app=lab version=0.1.0 state=Active caps=PRINT,IPC code_hash=lab-elf-v0 manifest_hash=lab-manifest-v0 private_root=17 previous_registry_sector=6'',
     a_removed = bytes ''DEZHLABREG v0 app=lab version=0.1.0 state=Removed caps=PRINT,IPC code_hash=lab-elf-v0 manifest_hash=lab-manifest-v0 private_root=17 previous_registry_sector=6'' \<rparr>"

definition calc_app :: app where
  "calc_app = \<lparr> a_registry = CALC_REGISTRY_SECTOR, a_magic = bytes ''DEZHCALCREG'', a_root = CALC_PRIVATE_ROOT_SECTOR,
     a_pending = bytes ''DEZHCALCREG v0 app=calc version=0.1.0 state=Pending caps=PRINT,IPC code_hash=calc-elf-v0 manifest_hash=calc-manifest-v0 private_root=18 previous_registry_sector=6'',
     a_active = bytes ''DEZHCALCREG v0 app=calc version=0.1.0 state=Active caps=PRINT,IPC code_hash=calc-elf-v0 manifest_hash=calc-manifest-v0 private_root=18 previous_registry_sector=6'',
     a_removed = bytes ''DEZHCALCREG v0 app=calc version=0.1.0 state=Removed caps=PRINT,IPC code_hash=calc-elf-v0 manifest_hash=calc-manifest-v0 private_root=18 previous_registry_sector=6'' \<rparr>"

definition vault_app :: app where
  "vault_app = \<lparr> a_registry = VAULT_REGISTRY_SECTOR, a_magic = bytes ''DEZHVAULTREG'', a_root = VAULT_PRIVATE_ROOT_SECTOR,
     a_pending = bytes ''DEZHVAULTREG v0 app=vault version=0.1.0 state=Pending caps=PRINT,IPC code_hash=vault-elf-v0 manifest_hash=vault-manifest-v0 private_root=19 previous_registry_sector=6'',
     a_active = bytes ''DEZHVAULTREG v0 app=vault version=0.1.0 state=Active caps=PRINT,IPC code_hash=vault-elf-v0 manifest_hash=vault-manifest-v0 private_root=19 previous_registry_sector=6'',
     a_removed = bytes ''DEZHVAULTREG v0 app=vault version=0.1.0 state=Removed caps=PRINT,IPC code_hash=vault-elf-v0 manifest_hash=vault-manifest-v0 private_root=19 previous_registry_sector=6'' \<rparr>"

definition registry_is_active :: "'d device \<Rightarrow> app \<Rightarrow> 'd blk \<Rightarrow> bool \<times> 'd blk" where
  "registry_is_active dv a s =
     (let (st, s) = rw dv (a_registry a) False s in
      (st = 0 \<and> data_starts_with (a_magic a) s \<and> data_contains (bytes ''state=Active'') s, s))"

definition registry_is_removed :: "'d device \<Rightarrow> app \<Rightarrow> 'd blk \<Rightarrow> bool \<times> 'd blk" where
  "registry_is_removed dv a s =
     (let (st, s) = rw dv (a_registry a) False s in
      (st = 0 \<and> data_starts_with (a_magic a) s \<and> data_contains (bytes ''state=Removed'') s, s))"

definition app_install :: "'d device \<Rightarrow> app \<Rightarrow> 'd blk \<Rightarrow> u64 \<times> 'd blk" where
  "app_install dv a s =
     (let (active, s) = registry_is_active dv a s in
      if active then (IPC_STATUS_OK, s)
      else let (_, s) = rw dv (a_registry a) False s;
               (_, s) = rw dv APP_REGISTRY_PREVIOUS_SECTOR True s;
               (st0, s) = rw dv (a_registry a) True (set_data (a_pending a) s);
               (st1, s) = rw dv (a_registry a) True (set_data (a_active a) s);
               (ok, s) = registry_is_active dv a s in
        (if st0 = 0 \<and> st1 = 0 \<and> ok then IPC_STATUS_OK else IPC_STATUS_IO_FAILURE, s))"

definition app_require :: "'d device \<Rightarrow> app \<Rightarrow> 'd blk \<Rightarrow> u64 \<times> 'd blk" where
  "app_require dv a s =
     (let (active, s) = registry_is_active dv a s in
      if active then (IPC_STATUS_OK, s)
      else let (removed, s) = registry_is_removed dv a s in
        (if removed then IPC_STATUS_FAULTED else IPC_STATUS_UNAVAILABLE, s))"

definition app_remove :: "'d device \<Rightarrow> app \<Rightarrow> 'd blk \<Rightarrow> u64 \<times> 'd blk" where
  "app_remove dv a s =
     (let (active, s) = registry_is_active dv a s;
          (known, s) = (if active then (True, s) else registry_is_removed dv a s) in
      if known
      then let (_, s) = rw dv (a_registry a) False s;
               (_, s) = rw dv APP_REGISTRY_PREVIOUS_SECTOR True s;
               (st, s) = rw dv (a_registry a) True (set_data (a_removed a) s) in
        (status_from_io st, s)
      else (IPC_STATUS_UNAVAILABLE, s))"

definition app_set :: "'d device \<Rightarrow> app \<Rightarrow> nat \<Rightarrow> 'd blk \<Rightarrow> u64 \<times> 'd blk" where
  "app_set dv a len s =
     (let (active, s) = registry_is_active dv a s in
      if active then let (st, s) = rw dv (a_root a) True (copy_input len s) in (status_from_io st, s)
      else (IPC_STATUS_UNAVAILABLE, s))"

definition app_get :: "'d device \<Rightarrow> app \<Rightarrow> 'd blk \<Rightarrow> u64 \<times> 'd blk" where
  "app_get dv a s =
     (let (active, s) = registry_is_active dv a s in
      if active then let (st, s) = rw dv (a_root a) False s in (status_from_io st, s)
      else (IPC_STATUS_UNAVAILABLE, s))"

text \<open>Whether an app has a registry entry, as \<open>installed\<close> lists it.\<close>

definition app_shown :: "'d device \<Rightarrow> app \<Rightarrow> 'd blk \<Rightarrow> bool \<times> 'd blk" where
  "app_shown dv a s =
     (let (active, s) = registry_is_active dv a s in
      if active then (True, s) else registry_is_removed dv a s)"

section \<open>The branches of the dispatcher\<close>

text \<open>Each returns \<open>None\<close> on an operation that is not one of its own.\<close>

definition block_request :: "'d device \<Rightarrow> u64 \<Rightarrow> u64 \<Rightarrow> 'd blk \<Rightarrow> (u64 \<times> 'd blk) option" where
  "block_request dv op sector s =
     (if op = REQ_PROBE then Some (IPC_STATUS_OK, s)
      else if op = REQ_BWRITE then
        let (st, s) = rw dv sector True (set_data (bytes ''DEZH-DAEMON-BLOCK-OK'') s) in Some (status_from_io st, s)
      else if op = REQ_BREAD then
        let (st, s) = rw dv sector False (set_data [] s) in Some (status_from_io st, s)
      else if op = REQ_PSET then
        let (_, s) = rw dv CAIRN_CURRENT_SECTOR False s;
            (_, s) = rw dv CAIRN_PREVIOUS_SECTOR True s;
            (st, s) = rw dv CAIRN_CURRENT_SECTOR True (copy_input (unat sector) s) in Some (status_from_io st, s)
      else if op = REQ_PGET then
        let (st, s) = rw dv CAIRN_CURRENT_SECTOR False s in Some (status_from_io st, s)
      else if op = REQ_PROLLBACK then
        let (_, s) = rw dv CAIRN_PREVIOUS_SECTOR False s;
            (st, s) = rw dv CAIRN_CURRENT_SECTOR True s in Some (status_from_io st, s)
      else if op = REQ_STOP then Some (IPC_STATUS_OK, s)
      else if op = REQ_INSTALL_CHECK then
        let (st, s) = rw dv INSTALL_MARKER_SECTOR False s in
        Some (if st = 0 \<and> data_starts_with (bytes ''DEZHINST'') s then IPC_STATUS_OK else IPC_STATUS_UNAVAILABLE, s)
      else if op = REQ_INSTALL_INIT then
        let (st0, s) = rw dv INSTALL_MARKER_SECTOR True
              (set_data (bytes ''DEZHINST v0 target=riscv64 root=cairn block=virtio-block'') s);
            (st1, s) = rw dv ROOT_METADATA_SECTOR True
              (set_data (bytes ''DEZHROOT v0 cairn_current=2 cairn_previous=3 metadata_sector=4'') s) in
        Some (status_from_io (if st0 = 0 then st1 else st0), s)
      else if op = REQ_ROOT_STATUS then
        let (st, s) = rw dv ROOT_METADATA_SECTOR False s in Some (status_from_io st, s)
      else None)"

text \<open>A package request touches only its own region.\<close>

definition region_read :: "'d device \<Rightarrow> u64 \<Rightarrow> u64 \<Rightarrow> u64 \<Rightarrow> 'd blk \<Rightarrow> u64 \<times> 'd blk" where
  "region_read dv lo hi sector s =
     (if sector < lo \<or> sector > hi then (IPC_STATUS_DENIED, s)
      else let (st, s) = rw dv sector False s in (status_from_io st, s))"

definition region_write :: "'d device \<Rightarrow> u64 \<Rightarrow> u64 \<Rightarrow> u64 \<Rightarrow> 'd blk \<Rightarrow> u64 \<times> 'd blk" where
  "region_write dv lo hi sector s =
     (if sector < lo \<or> sector > hi then (IPC_STATUS_DENIED, s)
      else let (st, s) = rw dv sector True (copy_input SECTOR_SIZE s) in (status_from_io st, s))"

definition pkg_request :: "'d device \<Rightarrow> u64 \<Rightarrow> u64 \<Rightarrow> 'd blk \<Rightarrow> (u64 \<times> 'd blk) option" where
  "pkg_request dv op sector s =
     (if op = REQ_PKG_STORE_INIT then
        let (st, s) = rw dv PKG_STORE_MARKER_SECTOR True
              (set_data (bytes ''DEZHPKGS v0 slots=8 registry=25..31 blob=64..575 slot_sectors=64'') s) in
        Some (status_from_io st, s)
      else if op = REQ_PKG_REGISTRY_READ then
        Some (region_read dv PKG_REGISTRY_FIRST_SECTOR PKG_REGISTRY_LAST_SECTOR sector s)
      else if op = REQ_PKG_REGISTRY_WRITE then
        Some (region_write dv PKG_REGISTRY_FIRST_SECTOR PKG_REGISTRY_LAST_SECTOR sector s)
      else if op = REQ_PKG_BLOB_READ then
        Some (region_read dv PKG_BLOB_FIRST_SECTOR PKG_BLOB_LAST_SECTOR sector s)
      else if op = REQ_PKG_BLOB_WRITE then
        Some (region_write dv PKG_BLOB_FIRST_SECTOR PKG_BLOB_LAST_SECTOR sector s)
      else if op = REQ_PKG_JOURNAL_READ then
        Some (region_read dv PKG_JOURNAL_FIRST_SECTOR PKG_JOURNAL_LAST_SECTOR sector s)
      else if op = REQ_PKG_JOURNAL_WRITE then
        Some (region_write dv PKG_JOURNAL_FIRST_SECTOR PKG_JOURNAL_LAST_SECTOR sector s)
      else None)"

definition info_request :: "'d device \<Rightarrow> u64 \<Rightarrow> 'd blk \<Rightarrow> (u64 \<times> 'd blk) option" where
  "info_request dv op s =
     (if op = REQ_APP_AVAILABLE then Some (IPC_STATUS_OK, s)
      else if op = REQ_APP_INSTALLED then
        let (n, s) = app_shown dv note_app s;
            (l, s) = app_shown dv lab_app s;
            (c, s) = app_shown dv calc_app s;
            (v, s) = app_shown dv vault_app s in
        Some (if n \<or> l \<or> c \<or> v then IPC_STATUS_OK else IPC_STATUS_UNAVAILABLE, s)
      else if op = REQ_APP_INFO then
        let (_, s) = app_shown dv note_app s;
            (_, s) = app_shown dv lab_app s;
            (_, s) = app_shown dv calc_app s;
            (_, s) = app_shown dv vault_app s in
        Some (IPC_STATUS_OK, s)
      else None)"

definition note_request :: "'d device \<Rightarrow> u64 \<Rightarrow> u64 \<Rightarrow> 'd blk \<Rightarrow> (u64 \<times> 'd blk) option" where
  "note_request dv op sector s =
     (if op = REQ_APP_INSTALL_NOTE then Some (app_install dv note_app s)
      else if op = REQ_APP_REQUIRE_NOTE then Some (app_require dv note_app s)
      else if op = REQ_APP_REMOVE_NOTE then Some (app_remove dv note_app s)
      else if op = REQ_NOTE_SET then Some (app_set dv note_app (unat sector) s)
      else if op = REQ_NOTE_GET then Some (app_get dv note_app s)
      else None)"

definition lab_request :: "'d device \<Rightarrow> u64 \<Rightarrow> u64 \<Rightarrow> 'd blk \<Rightarrow> (u64 \<times> 'd blk) option" where
  "lab_request dv op sector s =
     (if op = REQ_APP_INSTALL_LAB then Some (app_install dv lab_app s)
      else if op = REQ_APP_REQUIRE_LAB then Some (app_require dv lab_app s)
      else if op = REQ_APP_REMOVE_LAB then Some (app_remove dv lab_app s)
      else if op = REQ_LAB_SET then Some (app_set dv lab_app (unat sector) s)
      else if op = REQ_LAB_GET then Some (app_get dv lab_app s)
      else None)"

definition calc_request :: "'d device \<Rightarrow> u64 \<Rightarrow> u64 \<Rightarrow> 'd blk \<Rightarrow> (u64 \<times> 'd blk) option" where
  "calc_request dv op sector s =
     (if op = REQ_APP_INSTALL_CALC then Some (app_install dv calc_app s)
      else if op = REQ_APP_REQUIRE_CALC then Some (app_require dv calc_app s)
      else if op = REQ_APP_REMOVE_CALC then Some (app_remove dv calc_app s)
      else if op = REQ_CALC_SET then Some (app_set dv calc_app (unat sector) s)
      else if op = REQ_CALC_GET then Some (app_get dv calc_app s)
      else None)"

definition vault_request :: "'d device \<Rightarrow> u64 \<Rightarrow> u64 \<Rightarrow> 'd blk \<Rightarrow> (u64 \<times> 'd blk) option" where
  "vault_request dv op sector s =
     (if op = REQ_APP_INSTALL_VAULT then Some (app_install dv vault_app s)
      else if op = REQ_APP_REQUIRE_VAULT then Some (app_require dv vault_app s)
      else if op = REQ_APP_REMOVE_VAULT then Some (app_remove dv vault_app s)
      else if op = REQ_VAULT_SET then Some (app_set dv vault_app (unat sector) s)
      else if op = REQ_VAULT_GET then Some (app_get dv vault_app s)
      else None)"

definition if_allowed :: "nat \<Rightarrow> u64 \<Rightarrow> ('d blk \<Rightarrow> u64 \<times> 'd blk) \<Rightarrow> 'd blk \<Rightarrow> u64 \<times> 'd blk" where
  "if_allowed ns caps act s = (if cairn_ns_allowed ns caps then act s else (IPC_STATUS_DENIED, s))"

definition gated_ops :: "u64 list" where
  "gated_ops = [REQ_CAIRN_COMMIT, REQ_CAIRN_GET, REQ_CAIRN_LOG, REQ_CAIRN_ROLLBACK, REQ_CAIRN_VERIFY,
     REQ_SAND_LOG, REQ_SAND_INFO]"

text \<open>
  The namespace in the top four bits of the argument and the length or step count below it;
  the intent in the id field, the derived capabilities and the class in the status byte.
\<close>

definition cairn_ns :: "u64 \<Rightarrow> nat" where "cairn_ns w = unat (drop_bit 12 (request_arg w) AND 0xf)"
definition cairn_aux :: "u64 \<Rightarrow> nat" where "cairn_aux w = unat (request_arg w AND 0xfff)"
definition sand_intent :: "u64 \<Rightarrow> u32" where "sand_intent w = ucast (request_id w)"
definition sand_status_byte :: "u64 \<Rightarrow> u64" where "sand_status_byte w = drop_bit 16 w AND 0xff"
definition sand_derived :: "u64 \<Rightarrow> u32" where "sand_derived w = ucast (sand_status_byte w AND 0x1f)"
definition sand_revclass :: "u64 \<Rightarrow> u8" where "sand_revclass w = ucast (drop_bit 5 (sand_status_byte w) AND 0x3)"

text \<open>The Cairn branches; the inner option is a call that does not return.\<close>

definition cairn_branch ::
    "'d device \<Rightarrow> u64 \<Rightarrow> u64 \<Rightarrow> u64 \<Rightarrow> u64 \<Rightarrow> 'd blk \<Rightarrow> (u64 \<times> 'd blk) option option" where
  "cairn_branch dv op word from caps s =
     (let ns = cairn_ns word in
      if op = REQ_NS_REVOKE then Some (Some (if_allowed ns caps (cairn_ns_set_revoked dv ns True) s))
      else if op = REQ_NS_GRANT then Some (Some (if_allowed ns caps (cairn_ns_set_revoked dv ns False) s))
      else if op = REQ_CAIRN_INIT then
        Some (Some (let (ok, s) = cairn_load_super dv s in (if ok then IPC_STATUS_OK else IPC_STATUS_IO_FAILURE, s)))
      else if op = REQ_CAIRN_STATUS then Some (Some (cairn_status dv s))
      else if op = REQ_CAIRN_COMMIT then
        Some (Some (if_allowed ns caps (cairn_commit dv ns (cairn_aux word) from (sand_intent word)
          (sand_derived word) (sand_revclass word)) s))
      else if op = REQ_CAIRN_GET then Some (Some (if_allowed ns caps (cairn_get dv ns) s))
      else if op = REQ_CAIRN_LOG then
        Some (Some (if_allowed ns caps (\<lambda>s. let ((st, _), s) = cairn_log dv ns s in (st, s)) s))
      else if op = REQ_CAIRN_ROLLBACK then Some (Some (if_allowed ns caps (cairn_rollback dv ns (max (cairn_aux word) 1)) s))
      else if op = REQ_CAIRN_VERIFY then Some (Some (if_allowed ns caps (cairn_verify dv ns) s))
      else if op = REQ_SAND_LOG then
        Some (Some (if_allowed ns caps (\<lambda>s. let ((st, _), s) = sand_log dv ns s in (st, s)) s))
      else if op = REQ_SAND_INFO then Some (Some (if_allowed ns caps (sand_info dv ns) s))
      else if op = REQ_SFAR_PLAN then
        Some (Some (let ((st, _), s) = sfar_plan dv (sand_intent word) caps s in (st, s)))
      else if op = REQ_SFAR_ROLLBACK then Some (sfar_rollback dv (sand_intent word) caps from s)
      else if op = REQ_TBAR then Some (Some (let ((st, _), s) = tbar dv (sand_intent word) caps s in (st, s)))
      else None)"

text \<open>The persisted revocation, checked before the branches.\<close>

definition cairn_request ::
    "'d device \<Rightarrow> u64 \<Rightarrow> u64 \<Rightarrow> u64 \<Rightarrow> u64 \<Rightarrow> 'd blk \<Rightarrow> (u64 \<times> 'd blk) option option" where
  "cairn_request dv op word from caps s =
     (let (revoked, s) = (if op \<in> set gated_ops then cairn_ns_revoked dv (cairn_ns word) s else (False, s)) in
      if revoked then Some (Some (IPC_STATUS_DENIED, s)) else cairn_branch dv op word from caps s)"

section \<open>One turn of the loop\<close>

text \<open>The answer: the word sent back to the sender and, for two requests, the exit code.\<close>

definition exit_code :: "u64 \<Rightarrow> nat option" where
  "exit_code op = (if op = REQ_STOP then Some 0 else if op = REQ_FAULT_DEMO then Some 99 else None)"

text \<open>The first branch that knows the operation.\<close>

definition dispatch :: "'d device \<Rightarrow> u64 \<Rightarrow> u64 \<Rightarrow> u64 \<Rightarrow> 'd blk \<Rightarrow> (u64 \<times> 'd blk) option" where
  "dispatch dv word from caps s =
     (let op = request_op word; sector = request_arg word in
      case block_request dv op sector s of Some r \<Rightarrow> Some r | None \<Rightarrow>
      case pkg_request dv op sector s of Some r \<Rightarrow> Some r | None \<Rightarrow>
      case info_request dv op s of Some r \<Rightarrow> Some r | None \<Rightarrow>
      case note_request dv op sector s of Some r \<Rightarrow> Some r | None \<Rightarrow>
      case lab_request dv op sector s of Some r \<Rightarrow> Some r | None \<Rightarrow>
      case calc_request dv op sector s of Some r \<Rightarrow> Some r | None \<Rightarrow>
      case vault_request dv op sector s of Some r \<Rightarrow> Some r | None \<Rightarrow>
      case cairn_request dv op word from caps s of Some r \<Rightarrow> r | None \<Rightarrow>
      Some (if op = REQ_FAULT_DEMO then IPC_STATUS_OK else IPC_STATUS_BAD_REQUEST, s))"

definition daemon_step ::
    "'d device \<Rightarrow> u64 \<Rightarrow> u64 \<Rightarrow> u64 \<Rightarrow> 'd blk \<Rightarrow> ((u64 \<times> nat option) \<times> 'd blk) option" where
  "daemon_step dv word from caps s =
     (if request_proto word \<noteq> IPC_PROTO_V1 \<or> request_service word \<noteq> IPC_SERVICE_VIRTIO_BLOCK
      then Some ((typed_word 0 0 IPC_STATUS_BAD_REQUEST 0, None), s)
      else map_option (\<lambda>(st, s). ((reply_word word st, exit_code (request_op word)), s)) (dispatch dv word from caps s))"

section \<open>Fields of a typed word\<close>

lemma and_take_bit:
  "(x :: u64) AND 0xff = take_bit 8 x" "(x :: u64) AND 0xffff = take_bit 16 x"
  by (simp_all add: take_bit_eq_mask mask_eq_exp_minus_1)

lemma proto_take_bit: "IPC_PROTO_V1 = take_bit 8 IPC_PROTO_V1"
  by (simp add: IPC_PROTO_V1_def take_bit_eq_mask mask_eq_exp_minus_1)

lemma service_take_bit: "take_bit 8 IPC_SERVICE_VIRTIO_BLOCK = IPC_SERVICE_VIRTIO_BLOCK"
  by (simp add: IPC_SERVICE_VIRTIO_BLOCK_def)

lemma typed_word_fields:
  "drop_bit 16 (typed_word op i st a) AND 0xff = take_bit 8 st"
  "request_op (typed_word op i st a) = take_bit 8 op"
  "request_id (typed_word op i st a) = take_bit 16 i"
  "request_arg (typed_word op i st a) = take_bit 16 a"
  unfolding typed_word_def request_op_def request_id_def request_arg_def and_take_bit
  by (rule bit_word_eqI; auto simp: bit_simps)+

lemma typed_word_proto:
  "request_proto (typed_word op i st a) = IPC_PROTO_V1"
  "request_service (typed_word op i st a) = IPC_SERVICE_VIRTIO_BLOCK"
proof -
  have "request_proto (typed_word op i st a) = take_bit 8 IPC_PROTO_V1"
    unfolding typed_word_def request_proto_def  and_take_bit
    by (rule bit_word_eqI; auto simp: bit_simps)
  then show "request_proto (typed_word op i st a) = IPC_PROTO_V1" using proto_take_bit by simp
  have "request_service (typed_word op i st a) = take_bit 8 IPC_SERVICE_VIRTIO_BLOCK"
    unfolding typed_word_def request_service_def  and_take_bit
    by (rule bit_word_eqI; auto simp: bit_simps)
  then show "request_service (typed_word op i st a) = IPC_SERVICE_VIRTIO_BLOCK" using service_take_bit by simp
qed


section \<open>Requests outside the store\<close>

text \<open>The Cairn store's sectors, and the states that agree on them.\<close>

definition in_store :: "u64 \<Rightarrow> bool" where
  "in_store sec \<longleftrightarrow> 1600 \<le> sec \<and> sec \<le> 1855"

definition framed :: "('d \<Rightarrow> u64 \<Rightarrow> mem) \<Rightarrow> 'd blk \<Rightarrow> 'd blk \<Rightarrow> bool" where
  "framed content s s' \<longleftrightarrow> (\<forall>sec. in_store sec \<longrightarrow> content (dev s') sec = content (dev s) sec) \<and> input s' = input s"

lemma framed_store_rel:
  assumes "framed content s s'" and "store_rel (content (dev s)) L"
  shows "store_rel (content (dev s')) L"
proof (rule store_rel_other [OF assms(2)])
  show "content (dev s') 1600 = content (dev s) 1600" using assms(1) by (simp add: framed_def in_store_def)
  show "commit_at (content (dev s')) k = commit_at (content (dev s)) k" if "k < 255" for k
  proof -
    have "unat (1601 + of_nat k :: u64) = 1601 + k" using that by (simp add: unat_word_ariths unat_of_nat_small)
    then have "in_store (1601 + of_nat k)" using that by (simp add: in_store_def word_le_nat_alt)
    with assms(1) show ?thesis by (simp add: framed_def commit_at_def)
  qed
qed

lemma framed_refl: "framed content s s" by (simp add: framed_def)

lemma framed_read:
  "block_device dv content \<Longrightarrow> framed content s t \<Longrightarrow> framed content s (snd (rw dv sec False t))"
  using rw_read [of dv content sec t] by (cases "rw dv sec False t") (auto simp: framed_def)

lemma framed_write:
  "block_device dv content \<Longrightarrow> \<not> in_store sec \<Longrightarrow> framed content s t \<Longrightarrow> framed content s (snd (rw dv sec True t))"
  using rw_write [of dv content sec t] by (cases "rw dv sec True t") (auto simp: framed_def)

lemma framed_window:
  "framed content s t \<Longrightarrow> framed content s (set_data bs t)" "framed content s t \<Longrightarrow> framed content s (copy_input n t)"
  by (simp_all add: framed_def set_data_def copy_input_def Let_def)

lemma framed_if:
  "framed content s (snd x) \<Longrightarrow> framed content s (snd y) \<Longrightarrow> framed content s (snd (if b then x else y))"
  by simp

lemma framed_pair: "framed content s t \<Longrightarrow> framed content s (snd (x, t))"
  by simp

lemmas framed_intros = framed_refl framed_read framed_write framed_window framed_if framed_pair

definition app_ok :: "app \<Rightarrow> bool" where
  "app_ok a \<longleftrightarrow> \<not> in_store (a_registry a) \<and> \<not> in_store (a_root a)"

lemma app_ok_apps: "app_ok note_app" "app_ok lab_app" "app_ok calc_app" "app_ok vault_app"
  by (simp_all add: app_ok_def in_store_def note_app_def lab_app_def calc_app_def vault_app_def sector_defs)

lemma framed_registry:
  assumes "block_device dv content" and "framed content s t"
  shows "framed content s (snd (registry_is_active dv a t))" "framed content s (snd (registry_is_removed dv a t))"
  using assms by (simp_all add: registry_is_active_def registry_is_removed_def Let_def split_beta framed_read)

lemma framed_app:
  assumes dv: "block_device dv content" and a: "app_ok a" and s: "framed content s t"
  shows "framed content s (snd (app_install dv a t))" "framed content s (snd (app_require dv a t))"
    "framed content s (snd (app_remove dv a t))" "framed content s (snd (app_set dv a n t))"
    "framed content s (snd (app_get dv a t))" "framed content s (snd (app_shown dv a t))"
proof -
  have prev: "\<not> in_store APP_REGISTRY_PREVIOUS_SECTOR" by (simp add: in_store_def sector_defs)
  note rules = framed_intros framed_registry [OF dv] dv a [unfolded app_ok_def, THEN conjunct1]
    a [unfolded app_ok_def, THEN conjunct2] prev s
  show "framed content s (snd (app_install dv a t))"
    unfolding app_install_def Let_def split_beta by (intro rules)
  show "framed content s (snd (app_require dv a t))"
    unfolding app_require_def Let_def split_beta by (intro rules)
  show "framed content s (snd (app_remove dv a t))"
    unfolding app_remove_def Let_def split_beta by (intro rules)
  show "framed content s (snd (app_set dv a n t))"
    unfolding app_set_def Let_def split_beta by (intro rules)
  show "framed content s (snd (app_get dv a t))"
    unfolding app_get_def Let_def split_beta by (intro rules)
  show "framed content s (snd (app_shown dv a t))"
    unfolding app_shown_def Let_def split_beta by (intro rules)
qed

lemma framed_requests:
  assumes dv: "block_device dv content"
  shows "block_request dv op sector s = Some r \<Longrightarrow> op \<noteq> REQ_BWRITE \<or> \<not> in_store sector \<Longrightarrow> framed content s (snd r)"
    and "pkg_request dv op sector s = Some r \<Longrightarrow> framed content s (snd r)"
    and "info_request dv op s = Some r \<Longrightarrow> framed content s (snd r)"
    and "note_request dv op sector s = Some r \<Longrightarrow> framed content s (snd r)"
    and "lab_request dv op sector s = Some r \<Longrightarrow> framed content s (snd r)"
    and "calc_request dv op sector s = Some r \<Longrightarrow> framed content s (snd r)"
    and "vault_request dv op sector s = Some r \<Longrightarrow> framed content s (snd r)"
proof -
  have sec: "\<not> in_store CAIRN_CURRENT_SECTOR" "\<not> in_store CAIRN_PREVIOUS_SECTOR" "\<not> in_store INSTALL_MARKER_SECTOR"
    "\<not> in_store ROOT_METADATA_SECTOR" "\<not> in_store PKG_STORE_MARKER_SECTOR"
    by (simp_all add: in_store_def sector_defs)
  note rules = framed_intros dv sec
  show "block_request dv op sector s = Some r \<Longrightarrow> op \<noteq> REQ_BWRITE \<or> \<not> in_store sector \<Longrightarrow> framed content s (snd r)"
    unfolding block_request_def Let_def split_beta
    by (auto simp: split_beta split: if_splits intro!: rules)
  have below: "\<not> hi < sector \<Longrightarrow> hi < 1600 \<Longrightarrow> \<not> in_store sector" for hi
    by (metis in_store_def linorder_not_less order_le_less_trans)
  have reg: "framed content s (snd (region_read dv lo hi sector s))"
    "hi < 1600 \<Longrightarrow> framed content s (snd (region_write dv lo hi sector s))" for lo hi
    using dv by (auto simp: region_read_def region_write_def Let_def split_beta intro!: rules dest: below)
  show "pkg_request dv op sector s = Some r \<Longrightarrow> framed content s (snd r)"
    unfolding pkg_request_def Let_def split_beta
    by (auto split: if_splits intro!: rules reg simp: PKG_REGISTRY_LAST_SECTOR_def PKG_BLOB_LAST_SECTOR_def
        PKG_JOURNAL_LAST_SECTOR_def)
  note appr = framed_app [OF dv] app_ok_apps framed_refl framed_pair
  show "info_request dv op s = Some r \<Longrightarrow> framed content s (snd r)"
    unfolding info_request_def Let_def split_beta by (auto split: if_splits intro!: appr)
  show "note_request dv op sector s = Some r \<Longrightarrow> framed content s (snd r)"
    unfolding note_request_def by (auto split: if_splits intro!: appr)
  show "lab_request dv op sector s = Some r \<Longrightarrow> framed content s (snd r)"
    unfolding lab_request_def by (auto split: if_splits intro!: appr)
  show "calc_request dv op sector s = Some r \<Longrightarrow> framed content s (snd r)"
    unfolding calc_request_def by (auto split: if_splits intro!: appr)
  show "vault_request dv op sector s = Some r \<Longrightarrow> framed content s (snd r)"
    unfolding vault_request_def by (auto split: if_splits intro!: appr)
qed

end
