(* ===== verification/Daemon_Refinement.thy ===== *)
theory Daemon_Refinement
  imports Blk_Daemon "HOL-Library.Sublist"
begin

text \<open>
  The storage daemon refines the ledger. On a device without faults a run of requests gives
  the replies and the ledger of the specification; under any pattern of device faults every
  request returns and makes one of the ledger's moves, so that the log is append-only and an
  acknowledged change is on the disk. Consequences: isolation of the namespaces, persistence
  of a cut-off, and two requests that go past the authority checks.
\<close>

unbundle bit_operations_syntax

section \<open>The specification\<close>

definition ledger_branch :: "u64 \<Rightarrow> u64 \<Rightarrow> u64 \<Rightarrow> mem \<Rightarrow> ledger \<Rightarrow> u64 \<times> ledger" where
  "ledger_branch word from caps inp L =
     (let op = request_op word; ns = cairn_ns word; ahd = sand_intent word in
      if op \<in> set gated_ops \<union> {REQ_NS_REVOKE, REQ_NS_GRANT} \<and> \<not> cairn_ns_allowed ns caps then (IPC_STATUS_DENIED, L)
      else if op = REQ_NS_REVOKE then (IPC_STATUS_OK, ledger_cut ns True L)
      else if op = REQ_NS_GRANT then (IPC_STATUS_OK, ledger_cut ns False L)
      else if op = REQ_CAIRN_COMMIT then
        if length (log L) < LOG_CAPACITY
        then (IPC_STATUS_OK, ledger_commit ns (mem_read inp 0 (min (cairn_aux word) 447)) (ucast from) ahd
          (sand_derived word) (sand_revclass word) L)
        else (IPC_STATUS_IO_FAILURE, L)
      else if op = REQ_CAIRN_ROLLBACK then
        if stack L ns = [] then (IPC_STATUS_UNAVAILABLE, L)
        else (IPC_STATUS_OK, ledger_rollback ns (max (cairn_aux word) 1) L)
      else if op = REQ_CAIRN_GET \<or> op = REQ_SAND_INFO then
        (if stack L ns = [] then IPC_STATUS_UNAVAILABLE else IPC_STATUS_OK, L)
      else if op = REQ_CAIRN_VERIFY then
        (case stack L ns of [] \<Rightarrow> IPC_STATUS_UNAVAILABLE
         | e # _ \<Rightarrow> if e_hash e = fnv64 (e_value e) then IPC_STATUS_OK else IPC_STATUS_IO_FAILURE, L)
      else if op \<in> {REQ_SFAR_PLAN, REQ_SFAR_ROLLBACK, REQ_TBAR} \<and> ahd = 0 then (IPC_STATUS_BAD_REQUEST, L)
      else if op = REQ_TBAR \<and> (\<forall>n < 8. \<not> mission_touches ahd L n) then (IPC_STATUS_UNAVAILABLE, L)
      else if op \<in> {REQ_SFAR_PLAN, REQ_SFAR_ROLLBACK, REQ_TBAR} \<and> \<not> mission_authority ahd caps L then (IPC_STATUS_DENIED, L)
      else if op = REQ_SFAR_PLAN \<and> tally_total (tally_of ahd (mission_effects L) no_tally) = 0 then (IPC_STATUS_UNAVAILABLE, L)
      else if op = REQ_SFAR_ROLLBACK then (IPC_STATUS_OK, mission_rollback ahd (ucast from) L)
      else (IPC_STATUS_OK, L))"

definition ledger_serve :: "u64 \<Rightarrow> u64 \<Rightarrow> u64 \<Rightarrow> mem \<Rightarrow> ledger \<Rightarrow> u64 \<times> ledger" where
  "ledger_serve word from caps inp L =
     (if request_op word \<in> set gated_ops \<and> cut_off L (cairn_ns word) then (IPC_STATUS_DENIED, L)
      else ledger_branch word from caps inp L)"

definition cairn_ops :: "u64 list" where
  "cairn_ops = gated_ops @ [REQ_NS_REVOKE, REQ_NS_GRANT, REQ_CAIRN_INIT, REQ_CAIRN_STATUS,
     REQ_SFAR_PLAN, REQ_SFAR_ROLLBACK, REQ_TBAR]"

lemma allowed_bound: "cairn_ns_allowed ns caps \<Longrightarrow> ns < 8"
  by (simp add: cairn_ns_allowed_def CAIRN1_NS_MAX_def)

definition answers :: "('d \<Rightarrow> u64 \<Rightarrow> mem) \<Rightarrow> u64 \<times> ledger \<Rightarrow> (u64 \<times> 'd blk) option option \<Rightarrow> bool" where
  "answers content spec r \<longleftrightarrow> (\<exists>s'. r = Some (Some (fst spec, s')) \<and> store_rel (content (dev s')) (snd spec))"

lemma answersI:
  "r = Some (Some (st, s')) \<Longrightarrow> spec = (st, L') \<Longrightarrow> store_rel (content (dev s')) L' \<Longrightarrow> answers content spec r"
  by (simp add: answers_def)

lemma status_distinct:
  "IPC_STATUS_OK \<noteq> IPC_STATUS_IO_FAILURE" "IPC_STATUS_IO_FAILURE \<noteq> IPC_STATUS_OK"
  "IPC_STATUS_UNAVAILABLE \<noteq> IPC_STATUS_OK" "IPC_STATUS_UNAVAILABLE \<noteq> IPC_STATUS_IO_FAILURE"
  "IPC_STATUS_OK \<noteq> IPC_STATUS_UNAVAILABLE"  "IPC_STATUS_IO_FAILURE \<noteq> IPC_STATUS_UNAVAILABLE"
  "IPC_STATUS_DENIED \<noteq> IPC_STATUS_OK"  "IPC_STATUS_DENIED \<noteq> IPC_STATUS_IO_FAILURE"
  "IPC_STATUS_BAD_REQUEST \<noteq> IPC_STATUS_OK" "IPC_STATUS_BAD_REQUEST \<noteq> IPC_STATUS_IO_FAILURE"
  "IPC_STATUS_BAD_REQUEST \<noteq> IPC_STATUS_DENIED" "IPC_STATUS_OK \<noteq> IPC_STATUS_DENIED"
  by (simp_all add: status_defs)

lemma branch_denied:
  assumes "request_op word \<in> set gated_ops \<union> {REQ_NS_REVOKE, REQ_NS_GRANT}" and "\<not> cairn_ns_allowed (cairn_ns word) caps"
  shows "cairn_branch dv (request_op word) word from caps s = Some (Some (IPC_STATUS_DENIED, s))"
    and "ledger_branch word from caps inp L = (IPC_STATUS_DENIED, L)"
  using assms by (auto simp: cairn_branch_def gated_ops_def if_allowed_def req_defs Let_def ledger_branch_def)

text \<open>The answers of the branches that change a namespace.\<close>

lemma branch_write_reliable:
  assumes rel: "reliable dv" and dv: "block_device dv content" and L: "store_rel (content (dev s)) L"
    and al: "cairn_ns_allowed (cairn_ns word) caps"
    and op: "request_op word \<in> {REQ_NS_REVOKE, REQ_NS_GRANT, REQ_CAIRN_COMMIT, REQ_CAIRN_ROLLBACK}"
  shows "answers content (ledger_branch word from caps (input s) L) (cairn_branch dv (request_op word) word from caps s)"
proof -
  let ?ns = "cairn_ns word"
  note ns = allowed_bound [OF al]
  have revoke: "st = IPC_STATUS_OK \<and> store_rel (content (dev s')) (ledger_cut ?ns b L)"
    if "cairn_ns_set_revoked dv ?ns b s = (st, s')" for b st s'
    using cairn_ns_set_revoked_spec [OF dv L that] cairn_ns_set_revoked_reliable [OF rel ns that] ns
    by (auto simp: status_distinct)
  have simps: "cairn_branch dv (request_op word) word from caps s = Some (Some (
      if request_op word = REQ_NS_REVOKE then cairn_ns_set_revoked dv ?ns True s
      else if request_op word = REQ_NS_GRANT then cairn_ns_set_revoked dv ?ns False s
      else if request_op word = REQ_CAIRN_COMMIT then cairn_commit dv ?ns (cairn_aux word) from (sand_intent word)
        (sand_derived word) (sand_revclass word) s
      else cairn_rollback dv ?ns (max (cairn_aux word) 1) s))"
    using op al by (elim insertE emptyE; simp add: cairn_branch_def req_defs if_allowed_def Let_def)
  have spec: "ledger_branch word from caps (input s) L = (
      if request_op word = REQ_NS_REVOKE then (IPC_STATUS_OK, ledger_cut ?ns True L)
      else if request_op word = REQ_NS_GRANT then (IPC_STATUS_OK, ledger_cut ?ns False L)
      else if request_op word = REQ_CAIRN_COMMIT then
        if length (log L) < LOG_CAPACITY
        then (IPC_STATUS_OK, ledger_commit ?ns (mem_read (input s) 0 (min (cairn_aux word) 447)) (ucast from)
          (sand_intent word) (sand_derived word) (sand_revclass word) L)
        else (IPC_STATUS_IO_FAILURE, L)
      else if stack L ?ns = [] then (IPC_STATUS_UNAVAILABLE, L)
      else (IPC_STATUS_OK, ledger_rollback ?ns (max (cairn_aux word) 1) L))"
    using op al by (elim insertE emptyE; simp add: ledger_branch_def req_defs Let_def)
  consider (rev) "request_op word = REQ_NS_REVOKE" | (grant) "request_op word = REQ_NS_GRANT"
    | (commit) "request_op word = REQ_CAIRN_COMMIT" | (rollback) "request_op word = REQ_CAIRN_ROLLBACK"
    using op by blast
  then show ?thesis
  proof cases
    case rev
    obtain st s' where r: "cairn_ns_set_revoked dv ?ns True s = (st, s')" by fastforce
    show ?thesis unfolding simps spec unfolding rev using revoke [OF r] r by (auto simp: answers_def)
  next
    case grant
    obtain st s' where r: "cairn_ns_set_revoked dv ?ns False s = (st, s')" by fastforce
    show ?thesis unfolding simps spec unfolding grant using revoke [OF r] r by (auto simp: answers_def req_defs)
  next
    case commit
    obtain st s' where r: "cairn_commit dv ?ns (cairn_aux word) from (sand_intent word)
        (sand_derived word) (sand_revclass word) s = (st, s')" by fastforce
    show ?thesis unfolding simps spec unfolding commit
      using cairn_commit_spec [OF dv L ns r] cairn_commit_reliable [OF rel dv L r] r
      by (auto simp: answers_def req_defs status_distinct split: if_splits)
  next
    case rollback
    obtain st s' where r: "cairn_rollback dv ?ns (max (cairn_aux word) 1) s = (st, s')" by fastforce
    show ?thesis unfolding simps spec unfolding rollback
      using cairn_rollback_spec [OF dv L ns r] cairn_rollback_reliable [OF rel dv L ns r] r
      by (auto simp: answers_def req_defs status_distinct split: if_splits)
  qed
qed

text \<open>The answers of the branches that only read a namespace.\<close>

lemma branch_read_reliable:
  assumes rel: "reliable dv" and dv: "block_device dv content" and L: "store_rel (content (dev s)) L"
    and al: "cairn_ns_allowed (cairn_ns word) caps"
    and op: "request_op word \<in> {REQ_CAIRN_GET, REQ_CAIRN_LOG, REQ_CAIRN_VERIFY, REQ_SAND_LOG, REQ_SAND_INFO}"
  shows "answers content (ledger_branch word from caps (input s) L) (cairn_branch dv (request_op word) word from caps s)"
proof -
  let ?ns = "cairn_ns word"
  note ns = allowed_bound [OF al]
  obtain st1 s1 where get: "cairn_get dv ?ns s = (st1, s1)" by fastforce
  obtain st2 x2 s2 where lg: "cairn_log dv ?ns s = ((st2, x2), s2)" by (metis surj_pair)
  obtain st3 s3 where vf: "cairn_verify dv ?ns s = (st3, s3)" by fastforce
  obtain st4 s4 where info: "sand_info dv ?ns s = (st4, s4)" by fastforce
  note reads = cairn_reads_reliable [OF rel dv L ns]
  have kept: "store_rel (content (dev s1)) L" "store_rel (content (dev s2)) L" "store_rel (content (dev s3)) L"
    "store_rel (content (dev s4)) L" and st2: "st2 = IPC_STATUS_OK"
    using cairn_get_spec [OF dv L ns get] cairn_log_spec [OF dv L ns lg] cairn_verify_spec [OF dv L ns vf]
      sand_info_spec [OF dv L ns info] cairn_log_reliable [OF rel dv L ns lg] by simp_all
  have run: "cairn_branch dv (request_op word) word from caps s = Some (Some (
      if request_op word = REQ_CAIRN_GET then (st1, s1)
      else if request_op word = REQ_CAIRN_VERIFY then (st3, s3)
      else if request_op word = REQ_SAND_INFO then (st4, s4) else (st2, s2)))"
    using op al by (elim insertE emptyE; simp add: cairn_branch_def req_defs if_allowed_def Let_def get lg vf info sand_log_is_cairn_log)
  have spec: "ledger_branch word from caps (input s) L = (
      if request_op word = REQ_CAIRN_GET \<or> request_op word = REQ_SAND_INFO
      then (if stack L ?ns = [] then IPC_STATUS_UNAVAILABLE else IPC_STATUS_OK, L)
      else if request_op word = REQ_CAIRN_VERIFY
      then (case stack L ?ns of [] \<Rightarrow> IPC_STATUS_UNAVAILABLE
         | e # _ \<Rightarrow> if e_hash e = fnv64 (e_value e) then IPC_STATUS_OK else IPC_STATUS_IO_FAILURE, L)
      else (IPC_STATUS_OK, L))"
    using op al by (elim insertE emptyE; simp add: ledger_branch_def req_defs Let_def gated_ops_def)
  show ?thesis
    unfolding run spec answers_def using kept st2 reads(1) [OF get] reads(2) [OF info] reads(3) [OF vf]
    by (simp add: req_defs)
qed

text \<open>The answers of the store and mission branches.\<close>

lemma ledger_branch_mission:
  assumes "request_op word \<in> {REQ_CAIRN_INIT, REQ_CAIRN_STATUS, REQ_SFAR_PLAN, REQ_SFAR_ROLLBACK, REQ_TBAR}"
  shows "ledger_branch word from caps inp L = (
      if request_op word \<in> {REQ_CAIRN_INIT, REQ_CAIRN_STATUS} then (IPC_STATUS_OK, L)
      else if sand_intent word = 0 then (IPC_STATUS_BAD_REQUEST, L)
      else if request_op word = REQ_TBAR \<and> (\<forall>n < 8. \<not> mission_touches (sand_intent word) L n) then (IPC_STATUS_UNAVAILABLE, L)
      else if \<not> mission_authority (sand_intent word) caps L then (IPC_STATUS_DENIED, L)
      else if request_op word = REQ_SFAR_PLAN \<and> tally_total (tally_of (sand_intent word) (mission_effects L) no_tally) = 0
      then (IPC_STATUS_UNAVAILABLE, L)
      else if request_op word = REQ_SFAR_ROLLBACK then (IPC_STATUS_OK, mission_rollback (sand_intent word) (ucast from) L)
      else (IPC_STATUS_OK, L))"
  using assms by (elim insertE emptyE; simp add: ledger_branch_def req_defs Let_def gated_ops_def; blast?)

lemma branch_mission_reliable:
  assumes rel: "reliable dv" and dv: "block_device dv content" and L: "store_rel (content (dev s)) L"
    and op: "request_op word \<in> {REQ_CAIRN_INIT, REQ_CAIRN_STATUS, REQ_SFAR_PLAN, REQ_SFAR_ROLLBACK, REQ_TBAR}"
  shows "answers content (ledger_branch word from caps (input s) L) (cairn_branch dv (request_op word) word from caps s)"
proof -
  let ?ahd = "sand_intent word"
  note rs = reliable_reads [OF rel] and spec = ledger_branch_mission [OF op, of "from" caps "input s" L]
  obtain s1 where ld: "cairn_load_super dv s = (True, s1)" "loaded content L s1"
    using reliable_loaded [OF rel dv L] by blast
  obtain st2 t2 s2 where plan: "sfar_plan dv ?ahd caps s = ((st2, t2), s2)" by (metis surj_pair)
  obtain st3 n3 s3 where graph: "tbar dv ?ahd caps s = ((st3, n3), s3)" by (metis surj_pair)
  obtain st4 s4 where roll: "sfar_rollback dv ?ahd caps from s = Some (st4, s4)"
    and st4: "st4 \<noteq> IPC_STATUS_IO_FAILURE" and post: "rollback_post True ?ahd caps from L st4 (content (dev s4))"
    using sfar_rollback_spec [OF dv L, of ?ahd caps "from"] rel rs by auto
  have zero: "?ahd = 0 \<Longrightarrow> st2 = IPC_STATUS_BAD_REQUEST" "?ahd = 0 \<Longrightarrow> st3 = IPC_STATUS_BAD_REQUEST"
    using plan graph by (simp_all add: sfar_plan_def tbar_def)
  have run: "cairn_branch dv (request_op word) word from caps s = Some (Some (
      if request_op word \<in> {REQ_CAIRN_INIT, REQ_CAIRN_STATUS} then (IPC_STATUS_OK, s1)
      else if request_op word = REQ_SFAR_PLAN then (st2, s2)
      else if request_op word = REQ_TBAR then (st3, s3) else (st4, s4)))"
    using op by (elim insertE emptyE; simp add: cairn_branch_def req_defs Let_def ld(1) plan graph roll cairn_status_def)
  consider (store) "request_op word \<in> {REQ_CAIRN_INIT, REQ_CAIRN_STATUS}" | (plan0) "request_op word = REQ_SFAR_PLAN"
    | (rollback) "request_op word = REQ_SFAR_ROLLBACK" | (tbar) "request_op word = REQ_TBAR" using op by blast
  then show ?thesis
  proof cases
    case store
    then show ?thesis unfolding run spec using loaded_store_rel [OF ld(2)] by (simp add: answers_def)
  next
    case plan0
    show ?thesis
      unfolding run spec unfolding plan0
      using sfar_plan_spec [OF dv L plan] sfar_queries_reliable(1) [OF rel plan] rs zero
      by (auto simp: answers_def req_defs split: if_splits)
  next
    case rollback
    show ?thesis
      unfolding run spec unfolding rollback
      using post st4 by (auto simp: answers_def req_defs rollback_post_def rolled_def status_distinct)
  next
    case tbar
    show ?thesis
      unfolding run spec unfolding tbar
      using tbar_spec [OF dv L graph] sfar_queries_reliable(2) [OF rel graph] rs zero
      by (auto simp: answers_def req_defs split: if_splits)
  qed
qed

text \<open>On a device without faults the daemon answers every Cairn request as the ledger does.\<close>

lemma cairn_request_reliable:
  assumes rel: "reliable dv" and dv: "block_device dv content" and L: "store_rel (content (dev s)) L"
    and op: "request_op word \<in> set cairn_ops"
  shows "answers content (ledger_serve word from caps (input s) L) (cairn_request dv (request_op word) word from caps s)"
proof -
  let ?op = "request_op word" and ?ns = "cairn_ns word"
  have branch: "answers content (ledger_branch word from caps (input t) L) (cairn_branch dv ?op word from caps t)"
    if t: "store_rel (content (dev t)) L" for t
  proof (cases "?op \<in> set gated_ops \<union> {REQ_NS_REVOKE, REQ_NS_GRANT} \<and> \<not> cairn_ns_allowed ?ns caps")
    case True
    then have "?op \<in> set gated_ops \<union> {REQ_NS_REVOKE, REQ_NS_GRANT}" "\<not> cairn_ns_allowed ?ns caps" by simp_all
    note den = branch_denied [OF this]
    show ?thesis using t by (simp add: answers_def den)
  next
    case False
    consider "?op \<in> {REQ_NS_REVOKE, REQ_NS_GRANT, REQ_CAIRN_COMMIT, REQ_CAIRN_ROLLBACK}"
      | "?op \<in> {REQ_CAIRN_GET, REQ_CAIRN_LOG, REQ_CAIRN_VERIFY, REQ_SAND_LOG, REQ_SAND_INFO}"
      | "?op \<in> {REQ_CAIRN_INIT, REQ_CAIRN_STATUS, REQ_SFAR_PLAN, REQ_SFAR_ROLLBACK, REQ_TBAR}"
      using op by (auto simp: cairn_ops_def gated_ops_def)
    then show ?thesis
      using False branch_write_reliable [OF rel dv t, of word caps "from"]
        branch_read_reliable [OF rel dv t, of word caps "from"] branch_mission_reliable [OF rel dv t, of word "from" caps]
      by cases (auto simp: gated_ops_def)
  qed
  show ?thesis
  proof (cases "?op \<in> set gated_ops")
    case True
    obtain b t where g: "cairn_ns_revoked dv ?ns s = (b, t)" by fastforce
    obtain s1 where "cairn_load_super dv s = (True, s1)" using reliable_loaded [OF rel dv L] by blast
    with cairn_ns_revoked_spec [OF dv L g] have "b = cut_off L ?ns" "store_rel (content (dev t)) L" "input t = input s" by auto
    with True g branch [of t] show ?thesis by (auto simp: cairn_request_def ledger_serve_def answers_def)
  next
    case False
    with branch [OF L] show ?thesis by (simp add: cairn_request_def ledger_serve_def)
  qed
qed

section \<open>Every device fault\<close>

text \<open>
  The moves a request may make of the ledger, whatever the device does: none, the change its
  operation names when the sender holds the namespace, or steps of a mission's rollback.
\<close>

definition ledger_move :: "bool \<Rightarrow> u64 \<Rightarrow> u64 \<Rightarrow> u64 \<Rightarrow> mem \<Rightarrow> ledger \<Rightarrow> ledger \<Rightarrow> bool" where
  "ledger_move exact word from caps inp L L' \<longleftrightarrow>
     L' = L \<or>
     (cairn_ns_allowed (cairn_ns word) caps \<and>
       (request_op word = REQ_CAIRN_COMMIT \<and> length (log L) < LOG_CAPACITY \<and>
          L' = ledger_commit (cairn_ns word) (mem_read inp 0 (min (cairn_aux word) 447)) (ucast from)
            (sand_intent word) (sand_derived word) (sand_revclass word) L \<or>
        request_op word = REQ_CAIRN_ROLLBACK \<and> L' = ledger_rollback (cairn_ns word) (max (cairn_aux word) 1) L \<or>
        request_op word = REQ_NS_REVOKE \<and> L' = ledger_cut (cairn_ns word) True L \<or>
        request_op word = REQ_NS_GRANT \<and> L' = ledger_cut (cairn_ns word) False L)) \<or>
     (request_op word = REQ_SFAR_ROLLBACK \<and> sand_intent word \<noteq> 0 \<and>
        (exact \<longrightarrow> mission_authority (sand_intent word) caps L) \<and> rolled exact (sand_intent word) (ucast from) L L')"

definition write_ops :: "u64 list" where
  "write_ops = [REQ_NS_REVOKE, REQ_NS_GRANT, REQ_CAIRN_COMMIT, REQ_CAIRN_ROLLBACK]"

text \<open>A request is served: it returns, the store holds a move of the ledger, and an \<open>OK\<close> is durable.\<close>

definition served :: "bool \<Rightarrow> ('d \<Rightarrow> u64 \<Rightarrow> mem) \<Rightarrow> u64 \<Rightarrow> u64 \<Rightarrow> u64 \<Rightarrow> mem \<Rightarrow> ledger \<Rightarrow> (u64 \<times> 'd blk) option option \<Rightarrow> bool" where
  "served exact content word from caps inp L r \<longleftrightarrow>
     (\<exists>st s' L'. r = Some (Some (st, s')) \<and> store_rel (content (dev s')) L' \<and> ledger_move exact word from caps inp L L' \<and>
        (st = IPC_STATUS_OK \<and> request_op word \<in> set write_ops \<longrightarrow> L' = snd (ledger_branch word from caps inp L)))"

lemma servedI:
  "r = Some (Some (st, s')) \<Longrightarrow> store_rel (content (dev s')) L \<Longrightarrow>
    st \<noteq> IPC_STATUS_OK \<or> request_op word \<notin> set write_ops \<Longrightarrow> served exact content word from caps inp L r"
  by (auto simp: served_def ledger_move_def)

lemma branch_write_served:
  assumes dv: "block_device dv content" and L: "store_rel (content (dev s)) L"
    and al: "cairn_ns_allowed (cairn_ns word) caps" and op: "request_op word \<in> set write_ops"
  shows "served (reads_succeed dv) content word from caps (input s) L (cairn_branch dv (request_op word) word from caps s)"
proof -
  let ?ns = "cairn_ns word"
  note ns = allowed_bound [OF al]
  consider (rev) "request_op word = REQ_NS_REVOKE" | (grant) "request_op word = REQ_NS_GRANT"
    | (commit) "request_op word = REQ_CAIRN_COMMIT" | (rollback) "request_op word = REQ_CAIRN_ROLLBACK"
    using op by (auto simp: write_ops_def)
  then show ?thesis
  proof cases
    case rev
    obtain st s' where r: "cairn_ns_set_revoked dv ?ns True s = (st, s')" by fastforce
    have "cairn_branch dv (request_op word) word from caps s = Some (Some (st, s'))"
      "ledger_branch word from caps (input s) L = (IPC_STATUS_OK, ledger_cut ?ns True L)"
      using rev al r by (simp_all add: cairn_branch_def ledger_branch_def if_allowed_def req_defs Let_def)
    with cairn_ns_set_revoked_spec [OF dv L r] ns rev al show ?thesis
      by (auto simp: served_def ledger_move_def status_distinct)
  next
    case grant
    obtain st s' where r: "cairn_ns_set_revoked dv ?ns False s = (st, s')" by fastforce
    have "cairn_branch dv (request_op word) word from caps s = Some (Some (st, s'))"
      "ledger_branch word from caps (input s) L = (IPC_STATUS_OK, ledger_cut ?ns False L)"
      using grant al r by (simp_all add: cairn_branch_def ledger_branch_def if_allowed_def req_defs Let_def)
    with cairn_ns_set_revoked_spec [OF dv L r] ns grant al show ?thesis
      by (auto simp: served_def ledger_move_def status_distinct)
  next
    case commit
    obtain st s' where r: "cairn_commit dv ?ns (cairn_aux word) from (sand_intent word)
        (sand_derived word) (sand_revclass word) s = (st, s')" by fastforce
    let ?L = "ledger_commit ?ns (mem_read (input s) 0 (min (cairn_aux word) 447)) (ucast from)
      (sand_intent word) (sand_derived word) (sand_revclass word) L"
    have "cairn_branch dv (request_op word) word from caps s = Some (Some (st, s'))"
      "length (log L) < LOG_CAPACITY \<Longrightarrow> ledger_branch word from caps (input s) L = (IPC_STATUS_OK, ?L)"
      using commit al r by (simp_all add: cairn_branch_def ledger_branch_def if_allowed_def req_defs Let_def)
    with cairn_commit_spec [OF dv L ns r] commit al show ?thesis
      unfolding served_def ledger_move_def by (auto simp: status_distinct)
  next
    case rollback
    obtain st s' where r: "cairn_rollback dv ?ns (max (cairn_aux word) 1) s = (st, s')" by fastforce
    have run: "cairn_branch dv (request_op word) word from caps s = Some (Some (st, s'))"
      "snd (ledger_branch word from caps (input s) L) = (if stack L ?ns = [] then L else ledger_rollback ?ns (max (cairn_aux word) 1) L)"
      using rollback al r by (simp_all add: cairn_branch_def ledger_branch_def if_allowed_def req_defs Let_def)
    have "stack L ?ns = [] \<Longrightarrow> ledger_rollback ?ns n L = L" for n
      by (simp add: ledger_rollback_def fun_upd_idem)
    with cairn_rollback_spec [OF dv L ns r] rollback al run show ?thesis
      unfolding served_def ledger_move_def by (auto simp: status_distinct)
  qed
qed

lemma branch_read_served:
  assumes dv: "block_device dv content" and L: "store_rel (content (dev s)) L"
    and al: "cairn_ns_allowed (cairn_ns word) caps"
    and op: "request_op word \<in> {REQ_CAIRN_GET, REQ_CAIRN_LOG, REQ_CAIRN_VERIFY, REQ_SAND_LOG, REQ_SAND_INFO}"
  shows "served (reads_succeed dv) content word from caps (input s) L (cairn_branch dv (request_op word) word from caps s)"
proof -
  let ?ns = "cairn_ns word"
  note ns = allowed_bound [OF al]
  obtain st1 s1 where get: "cairn_get dv ?ns s = (st1, s1)" by fastforce
  obtain st2 x2 s2 where lg: "cairn_log dv ?ns s = ((st2, x2), s2)" by (metis surj_pair)
  obtain st3 s3 where vf: "cairn_verify dv ?ns s = (st3, s3)" by fastforce
  obtain st4 s4 where info: "sand_info dv ?ns s = (st4, s4)" by fastforce
  have kept: "store_rel (content (dev s1)) L" "store_rel (content (dev s2)) L" "store_rel (content (dev s3)) L"
    "store_rel (content (dev s4)) L"
    using cairn_get_spec [OF dv L ns get] cairn_log_spec [OF dv L ns lg] cairn_verify_spec [OF dv L ns vf]
      sand_info_spec [OF dv L ns info] by simp_all
  have run: "cairn_branch dv (request_op word) word from caps s = Some (Some (
      if request_op word = REQ_CAIRN_GET then (st1, s1)
      else if request_op word = REQ_CAIRN_VERIFY then (st3, s3)
      else if request_op word = REQ_SAND_INFO then (st4, s4) else (st2, s2)))"
    using op al by (elim insertE emptyE; simp add: cairn_branch_def req_defs if_allowed_def Let_def get lg vf info
        sand_log_is_cairn_log)
  have "request_op word \<notin> set write_ops" using op by (auto simp: write_ops_def req_defs)
  then show ?thesis unfolding run using kept by (auto intro: servedI)
qed

lemma branch_mission_served:
  assumes dv: "block_device dv content" and L: "store_rel (content (dev s)) L"
    and op: "request_op word \<in> {REQ_CAIRN_INIT, REQ_CAIRN_STATUS, REQ_SFAR_PLAN, REQ_SFAR_ROLLBACK, REQ_TBAR}"
  shows "served (reads_succeed dv) content word from caps (input s) L (cairn_branch dv (request_op word) word from caps s)"
proof -
  let ?ahd = "sand_intent word"
  obtain ok s1 where ld: "cairn_load_super dv s = (ok, s1)" by fastforce
  obtain st2 t2 s2 where plan: "sfar_plan dv ?ahd caps s = ((st2, t2), s2)" by (metis surj_pair)
  obtain st3 n3 s3 where graph: "tbar dv ?ahd caps s = ((st3, n3), s3)" by (metis surj_pair)
  obtain st4 s4 where roll: "sfar_rollback dv ?ahd caps from s = Some (st4, s4)"
    and post: "rollback_post (reads_succeed dv) ?ahd caps from L st4 (content (dev s4))"
    using sfar_rollback_spec [OF dv L, of ?ahd caps "from"] by auto
  have kept: "store_rel (content (dev s1)) L" "store_rel (content (dev s2)) L" "store_rel (content (dev s3)) L"
    using load_super_spec [OF dv L ld] sfar_plan_spec(1) [OF dv L plan] tbar_spec(1) [OF dv L graph] by simp_all
  have run: "cairn_branch dv (request_op word) word from caps s = Some (Some (
      if request_op word \<in> {REQ_CAIRN_INIT, REQ_CAIRN_STATUS} then (if ok then IPC_STATUS_OK else IPC_STATUS_IO_FAILURE, s1)
      else if request_op word = REQ_SFAR_PLAN then (st2, s2)
      else if request_op word = REQ_TBAR then (st3, s3) else (st4, s4)))"
    using op by (elim insertE emptyE; simp add: cairn_branch_def req_defs Let_def ld plan graph roll cairn_status_def)
  have nw: "request_op word \<notin> set write_ops" using op by (auto simp: write_ops_def req_defs)
  show ?thesis
  proof (cases "request_op word = REQ_SFAR_ROLLBACK")
    case True
    from post obtain L' where "store_rel (content (dev s4)) L'" "L' = L \<or> ?ahd \<noteq> 0 \<and> (reads_succeed dv \<longrightarrow> mission_authority ?ahd caps L) \<and> rolled (reads_succeed dv) ?ahd (ucast from) L L'"
      unfolding rollback_post_def by blast
    moreover have "cairn_branch dv (request_op word) word from caps s = Some (Some (st4, s4))"
      unfolding run unfolding True by (simp add: req_defs)
    ultimately show ?thesis using True nw unfolding served_def ledger_move_def by auto
  next
    case False
    then have "request_op word \<notin> {REQ_CAIRN_INIT, REQ_CAIRN_STATUS} \<Longrightarrow> request_op word = REQ_SFAR_PLAN \<or> request_op word = REQ_TBAR"
      using op by auto
    then show ?thesis unfolding run using kept nw by (auto intro: servedI)
  qed
qed

lemma cairn_request_served:
  assumes dv: "block_device dv content" and L: "store_rel (content (dev s)) L"
    and op: "request_op word \<in> set cairn_ops"
  shows "served (reads_succeed dv) content word from caps (input s) L (cairn_request dv (request_op word) word from caps s)"
proof -
  let ?op = "request_op word" and ?ns = "cairn_ns word"
  have branch: "served (reads_succeed dv) content word from caps (input t) L (cairn_branch dv ?op word from caps t)"
    if t: "store_rel (content (dev t)) L" for t
  proof (cases "?op \<in> set gated_ops \<union> {REQ_NS_REVOKE, REQ_NS_GRANT} \<and> \<not> cairn_ns_allowed ?ns caps")
    case True
    then have "?op \<in> set gated_ops \<union> {REQ_NS_REVOKE, REQ_NS_GRANT}" "\<not> cairn_ns_allowed ?ns caps" by simp_all
    from branch_denied(1) [OF this] t show ?thesis by (rule servedI) (simp add: status_distinct)
  next
    case False
    consider "?op \<in> set write_ops"
      | "?op \<in> {REQ_CAIRN_GET, REQ_CAIRN_LOG, REQ_CAIRN_VERIFY, REQ_SAND_LOG, REQ_SAND_INFO}"
      | "?op \<in> {REQ_CAIRN_INIT, REQ_CAIRN_STATUS, REQ_SFAR_PLAN, REQ_SFAR_ROLLBACK, REQ_TBAR}"
      using op by (auto simp: cairn_ops_def gated_ops_def write_ops_def)
    then show ?thesis
      using False branch_write_served [OF dv t, of word caps "from"]
        branch_read_served [OF dv t, of word caps "from"] branch_mission_served [OF dv t, of word "from" caps]
      by cases (auto simp: gated_ops_def write_ops_def)
  qed
  show ?thesis
  proof (cases "?op \<in> set gated_ops")
    case True
    obtain b t where g: "cairn_ns_revoked dv ?ns s = (b, t)" by fastforce
    with cairn_ns_revoked_spec [OF dv L g] have t: "store_rel (content (dev t)) L" "input t = input s" by auto
    have "cairn_request dv ?op word from caps s = (if b then Some (Some (IPC_STATUS_DENIED, t)) else cairn_branch dv ?op word from caps t)"
      using True g by (simp add: cairn_request_def)
    with branch [OF t(1)] t servedI [of _ IPC_STATUS_DENIED t content L word "reads_succeed dv" "from" caps "input s"]
    show ?thesis by (auto simp: status_distinct)
  next
    case False
    with branch [OF L] show ?thesis by (simp add: cairn_request_def)
  qed
qed

section \<open>One turn\<close>

lemma cairn_ops_cases:
  assumes "op \<in> set cairn_ops"
  shows "op \<in> {42, 43, 44, 45, 46, 47, 48, 49, 50, 51, 52, 53, 54, 55}"
  using assms unfolding cairn_ops_def gated_ops_def req_defs append.simps list.set by blast

lemma handlers_pass:
  assumes "op \<in> set cairn_ops"
  shows "block_request dv op sec s = None" "pkg_request dv op sec s = None" "info_request dv op s = None"
    "note_request dv op sec s = None" "lab_request dv op sec s = None" "calc_request dv op sec s = None"
    "vault_request dv op sec s = None"
  unfolding block_request_def pkg_request_def info_request_def note_request_def lab_request_def calc_request_def
    vault_request_def req_defs
  by (use cairn_ops_cases [OF assms] in \<open>elim insertE emptyE; simp\<close>)+

lemma cairn_request_pass:
  "op \<notin> set cairn_ops \<Longrightarrow> cairn_request dv op word from caps s = None"
  by (auto simp: cairn_request_def cairn_branch_def cairn_ops_def gated_ops_def Let_def)

lemma dispatch_cairn:
  "request_op word \<in> set cairn_ops \<Longrightarrow> dispatch dv word from caps s =
     (case cairn_request dv (request_op word) word from caps s of Some r \<Rightarrow> r
      | None \<Rightarrow> Some (if request_op word = REQ_FAULT_DEMO then IPC_STATUS_OK else IPC_STATUS_BAD_REQUEST, s))"
  by (simp add: dispatch_def Let_def handlers_pass)

lemma orelse_framed:
  assumes "\<And>r. h = Some r \<Longrightarrow> framed content s (snd r)" and "\<exists>st s'. k = Some (st, s') \<and> framed content s s'"
  shows "\<exists>st s'. (case h of Some r \<Rightarrow> Some r | None \<Rightarrow> k) = Some (st, s') \<and> framed content s s'"
  using assms by (cases h) auto

lemma dispatch_other:
  assumes dv: "block_device dv content" and op: "request_op word \<notin> set cairn_ops"
    and raw: "request_op word \<noteq> REQ_BWRITE \<or> \<not> in_store (request_arg word)"
  shows "\<exists>st s'. dispatch dv word from caps s = Some (st, s') \<and> framed content s s'"
  unfolding dispatch_def Let_def cairn_request_pass [OF op] option.case
  by (rule orelse_framed, erule framed_requests(1) [OF dv _ raw], rule orelse_framed, erule framed_requests(2) [OF dv],
      rule orelse_framed, erule framed_requests(3) [OF dv], rule orelse_framed, erule framed_requests(4) [OF dv],
      rule orelse_framed, erule framed_requests(5) [OF dv], rule orelse_framed, erule framed_requests(6) [OF dv],
      rule orelse_framed, erule framed_requests(7) [OF dv], simp add: framed_refl)

section \<open>Runs of the daemon\<close>

text \<open>
  A request as the daemon receives it: the word, the sender and its attested capabilities, and
  what the sender left in the two shared windows.
\<close>

record request =
  rq_word :: u64
  rq_from :: u64
  rq_caps :: u64
  rq_data :: mem
  rq_input :: mem

definition serve :: "'d device \<Rightarrow> request \<Rightarrow> 'd \<Rightarrow> ((u64 \<times> nat option) \<times> 'd blk) option" where
  "serve dv r d = daemon_step dv (rq_word r) (rq_from r) (rq_caps r) \<lparr> dev = d, data = rq_data r, input = rq_input r \<rparr>"

fun daemon_run :: "'d device \<Rightarrow> request list \<Rightarrow> 'd \<Rightarrow> (u64 list \<times> 'd) option" where
  "daemon_run dv [] d = Some ([], d)"
| "daemon_run dv (r # rs) d =
     (case serve dv r d of
        None \<Rightarrow> None
      | Some ((reply, code), s) \<Rightarrow>
          if code \<noteq> None then Some ([reply], dev s)
          else map_option (\<lambda>(replies, d'). (reply # replies, d')) (daemon_run dv rs (dev s)))"

definition well_formed :: "u64 \<Rightarrow> bool" where
  "well_formed w \<longleftrightarrow> request_proto w = IPC_PROTO_V1 \<and> request_service w = IPC_SERVICE_VIRTIO_BLOCK"

definition raw_write :: "u64 \<Rightarrow> bool" where
  "raw_write w \<longleftrightarrow> request_op w = REQ_BWRITE \<and> in_store (request_arg w)"

lemma exit_code_cairn: "request_op w \<in> set cairn_ops \<Longrightarrow> exit_code (request_op w) = None"
  using cairn_ops_cases [of "request_op w"] by (auto simp: exit_code_def req_defs)

lemma serve_served:
  assumes dv: "block_device dv content" and L: "store_rel (content d) L" and raw: "\<not> raw_write (rq_word r)"
  shows "\<exists>x s' L'. serve dv r d = Some (x, s') \<and> store_rel (content (dev s')) L' \<and>
    ledger_move (reads_succeed dv) (rq_word r) (rq_from r) (rq_caps r) (rq_input r) L L'"
proof -
  let ?s = "\<lparr> dev = d, data = rq_data r, input = rq_input r \<rparr>" and ?w = "rq_word r"
  show ?thesis
  proof (cases "well_formed ?w")
    case False
    then show ?thesis using L by (auto simp: serve_def daemon_step_def well_formed_def ledger_move_def)
  next
    case wf: True
    have "\<exists>st s' L'. dispatch dv ?w (rq_from r) (rq_caps r) ?s = Some (st, s') \<and> store_rel (content (dev s')) L' \<and>
      ledger_move (reads_succeed dv) ?w (rq_from r) (rq_caps r) (rq_input r) L L'"
    proof (cases "request_op ?w \<in> set cairn_ops")
      case True
      then show ?thesis
        using cairn_request_served [OF dv _ True, of ?s L "rq_from r" "rq_caps r"] L
        by (auto simp: dispatch_cairn served_def)
    next
      case False
      obtain st s' where "dispatch dv ?w (rq_from r) (rq_caps r) ?s = Some (st, s')" "framed content ?s s'"
        using dispatch_other [OF dv False] raw unfolding raw_write_def by blast
      moreover from framed_store_rel [OF this(2)] have "store_rel (content (dev s')) L" using L by simp
      ultimately show ?thesis unfolding ledger_move_def by blast
    qed
    with wf show ?thesis by (auto simp: serve_def daemon_step_def well_formed_def)
  qed
qed

lemma serve_reliable:
  assumes rel: "reliable dv" and dv: "block_device dv content" and L: "store_rel (content d) L"
    and wf: "well_formed (rq_word r)" and op: "request_op (rq_word r) \<in> set cairn_ops"
  shows "\<exists>s'. serve dv r d = Some ((reply_word (rq_word r) (fst (ledger_serve (rq_word r) (rq_from r) (rq_caps r) (rq_input r) L)), None), s') \<and>
    store_rel (content (dev s')) (snd (ledger_serve (rq_word r) (rq_from r) (rq_caps r) (rq_input r) L))"
  using cairn_request_reliable [OF rel dv _ op, of "\<lparr> dev = d, data = rq_data r, input = rq_input r \<rparr>" L "rq_from r" "rq_caps r"]
    wf L exit_code_cairn [OF op]
  by (auto simp: serve_def daemon_step_def well_formed_def dispatch_cairn [OF op] answers_def)

text \<open>The ledger's own run of the same requests.\<close>

fun ledger_run :: "request list \<Rightarrow> ledger \<Rightarrow> u64 list \<times> ledger" where
  "ledger_run [] L = ([], L)"
| "ledger_run (r # rs) L =
     (let (st, L') = ledger_serve (rq_word r) (rq_from r) (rq_caps r) (rq_input r) L;
          (replies, L'') = ledger_run rs L' in
      (reply_word (rq_word r) st # replies, L''))"

lemma daemon_run_reliable:
  assumes rel: "reliable dv" and dv: "block_device dv content" and "store_rel (content d) L"
    and "list_all (\<lambda>r. well_formed (rq_word r) \<and> request_op (rq_word r) \<in> set cairn_ops) rs"
  shows "\<exists>d'. daemon_run dv rs d = Some (fst (ledger_run rs L), d') \<and> store_rel (content d') (snd (ledger_run rs L))"
  using assms(3,4)
proof (induction rs arbitrary: d L)
  case (Cons r rs)
  obtain st L' where spec: "ledger_serve (rq_word r) (rq_from r) (rq_caps r) (rq_input r) L = (st, L')" by fastforce
  obtain s' where s': "serve dv r d = Some ((reply_word (rq_word r) st, None), s')" "store_rel (content (dev s')) L'"
    using serve_reliable [OF rel dv Cons.prems(1), of r] Cons.prems(2) spec by auto
  obtain d' where "daemon_run dv rs (dev s') = Some (fst (ledger_run rs L'), d')" "store_rel (content d') (snd (ledger_run rs L'))"
    using Cons.IH [OF s'(2)] Cons.prems(2) by auto
  with s' spec show ?case by (auto split: prod.split)
qed simp

text \<open>What every move keeps.\<close>

lemma mission_steps_keep:
  assumes "mission_steps ahd a nss L L'"
  shows "ledger_ok L \<Longrightarrow> ledger_ok L'" and "prefix (log L) (log L')"
proof -
  have step: "(ledger_ok K \<longrightarrow> ledger_ok K') \<and> prefix (log K) (log K')" if "mission_step ahd a ns K K'" for ns K K'
    using that ledger_ok_mission_ns [of K ahd a ns] ledger_ok_rollback [of K ns]
    by (auto simp: mission_step_def mission_rollback_ns_def ledger_push_def ledger_rollback_def Let_def split: option.splits)
  have "(ledger_ok L \<longrightarrow> ledger_ok L') \<and> prefix (log L) (log L')"
    using assms
  proof (induction nss arbitrary: L)
    case (Cons ns nss)
    then obtain L1 where "mission_step ahd a ns L L1" "mission_steps ahd a nss L1 L'" by auto
    with step [of ns L L1] Cons.IH [of L1] show ?case by (auto intro: prefix_order.trans)
  qed simp
  then show "ledger_ok L \<Longrightarrow> ledger_ok L'" and "prefix (log L) (log L')" by simp_all
qed

lemma ledger_move_keep:
  assumes "ledger_move exact word from caps inp L L'"
  shows "ledger_ok L \<Longrightarrow> ledger_ok L'" and "prefix (log L) (log L')"
proof -
  show "ledger_ok L'" if "ledger_ok L"
    using assms that mission_steps_keep(1) [of "sand_intent word" "ucast from" "[0..<8]" L L']
    unfolding ledger_move_def rolled_def by (auto intro: ledger_ok_commit ledger_ok_rollback ledger_ok_cut)
  show "prefix (log L) (log L')"
    using assms mission_steps_keep(2) [of "sand_intent word" "ucast from" "[0..<8]" L L']
    unfolding ledger_move_def rolled_def
    by (auto simp: ledger_commit_def ledger_push_def ledger_rollback_def ledger_cut_def)
qed

lemma daemon_run_served:
  assumes dv: "block_device dv content" and "store_rel (content d) L" and "ledger_ok L"
    and "list_all (\<lambda>r. \<not> raw_write (rq_word r)) rs"
  shows "\<exists>replies d' L'. daemon_run dv rs d = Some (replies, d') \<and> store_rel (content d') L' \<and> ledger_ok L' \<and>
    prefix (log L) (log L')"
  using assms(2-)
proof (induction rs arbitrary: d L)
  case (Cons r rs)
  obtain reply code s1 L1 where s1: "serve dv r d = Some ((reply, code), s1)" "store_rel (content (dev s1)) L1"
    "ledger_move (reads_succeed dv) (rq_word r) (rq_from r) (rq_caps r) (rq_input r) L L1"
    using serve_served [OF dv Cons.prems(1), of r] Cons.prems(3) by auto
  note keep = ledger_move_keep [OF s1(3)]
  show ?case
  proof (cases code)
    case None
    obtain replies d' L' where "daemon_run dv rs (dev s1) = Some (replies, d')" "store_rel (content d') L'" "ledger_ok L'"
      "prefix (log L1) (log L')"
      using Cons.IH [OF s1(2)] keep(1) [OF Cons.prems(2)] Cons.prems(3) by auto
    with s1 None keep(2) show ?thesis by (auto intro: prefix_order.trans)
  next
    case (Some x)
    with s1 keep Cons.prems(2) show ?thesis by auto
  qed
qed auto

section \<open>Isolation of namespaces\<close>

lemma mission_rollback_untouched:
  assumes "\<not> mission_touches ahd L ns"
  shows "stack (mission_rollback ahd a L) ns = stack L ns"
proof -
  have step: "stack (mission_rollback_ns ahd a n K) ns = stack K ns" if "\<not> mission_touches ahd K ns" for n K
  proof (cases "n = ns")
    case True
    have "\<not> retractable ahd e \<and> e_intent e \<noteq> ahd" if "e \<in> set (stack K ns)" for e
      using that \<open>\<not> mission_touches ahd K ns\<close> by (auto simp: mission_touches_def retractable_def)
    then have "standing ahd (stack K ns) = stack K ns" "compensation_due ahd (stack K ns) = None"
      by (cases "stack K ns"; simp add: standing_def compensation_due_def)+
    with True show ?thesis by (simp add: mission_rollback_ns_def)
  next
    case False
    then show ?thesis by (auto simp: mission_rollback_ns_def ledger_push_def Let_def split: option.splits)
  qed
  have "stack (fold (mission_rollback_ns ahd a) nss L) ns = stack L ns" for nss
    using assms
  proof (induction nss arbitrary: L)
    case (Cons n nss)
    have same: "stack (mission_rollback_ns ahd a n L) ns = stack L ns" using step Cons.prems by simp
    then have "\<not> mission_touches ahd (mission_rollback_ns ahd a n L) ns" using Cons.prems by (simp add: mission_touches_def)
    with Cons.IH same show ?case by simp
  qed simp
  then show ?thesis by (simp add: mission_rollback_def)
qed

lemma allowed_bit: "cairn_ns_allowed ns caps \<longleftrightarrow> ns < 8 \<and> bit caps (8 + ns)"
proof -
  have "caps AND push_bit (8 + ns) 1 \<noteq> 0 \<longleftrightarrow> bit caps (8 + ns)" if "ns < 8"
  proof -
    have "bit (caps AND push_bit (8 + ns) 1) k \<longleftrightarrow> k = 8 + ns \<and> bit caps (8 + ns)" if "k < 64" for k
      using that by (auto simp: bit_simps)
    then show ?thesis using that bit_eq_iff [of "caps AND push_bit (8 + ns) 1" 0] by (auto simp: bit_simps)
  qed
  then show ?thesis by (auto simp: cairn_ns_allowed_def CAIRN1_NS_MAX_def TASK_CAIRN_NS_BASE_def)
qed

lemma ledger_move_isolated:
  assumes move: "ledger_move True word from caps inp L L'" and ns: "ns < 8" and caps: "\<not> bit caps (8 + ns)"
  shows "stack L' ns = stack L ns \<and> cut_off L' ns = cut_off L ns"
proof -
  have "cairn_ns_allowed (cairn_ns word) caps \<Longrightarrow> cairn_ns word \<noteq> ns" using caps by (auto simp: allowed_bit)
  with move have "stack L' ns = stack L ns \<and> cut_off L' ns = cut_off L ns \<or>
      mission_authority (sand_intent word) caps L \<and> rolled True (sand_intent word) (ucast from) L L'"
    by (auto simp: ledger_move_def ledger_commit_def ledger_push_def ledger_rollback_def ledger_cut_def)
  then show ?thesis
  proof
    assume roll: "mission_authority (sand_intent word) caps L \<and> rolled True (sand_intent word) (ucast from) L L'"
    then have "\<not> mission_touches (sand_intent word) L ns" using caps ns by (auto simp: mission_authority_def)
    with roll show ?thesis using mission_rollback_untouched mission_steps_cut by (auto simp: rolled_def)
  qed
qed

section \<open>The persisted cut-off\<close>

definition grants :: "nat \<Rightarrow> request \<Rightarrow> bool" where
  "grants ns r \<longleftrightarrow> request_op (rq_word r) = REQ_NS_GRANT \<and> cairn_ns (rq_word r) = ns"

lemma ledger_move_cut:
  assumes "ledger_move exact word from caps inp L L'" and "cut_off L ns"
    and "\<not> (request_op word = REQ_NS_GRANT \<and> cairn_ns word = ns)"
  shows "cut_off L' ns"
  using assms mission_steps_cut
  by (auto simp: ledger_move_def rolled_def ledger_commit_def ledger_push_def ledger_rollback_def ledger_cut_def)

lemma daemon_run_cut:
  assumes dv: "block_device dv content" and "store_rel (content d) L" and "cut_off L ns"
    and "list_all (\<lambda>r. \<not> raw_write (rq_word r) \<and> \<not> grants ns r) rs"
  shows "\<exists>replies d' L'. daemon_run dv rs d = Some (replies, d') \<and> store_rel (content d') L' \<and> cut_off L' ns"
  using assms(2-)
proof (induction rs arbitrary: d L)
  case (Cons r rs)
  obtain reply code s1 L1 where s1: "serve dv r d = Some ((reply, code), s1)" "store_rel (content (dev s1)) L1"
    "ledger_move (reads_succeed dv) (rq_word r) (rq_from r) (rq_caps r) (rq_input r) L L1"
    using serve_served [OF dv Cons.prems(1), of r] Cons.prems(3) by auto
  have cut: "cut_off L1 ns" using ledger_move_cut [OF s1(3) Cons.prems(2)] Cons.prems(3) by (auto simp: grants_def)
  show ?case
  proof (cases code)
    case None
    obtain replies d' L' where "daemon_run dv rs (dev s1) = Some (replies, d')" "store_rel (content d') L'" "cut_off L' ns"
      using Cons.IH [OF s1(2) cut] Cons.prems(3) by auto
    with s1 None show ?thesis by auto
  next
    case (Some x)
    with s1 cut show ?thesis by auto
  qed
qed auto

lemma gated_in_cairn_ops: "op \<in> set gated_ops \<Longrightarrow> op \<in> set cairn_ops"
  by (simp add: cairn_ops_def)

lemma revoked_denied:
  assumes rel: "reliable dv" and dv: "block_device dv content" and L: "store_rel (content d) L"
    and wf: "well_formed (rq_word r)" and op: "request_op (rq_word r) \<in> set gated_ops" and cut: "cut_off L (cairn_ns (rq_word r))"
  shows "\<exists>s'. serve dv r d = Some ((reply_word (rq_word r) IPC_STATUS_DENIED, None), s') \<and> store_rel (content (dev s')) L"
  using serve_reliable [OF rel dv L wf gated_in_cairn_ops [OF op]] op cut by (simp add: ledger_serve_def)

section \<open>A request without authority\<close>

lemma raw_write_erases:
  assumes rel: "reliable dv" and dv: "block_device dv content" and wf: "well_formed (rq_word r)"
    and op: "request_op (rq_word r) = REQ_BWRITE" "request_arg (rq_word r) = 1600"
  shows "\<exists>s'. serve dv r d = Some ((reply_word (rq_word r) IPC_STATUS_OK, None), s') \<and>
    store_rel (content (dev s')) empty_ledger"
proof -
  let ?s = "\<lparr> dev = d, data = rq_data r, input = rq_input r \<rparr>"
  obtain st s' where w: "rw dv 1600 True (set_data (bytes ''DEZH-DAEMON-BLOCK-OK'') ?s) = (st, s')" by fastforce
  have st: "st = 0" using reliable_rw [OF rel w] .
  have win: "mem_read (data (set_data (bytes ''DEZH-DAEMON-BLOCK-OK'') ?s)) 0 8 = bytes ''DEZH-DAE''"
    by (simp add: mem_read_def set_data_def SECTOR_SIZE_def bytes_def upt_rec)
  have "content (dev s') 1600 = sector_of (data (set_data (bytes ''DEZH-DAEMON-BLOCK-OK'') ?s))"
    using rw_write [OF dv w] st by auto
  then have "\<not> formatted (content (dev s'))"
    by (simp add: formatted_def win) (simp add: bytes_def)
  then have "store_rel (content (dev s')) empty_ledger" by (simp add: store_rel_def)
  moreover have "serve dv r d = Some ((reply_word (rq_word r) IPC_STATUS_OK, None), s')"
    using wf op w st
    by (simp add: serve_def daemon_step_def well_formed_def dispatch_def block_request_def status_from_io_def
        exit_code_def Let_def REQ_PROBE_def REQ_BWRITE_def REQ_STOP_def REQ_FAULT_DEMO_def)
  ultimately show ?thesis by blast
qed

section \<open>A fault in the revocation check\<close>

lemma ramdisk_rw:
  "rd_faults (dev s) = [] \<Longrightarrow> rw ramdisk_io sec w s =
     (0, if w then s\<lparr> dev := (dev s)\<lparr> rd_sectors := (rd_sectors (dev s))(sec := sector_of (data s)) \<rparr> \<rparr>
         else s\<lparr> data := rd_sectors (dev s) sec \<rparr>)"
  by (simp add: rw_def ramdisk_io_def Let_def)

lemma ramdisk_load:
  assumes "rd_faults (dev s) = []" and "formatted (ramdisk_content (dev s))"
  shows "cairn_load_super ramdisk_io s = (True, s\<lparr> data := rd_sectors (dev s) 1600 \<rparr>)"
proof -
  have "mem_read (rd_sectors (dev s) 1600) 0 8 = bytes ''DZCAIRN1''"
    using assms(2) mem_read_sector_of [of 0 8 "rd_sectors (dev s) 1600"] by (simp add: formatted_def ramdisk_content_def)
  then show ?thesis using assms(1)
    by (simp add: cairn_load_super_def ramdisk_rw CAIRN1_SUPER_SECTOR_def data_starts_with_def eval_nat_numeral)
qed

lemma ramdisk_commit_ok:
  assumes quiet: "rd_faults (dev s) = []" and fmt: "formatted (ramdisk_content (dev s))"
    and L: "store_rel (ramdisk_content (dev s)) L" and room: "length (log L) < LOG_CAPACITY"
  shows "fst (cairn_commit ramdisk_io ns len from i d c s) = IPC_STATUS_OK"
proof -
  let ?s = "s\<lparr> data := rd_sectors (dev s) 1600 \<rparr>"
  note ld = ramdisk_load [OF quiet fmt]
  have "loaded ramdisk_content L ?s" using load_super_spec [OF ramdisk_block_device L ld] by simp
  then have "unat (d_read_u32 8 ?s) < 255" using loaded_next(1) room by (fastforce simp: LOG_CAPACITY_def)
  then have nxt: "\<not> COMMIT_SLOTS \<le> d_read_u32 8 ?s" by (simp add: COMMIT_SLOTS_def word_le_nat_alt)
  have "commit_sector w \<noteq> 1600" for w
    using commit_sector_distinct [OF unat_u32_less [of w]] by (simp only: commit_sector_unat not_False_eq_True)
  then have again: "formatted (ramdisk_content ((dev s)\<lparr> rd_sectors := (rd_sectors (dev s))(commit_sector w := m) \<rparr>))" for w m
    using fmt by (simp add: formatted_def ramdisk_content_def)
  show ?thesis
    by (simp add: cairn_commit_def ld nxt Let_def ramdisk_rw quiet zero_data_def ramdisk_load again d_write_u32_def)
qed

lemma commit_after_fault:
  assumes fault: "rd_faults d = [True]" and fmt: "formatted (ramdisk_content d)" and L: "store_rel (ramdisk_content d) L"
    and wf: "well_formed (rq_word r)" and op: "request_op (rq_word r) = REQ_CAIRN_COMMIT"
    and al: "cairn_ns_allowed (cairn_ns (rq_word r)) (rq_caps r)" and room: "length (log L) < LOG_CAPACITY"
  shows "\<exists>s'. serve ramdisk_io r d = Some ((reply_word (rq_word r) IPC_STATUS_OK, None), s') \<and>
    store_rel (ramdisk_content (dev s')) (ledger_commit (cairn_ns (rq_word r))
      (mem_read (rq_input r) 0 (min (cairn_aux (rq_word r)) 447)) (ucast (rq_from r))
      (sand_intent (rq_word r)) (sand_derived (rq_word r)) (sand_revclass (rq_word r)) L)"
proof -
  let ?w = "rq_word r" and ?d = "d\<lparr> rd_faults := [] \<rparr>"
  let ?s = "\<lparr> dev = d, data = rq_data r, input = rq_input r \<rparr>"
  let ?t = "\<lparr> dev = ?d, data = rq_data r, input = rq_input r \<rparr>"
  have same: "ramdisk_content ?d = ramdisk_content d" by (simp add: ramdisk_content_def fun_eq_iff)
  have gate: "cairn_ns_revoked ramdisk_io (cairn_ns ?w) ?s = (False, ?t)"
    using fault by (simp add: cairn_ns_revoked_def cairn_load_super_def rw_def ramdisk_io_def Let_def)
  obtain st s' where c: "cairn_commit ramdisk_io (cairn_ns ?w) (cairn_aux ?w) (rq_from r) (sand_intent ?w)
      (sand_derived ?w) (sand_revclass ?w) ?t = (st, s')" by fastforce
  have st: "st = IPC_STATUS_OK"
    using ramdisk_commit_ok [of ?t L "cairn_ns ?w" "cairn_aux ?w" "rq_from r" "sand_intent ?w" "sand_derived ?w" "sand_revclass ?w"]
      fmt L room c same by simp
  have ops: "request_op ?w \<in> set cairn_ops" "request_op ?w \<in> set gated_ops" using op by (simp_all add: cairn_ops_def gated_ops_def)
  have "serve ramdisk_io r d = Some ((reply_word ?w st, None), s')"
    using wf al c gate ops exit_code_cairn [OF ops(1)]
    by (simp add: serve_def daemon_step_def well_formed_def dispatch_cairn cairn_request_def cairn_branch_def
        op if_allowed_def Let_def REQ_CAIRN_COMMIT_def REQ_NS_REVOKE_def REQ_NS_GRANT_def REQ_CAIRN_INIT_def REQ_CAIRN_STATUS_def)
  moreover have "store_rel (ramdisk_content (dev s')) (ledger_commit (cairn_ns ?w)
      (mem_read (rq_input r) 0 (min (cairn_aux ?w) 447)) (ucast (rq_from r))
      (sand_intent ?w) (sand_derived ?w) (sand_revclass ?w) L)"
    using cairn_commit_spec [OF ramdisk_block_device _ allowed_bound [OF al] c] L same st by (auto simp: status_distinct)
  ultimately show ?thesis using st by simp
qed

section \<open>Sample requests and disks\<close>

text \<open>A request by a sender that holds every capability, as the witnesses use it.\<close>

definition sample_request :: "u64 \<Rightarrow> u64 \<Rightarrow> request" where
  "sample_request op arg = \<lparr> rq_word = typed_word op 7 0x23 arg, rq_from = 5, rq_caps = 0xff00,
     rq_data = (\<lambda>_. 0), rq_input = (\<lambda>i. of_nat (i + 1)) \<rparr>"

lemma sample_word:
  "well_formed (rq_word (sample_request op arg))" "request_op (rq_word (sample_request op arg)) = take_bit 8 op"
  "request_arg (rq_word (sample_request op arg)) = take_bit 16 arg"
  by (simp_all add: sample_request_def well_formed_def typed_word_proto typed_word_fields)

lemma sample_op:
  assumes "op \<in> set cairn_ops"
  shows "request_op (rq_word (sample_request op arg)) = op"
proof -
  have "take_bit 8 op = op"
    using cairn_ops_cases [OF assms] by (elim insertE emptyE) (simp_all add: take_bit_eq_mask mask_eq_exp_minus_1)
  then show ?thesis by (simp add: sample_word)
qed

lemma sample_cairn: "op \<in> set cairn_ops \<Longrightarrow> request_op (rq_word (sample_request op arg)) \<in> set cairn_ops"
  by (simp add: sample_op)

lemma cairn_ops_member:
  "REQ_CAIRN_COMMIT \<in> set cairn_ops" "REQ_CAIRN_GET \<in> set cairn_ops" "REQ_NS_REVOKE \<in> set cairn_ops"
  "REQ_SFAR_ROLLBACK \<in> set cairn_ops" "REQ_CAIRN_ROLLBACK \<in> set cairn_ops"
  by (simp_all add: cairn_ops_def gated_ops_def)

lemma sample_not_raw: "op \<in> set cairn_ops \<Longrightarrow> \<not> raw_write (rq_word (sample_request op arg))"
  using sample_cairn [of op arg] cairn_ops_cases by (fastforce simp: raw_write_def REQ_BWRITE_def)

lemma live_rel_cut:
  "live_rel c m L \<Longrightarrow> ns < 8 \<Longrightarrow> live_rel c (put_u32 (40 + ns * 32) (if b then 1 else 0) m) (ledger_cut ns b L)"
  by (auto simp: live_rel_def ns_rel_def ledger_cut_def)

text \<open>A formatted disk whose namespace 2 is cut off.\<close>

definition cut_super :: mem where
  "cut_super = sector_of (put_u32 104 1 (data (format_super \<lparr> dev = (), data = (\<lambda>_. 0), input = (\<lambda>_. 0) \<rparr>)))"

lemma cut_super_rel: "store_rel (c(1600 := cut_super)) (ledger_cut 2 True empty_ledger)"
  using store_rel_super [OF live_rel_cut [OF format_super_live, where ns = 2 and b = True]] by (simp add: cut_super_def)

lemma cut_super_formatted: "formatted (c(1600 := cut_super))"
proof -
  have "live_rel c cut_super (ledger_cut 2 True empty_ledger)"
    using live_rel_cut [OF format_super_live, where ns = 2 and b = True] by (simp add: cut_super_def)
  then show ?thesis by (simp add: formatted_def live_rel_def)
qed

definition cut_disk :: "u64 \<Rightarrow> mem" where "cut_disk = blank_disk(1600 := cut_super)"

lemma cut_disk_content: "plain_content cut_disk = (plain_content blank_disk)(1600 := cut_super)"
  by (auto simp: plain_content_def cut_disk_def cut_super_def fun_eq_iff)

lemma cut_disk_store: "store_rel (plain_content cut_disk) (ledger_cut 2 True empty_ledger)"
  unfolding cut_disk_content by (rule cut_super_rel)

lemma sample_fields:
  "cairn_ns (rq_word (sample_request op arg)) = unat (drop_bit 12 (take_bit 16 arg) AND 0xf)"
  "cairn_aux (rq_word (sample_request op arg)) = unat (take_bit 16 arg AND 0xfff)"
  using sample_word(3) [of op arg] by (simp_all add: cairn_ns_def cairn_aux_def)

section \<open>Properties\<close>

text \<open>
  C1. On a device whose transfers succeed, serving any sequence of well-formed Cairn requests
  gives exactly the replies of the ledger and leaves its final ledger on the disk.
\<close>

theorem daemon_refines_ledger:
  assumes "reliable dv" and "block_device dv content" and "store_rel (content d) L"
    and "list_all (\<lambda>r. well_formed (rq_word r) \<and> request_op (rq_word r) \<in> set cairn_ops) rs"
  shows "\<exists>d'. daemon_run dv rs d = Some (fst (ledger_run rs L), d') \<and> store_rel (content d') (snd (ledger_run rs L))"
  using assms by (rule daemon_run_reliable)

theorem daemon_refines_ledger_witness:
  "\<exists>d'. daemon_run plain_disk_io [sample_request REQ_CAIRN_COMMIT 0x2003, sample_request REQ_CAIRN_GET 0x2000] blank_disk =
      Some (fst (ledger_run [sample_request REQ_CAIRN_COMMIT 0x2003, sample_request REQ_CAIRN_GET 0x2000] empty_ledger), d') \<and>
    store_rel (plain_content d') (snd (ledger_run [sample_request REQ_CAIRN_COMMIT 0x2003, sample_request REQ_CAIRN_GET 0x2000] empty_ledger))"
  by (rule daemon_refines_ledger [where content = plain_content, OF plain_disk_reliable plain_disk_block_device blank_store])
    (simp add: sample_word(1) sample_cairn cairn_ops_member)

text \<open>
  C2. Whatever transfers fail, a run of requests other than raw block writes into the store
  returns, the disk holds a well-formed ledger, and no logged effect is lost or changed.
\<close>

theorem daemon_survives_faults:
  assumes "block_device dv content" and "store_rel (content d) L" and "ledger_ok L"
    and "list_all (\<lambda>r. \<not> raw_write (rq_word r)) rs"
  shows "\<exists>replies d' L'. daemon_run dv rs d = Some (replies, d') \<and> store_rel (content d') L' \<and> ledger_ok L' \<and>
    prefix (log L) (log L')"
  using assms by (rule daemon_run_served)

theorem daemon_survives_faults_witness:
  "\<exists>replies d' L'. daemon_run ramdisk_io [sample_request REQ_CAIRN_COMMIT 0x2003, sample_request REQ_SFAR_ROLLBACK 0] faulty_disk =
      Some (replies, d') \<and> store_rel (ramdisk_content d') L' \<and> ledger_ok L' \<and> prefix (log empty_ledger) (log L')"
  by (rule daemon_survives_faults [where content = ramdisk_content, OF ramdisk_block_device faulty_store ledger_ok_empty])
    (simp add: sample_not_raw cairn_ops_member)

text \<open>
  C3. A sender without a namespace's capability bit changes neither what stands in that
  namespace nor its cut-off flag, by any request other than a raw block write.
\<close>

theorem namespace_isolation:
  assumes "block_device dv content" and "reads_succeed dv" and "store_rel (content d) L" and "\<not> raw_write (rq_word r)"
    and "ns < 8" and "\<not> bit (rq_caps r) (8 + ns)"
  shows "\<exists>x s' L'. serve dv r d = Some (x, s') \<and> store_rel (content (dev s')) L' \<and>
    stack L' ns = stack L ns \<and> cut_off L' ns = cut_off L ns"
  using serve_served [OF assms(1,3,4)] ledger_move_isolated [OF _ assms(5,6)] assms(2) by fastforce

theorem namespace_isolation_witness:
  "\<exists>x s' L'. serve plain_disk_io (sample_request REQ_CAIRN_COMMIT 0x2003 \<lparr> rq_caps := 0x100 \<rparr>) blank_disk = Some (x, s') \<and>
    store_rel (plain_content (dev s')) L' \<and> stack L' 2 = stack empty_ledger 2 \<and> cut_off L' 2 = cut_off empty_ledger 2"
proof (rule namespace_isolation [where content = plain_content, OF plain_disk_block_device reliable_reads [OF plain_disk_reliable] blank_store])
  show "\<not> raw_write (rq_word (sample_request REQ_CAIRN_COMMIT 0x2003 \<lparr> rq_caps := 0x100 \<rparr>))"
    using sample_not_raw [of REQ_CAIRN_COMMIT] by (simp add: cairn_ops_member)
qed (simp_all add: sample_request_def)

text \<open>
  C6. On a device whose transfers succeed, a namespace cut off on the disk stays cut off through any
  sequence of requests that holds no raw block write and no grant of this namespace: the daemon serves
  them all, and a gated request to the namespace after them is denied.
\<close>

theorem cut_off_persists:
  assumes "reliable dv" and "block_device dv content" and "store_rel (content d) L" and "cut_off L ns"
    and "list_all (\<lambda>r. \<not> raw_write (rq_word r) \<and> \<not> grants ns r) rs"
    and "well_formed (rq_word r)" and "request_op (rq_word r) \<in> set gated_ops" and "cairn_ns (rq_word r) = ns"
  shows "\<exists>replies d' s'. daemon_run dv rs d = Some (replies, d') \<and>
    serve dv r d' = Some ((reply_word (rq_word r) IPC_STATUS_DENIED, None), s')"
  using daemon_run_cut [OF assms(2-5)] revoked_denied [OF assms(1,2) _ assms(6,7)] assms(8) by blast

theorem cut_off_persists_witness:
  "\<exists>replies d' s'. daemon_run plain_disk_io [sample_request REQ_CAIRN_COMMIT 0x2003] cut_disk = Some (replies, d') \<and>
    serve plain_disk_io (sample_request REQ_CAIRN_GET 0x2000) d' =
      Some ((reply_word (rq_word (sample_request REQ_CAIRN_GET 0x2000)) IPC_STATUS_DENIED, None), s')"
proof (rule cut_off_persists [where content = plain_content and ns = 2, OF plain_disk_reliable plain_disk_block_device cut_disk_store])
  show "request_op (rq_word (sample_request REQ_CAIRN_GET 0x2000)) \<in> set gated_ops"
    by (simp add: sample_op cairn_ops_member gated_ops_def)
  show "list_all (\<lambda>r. \<not> raw_write (rq_word r) \<and> \<not> grants 2 r) [sample_request REQ_CAIRN_COMMIT 0x2003]"
    by (simp add: sample_not_raw cairn_ops_member grants_def sample_op REQ_CAIRN_COMMIT_def [symmetric])
      (simp add: REQ_CAIRN_COMMIT_def REQ_NS_GRANT_def)
qed (simp_all add: ledger_cut_def sample_word sample_fields take_bit_eq_mask mask_eq_exp_minus_1)

text \<open>
  C5. Under any device fault, a commit, a rollback of a reference, a revocation or a grant that is
  answered \<open>OK\<close> has its whole effect on the disk. The rollback of a mission is not among them: a read
  that fails ends its walk of a namespace early, and it is still answered \<open>OK\<close>.
\<close>

theorem acknowledged_change_is_durable:
  assumes dv: "block_device dv content" and L: "store_rel (content (dev s)) L"
    and op: "request_op word \<in> set write_ops" and run: "dispatch dv word from caps s = Some (IPC_STATUS_OK, s')"
  shows "store_rel (content (dev s')) (snd (ledger_branch word from caps (input s) L))"
proof -
  have ops: "request_op word \<in> set cairn_ops" using op by (auto simp: write_ops_def cairn_ops_def gated_ops_def)
  from cairn_request_served [OF dv L ops, of "from" caps] run op show ?thesis
    by (auto simp: served_def dispatch_cairn [OF ops])
qed

theorem acknowledged_change_is_durable_witness:
  "\<exists>s'. dispatch plain_disk_io (rq_word (sample_request REQ_NS_REVOKE 0x3000)) 5 0xff00
      \<lparr> dev = blank_disk, data = (\<lambda>_. 0), input = (\<lambda>_. 0) \<rparr> = Some (IPC_STATUS_OK, s') \<and>
    store_rel (plain_content (dev s')) (ledger_cut 3 True empty_ledger)"
proof -
  let ?w = "rq_word (sample_request REQ_NS_REVOKE 0x3000)"
  let ?s = "\<lparr> dev = blank_disk, data = (\<lambda>_. 0), input = (\<lambda>_. 0) \<rparr>"
  have op: "request_op ?w \<in> set cairn_ops" "request_op ?w \<in> set write_ops" "request_op ?w = REQ_NS_REVOKE"
    by (simp_all add: sample_op cairn_ops_member write_ops_def)
  have ns: "cairn_ns ?w = 3" by (simp add: sample_fields take_bit_eq_mask mask_eq_exp_minus_1)
  have spec: "ledger_branch ?w 5 0xff00 (input ?s) empty_ledger = (IPC_STATUS_OK, ledger_cut 3 True empty_ledger)"
    by (simp add: ledger_branch_def op(3) ns Let_def cairn_ns_allowed_def cairn_consts TASK_CAIRN_NS_BASE_def)
  then have "ledger_serve ?w 5 0xff00 (input ?s) empty_ledger = (IPC_STATUS_OK, ledger_cut 3 True empty_ledger)"
    by (simp add: ledger_serve_def empty_ledger_def)
  moreover have "answers plain_content (ledger_serve ?w 5 0xff00 (input ?s) empty_ledger)
      (cairn_request plain_disk_io (request_op ?w) ?w 5 0xff00 ?s)"
    by (rule cairn_request_reliable [OF plain_disk_reliable plain_disk_block_device _ op(1)]) (simp add: blank_store)
  ultimately obtain s' where run: "dispatch plain_disk_io ?w 5 0xff00 ?s = Some (IPC_STATUS_OK, s')"
    by (auto simp: answers_def dispatch_cairn [OF op(1)])
  have "store_rel (plain_content (dev s')) (snd (ledger_branch ?w 5 0xff00 (input ?s) empty_ledger))"
    by (rule acknowledged_change_is_durable [OF plain_disk_block_device _ op(2) run]) (simp add: blank_store)
  with spec run show ?thesis by simp
qed

text \<open>
  C29. The block-write request checks no capability: aimed at the store's superblock it is
  answered \<open>OK\<close> and every namespace's ledger is gone.
\<close>

theorem raw_block_write_bypasses_authority:
  assumes "reliable dv" and "block_device dv content" and "well_formed (rq_word r)"
    and "request_op (rq_word r) = REQ_BWRITE" and "request_arg (rq_word r) = 1600"
  shows "\<exists>s'. serve dv r d = Some ((reply_word (rq_word r) IPC_STATUS_OK, None), s') \<and>
    store_rel (content (dev s')) empty_ledger"
  using assms by (rule raw_write_erases)

theorem raw_block_write_bypasses_authority_witness:
  "\<exists>s'. serve plain_disk_io (sample_request REQ_BWRITE 1600 \<lparr> rq_caps := 0 \<rparr>) cut_disk =
      Some ((reply_word (rq_word (sample_request REQ_BWRITE 1600)) IPC_STATUS_OK, None), s') \<and>
    store_rel (plain_content (dev s')) empty_ledger"
  using raw_block_write_bypasses_authority [OF plain_disk_reliable plain_disk_block_device,
      of "sample_request REQ_BWRITE 1600 \<lparr> rq_caps := 0 \<rparr>" cut_disk]
  by (simp add: sample_word take_bit_eq_mask mask_eq_exp_minus_1 REQ_BWRITE_def)

text \<open>
  C28. One failed read of the superblock opens the persisted revocation: the gate takes it for
  "not revoked", and a commit to a cut-off namespace succeeds and is acknowledged.
\<close>

theorem revocation_check_fails_open:
  assumes "rd_faults d = [True]" and "formatted (ramdisk_content d)" and "store_rel (ramdisk_content d) L"
    and "cut_off L (cairn_ns (rq_word r))"
    and "well_formed (rq_word r)" and "request_op (rq_word r) = REQ_CAIRN_COMMIT"
    and "cairn_ns_allowed (cairn_ns (rq_word r)) (rq_caps r)" and "length (log L) < LOG_CAPACITY"
  shows "\<exists>s' L'. serve ramdisk_io r d = Some ((reply_word (rq_word r) IPC_STATUS_OK, None), s') \<and>
    store_rel (ramdisk_content (dev s')) L' \<and> length (log L') = length (log L) + 1 \<and>
    cut_off L' (cairn_ns (rq_word r))"
proof -
  have "length (log (ledger_commit n v a i e c L)) = length (log L) + 1"
    "cut_off (ledger_commit n v a i e c L) = cut_off L" for n v a i e c
    by (simp_all add: ledger_commit_def ledger_push_def)
  with commit_after_fault [OF assms(1-3,5-8)] assms(4) show ?thesis by metis
qed

theorem revocation_check_fails_open_witness:
  "\<exists>s' L'. serve ramdisk_io (sample_request REQ_CAIRN_COMMIT 0x2003) \<lparr> rd_sectors = cut_disk, rd_faults = [True] \<rparr> =
      Some ((reply_word (rq_word (sample_request REQ_CAIRN_COMMIT 0x2003)) IPC_STATUS_OK, None), s') \<and>
    store_rel (ramdisk_content (dev s')) L' \<and> length (log L') = 1 \<and> cut_off L' 2"
proof -
  have same: "ramdisk_content \<lparr> rd_sectors = cut_disk, rd_faults = [True] \<rparr> = plain_content cut_disk"
    by (simp add: ramdisk_content_def plain_content_def fun_eq_iff)
  have ns: "cairn_ns (rq_word (sample_request REQ_CAIRN_COMMIT 0x2003)) = 2"
    by (simp add: sample_fields take_bit_eq_mask mask_eq_exp_minus_1)
  have op: "request_op (rq_word (sample_request REQ_CAIRN_COMMIT 0x2003)) = REQ_CAIRN_COMMIT"
    by (rule sample_op) (rule cairn_ops_member)
  have al: "cairn_ns_allowed 2 (rq_caps (sample_request REQ_CAIRN_COMMIT 0x2003))"
    by (simp add: cairn_ns_allowed_def cairn_consts TASK_CAIRN_NS_BASE_def sample_request_def)
  have fmt: "formatted (plain_content cut_disk)" unfolding cut_disk_content by (rule cut_super_formatted)
  show ?thesis
    using revocation_check_fails_open [of "\<lparr> rd_sectors = cut_disk, rd_faults = [True] \<rparr>" "ledger_cut 2 True empty_ledger"
        "sample_request REQ_CAIRN_COMMIT 0x2003", unfolded ns same, OF _ fmt cut_disk_store _ sample_word(1) op al]
    by (simp add: ledger_cut_def empty_ledger_def LOG_CAPACITY_def)
qed

end
