(* ===== verification/Dezh_IR.thy ===== *)
theory Dezh_IR
  imports Dezh_Prelude "HOL-Library.Signed_Division"
begin

text \<open>
  The agent bytecode of dezh-core/src/ir.rs: its opcodes, the static verifier, the interpreter
  with its operand stack, call stack and linear memory, the capability-gated host calls and the
  assembler with the sum demo. The kernel's \<open>Host\<close> is a record of functions on a host state.
\<close>

section \<open>Opcodes, capabilities and sizes\<close>

type_synonym i64 = "64 word"

definition HALT :: u8 where [dezh_defs]: "HALT = 0x00"
definition PUSH :: u8 where [dezh_defs]: "PUSH = 0x01"
definition POP :: u8 where [dezh_defs]: "POP = 0x02"
definition DUP :: u8 where [dezh_defs]: "DUP = 0x03"
definition SWAP :: u8 where [dezh_defs]: "SWAP = 0x04"
definition ADD :: u8 where [dezh_defs]: "ADD = 0x10"
definition SUB :: u8 where [dezh_defs]: "SUB = 0x11"
definition MUL :: u8 where [dezh_defs]: "MUL = 0x12"
definition DIV :: u8 where [dezh_defs]: "DIV = 0x13"
definition MOD :: u8 where [dezh_defs]: "MOD = 0x14"
definition LT :: u8 where [dezh_defs]: "LT = 0x18"
definition GT :: u8 where [dezh_defs]: "GT = 0x19"
definition EQ :: u8 where [dezh_defs]: "EQ = 0x1a"
definition LOAD8 :: u8 where [dezh_defs]: "LOAD8 = 0x20"
definition STORE8 :: u8 where [dezh_defs]: "STORE8 = 0x21"
definition LOAD64 :: u8 where [dezh_defs]: "LOAD64 = 0x22"
definition STORE64 :: u8 where [dezh_defs]: "STORE64 = 0x23"
definition JMP :: u8 where [dezh_defs]: "JMP = 0x30"
definition JZ :: u8 where [dezh_defs]: "JZ = 0x31"
definition JNZ :: u8 where [dezh_defs]: "JNZ = 0x32"
definition CALL :: u8 where [dezh_defs]: "CALL = 0x40"
definition RET :: u8 where [dezh_defs]: "RET = 0x41"
definition HOSTCALL :: u8 where [dezh_defs]: "HOSTCALL = 0x50"

lemmas op_defs = HALT_def PUSH_def POP_def DUP_def SWAP_def ADD_def SUB_def MUL_def DIV_def MOD_def
  LT_def GT_def EQ_def LOAD8_def STORE8_def LOAD64_def STORE64_def JMP_def JZ_def JNZ_def CALL_def
  RET_def HOSTCALL_def

definition HC_PRINT_NUM :: u8 where "HC_PRINT_NUM = 0"
definition HC_PRINT_STR :: u8 where "HC_PRINT_STR = 1"
definition HC_CAIRN_PUT :: u8 where "HC_CAIRN_PUT = 2"
definition HC_CAIRN_GET :: u8 where "HC_CAIRN_GET = 3"

lemmas hc_defs = HC_PRINT_NUM_def HC_PRINT_STR_def HC_CAIRN_PUT_def HC_CAIRN_GET_def

definition CAP_PRINT :: u32 where "CAP_PRINT = 1"
definition CAP_WRITE :: u32 where "CAP_WRITE = 2"
definition CAP_READ :: u32 where "CAP_READ = 4"

definition MEM_SIZE :: nat where "MEM_SIZE = 256"
definition STACK_SIZE :: nat where "STACK_SIZE = 64"
definition CALL_SIZE :: nat where "CALL_SIZE = 16"
definition MAX_PROG :: nat where "MAX_PROG = 4096"

text \<open>The kernel's side of a host call; \<open>cairn_get\<close> fills the buffer it is lent.\<close>

record 'h Host =
  host_can :: "'h \<Rightarrow> u32 \<Rightarrow> bool"
  host_print_num :: "i64 \<Rightarrow> 'h \<Rightarrow> 'h"
  host_print_str :: "u8 list \<Rightarrow> 'h \<Rightarrow> 'h"
  host_cairn_put :: "u8 list \<Rightarrow> 'h \<Rightarrow> bool \<times> 'h"
  host_cairn_get :: "u8 list \<Rightarrow> 'h \<Rightarrow> nat option \<times> (nat \<Rightarrow> u8) \<times> 'h"

datatype Trap = StackOverflow | StackUnderflow | CallOverflow | CallUnderflow | BadOpcode | MemOob
  | DivZero | BadTarget | Truncated | TooLong | MissingCapability | NoDisk

section \<open>The verifier\<close>

definition op_size :: "u8 \<Rightarrow> nat option" where
  "op_size opc =
     (if opc = PUSH then Some 9
      else if opc \<in> {JMP, JZ, JNZ, CALL} then Some 3
      else if opc = HOSTCALL then Some 2
      else if opc \<in> {HALT, POP, DUP, SWAP, ADD, SUB, MUL, DIV, MOD, LT, GT, EQ, LOAD8, STORE8,
        LOAD64, STORE64, RET} then Some 1
      else None)"

lemma op_size_pos: "op_size opc = Some k \<Longrightarrow> 0 < k"
  by (auto simp: op_size_def split: if_splits)

text \<open>\<open>u16::from_le_bytes([code[at], code[at + 1]]) as usize\<close>, with the index checks.\<close>

definition u16_target :: "u8 list \<Rightarrow> nat \<Rightarrow> nat" where
  "u16_target code at = unat (from_le [code ! at, code ! (at + 1)] :: u16)"

text \<open>The first pass, from \<open>pc\<close>: the start offsets it marks.\<close>

function verify_starts :: "u8 list \<Rightarrow> nat \<Rightarrow> bool list \<Rightarrow> (Trap, bool list) outcome" where
  "verify_starts code pc starts =
     (if length code \<le> pc then Ok starts
      else if length starts \<le> pc then Panic
      else case op_size (code ! pc) of
          None \<Rightarrow> Err BadOpcode
        | Some sz \<Rightarrow> if pc + sz > length code then Err Truncated
            else verify_starts code (pc + sz) (starts[pc := True]))"
  by pat_completeness auto
termination
  by (relation "measure (\<lambda>(code, pc, starts). length code - pc)") (auto dest: op_size_pos)

text \<open>The second pass; \<open>op_size(op).unwrap()\<close> panics on an unknown opcode.\<close>

function verify_targets :: "u8 list \<Rightarrow> nat \<Rightarrow> bool list \<Rightarrow> (Trap, unit) outcome" where
  "verify_targets code pc starts =
     (if length code \<le> pc then Ok ()
      else obind
        (if code ! pc \<in> {JMP, JZ, JNZ, CALL}
         then if length code \<le> pc + 2 then Panic
           else let t = u16_target code (pc + 1) in
             if t \<ge> length code then Err BadTarget
             else if length starts \<le> t then Panic
             else if \<not> starts ! t then Err BadTarget else Ok ()
         else Ok ())
        (\<lambda>_. case op_size (code ! pc) of
            None \<Rightarrow> Panic
          | Some sz \<Rightarrow> verify_targets code (pc + sz) starts))"
  by pat_completeness auto
termination
  by (relation "measure (\<lambda>(code, pc, starts). length code - pc)") (auto dest: op_size_pos)

declare verify_starts.simps [simp del]
declare verify_targets.simps [simp del]

definition verify :: "u8 list \<Rightarrow> (Trap, unit) outcome" where
  "verify code =
     (if length code > MAX_PROG then Err TooLong
      else obind (verify_starts code 0 (replicate (MAX_PROG + 1) False))
        (\<lambda>starts. if length starts \<le> length code then Panic
           else verify_targets code 0 (starts[length code := True])))"

section \<open>The machine\<close>

text \<open>
  The arrays are functions of the index; the bounds of \<open>stack\<close>, \<open>calls\<close> and \<open>mem\<close> are the
  constants above, and an index at or past its bound panics.
\<close>

record Vm =
  vm_stack :: "nat \<Rightarrow> i64"
  vm_sp :: nat
  vm_calls :: "nat \<Rightarrow> nat"
  vm_csp :: nat
  vm_mem :: mem

text \<open>The locals of \<open>run\<close>.\<close>

record 'h machine =
  m_pc :: nat
  m_vm :: Vm
  m_host :: 'h

text \<open>Steps return like the Rust code, with \<open>?\<close> as the bind, and leave a machine behind.\<close>

type_synonym ('h, 'a) ir = "'h machine \<Rightarrow> (Trap, 'a) outcome \<times> 'h machine"

definition ir_ret :: "'a \<Rightarrow> ('h, 'a) ir" where
  "ir_ret x m = (Ok x, m)"

definition ir_err :: "Trap \<Rightarrow> ('h, 'a) ir" where
  "ir_err t m = (Err t, m)"

definition ir_panic :: "('h, 'a) ir" where
  "ir_panic m = (Panic, m)"

definition ir_bind :: "('h, 'a) ir \<Rightarrow> ('a \<Rightarrow> ('h, 'b) ir) \<Rightarrow> ('h, 'b) ir" where
  "ir_bind f g m = (case f m of (Ok x, m') \<Rightarrow> g x m' | (Err t, m') \<Rightarrow> (Err t, m') | (Panic, m') \<Rightarrow> (Panic, m'))"

definition vm_push :: "i64 \<Rightarrow> ('h, unit) ir" where
  "vm_push v m =
     (let w = m_vm m in
      if vm_sp w \<ge> STACK_SIZE then (Err StackOverflow, m)
      else (Ok (), m\<lparr> m_vm := w\<lparr> vm_stack := (vm_stack w)(vm_sp w := v), vm_sp := vm_sp w + 1 \<rparr> \<rparr>))"

definition vm_pop :: "('h, i64) ir" where
  "vm_pop m =
     (let w = m_vm m in
      if vm_sp w = 0 then (Err StackUnderflow, m)
      else if vm_sp w - 1 \<ge> STACK_SIZE then (Panic, m\<lparr> m_vm := w\<lparr> vm_sp := vm_sp w - 1 \<rparr> \<rparr>)
      else (Ok (vm_stack w (vm_sp w - 1)), m\<lparr> m_vm := w\<lparr> vm_sp := vm_sp w - 1 \<rparr> \<rparr>))"

text \<open>The addition on \<open>usize\<close> wraps (release profile; with overflow checks it panics instead).\<close>

definition vm_range :: "i64 \<Rightarrow> u64 \<Rightarrow> ('h, nat \<times> nat) ir" where
  "vm_range addr len =
     (if sint addr < 0 \<or> unat (addr + len) > MEM_SIZE then ir_err MemOob
      else ir_ret (unat addr, unat (addr + len)))"

text \<open>\<open>&mem[a..e]\<close>: panics when the bounds are out of order or past the end.\<close>

definition mem_slice :: "nat \<Rightarrow> nat \<Rightarrow> ('h, u8 list) ir" where
  "mem_slice a e m =
     (if a > e \<or> e > MEM_SIZE then (Panic, m) else (Ok (mem_read (vm_mem (m_vm m)) a (e - a)), m))"

definition mem_store :: "nat \<Rightarrow> u8 list \<Rightarrow> ('h, unit) ir" where
  "mem_store a bs m =
     (if a + length bs > MEM_SIZE then (Panic, m)
      else (Ok (), m\<lparr> m_vm := (m_vm m)\<lparr> vm_mem := mem_write (vm_mem (m_vm m)) a bs \<rparr> \<rparr>))"

definition ir_target :: "u8 list \<Rightarrow> nat \<Rightarrow> ('h, nat) ir" where
  "ir_target code pc =
     (if pc + 2 > length code then ir_err Truncated else ir_ret (u16_target code pc))"

definition ir_goto :: "nat \<Rightarrow> ('h, unit) ir" where
  "ir_goto pc m = (Ok (), m\<lparr> m_pc := pc \<rparr>)"

definition on_host :: "('h \<Rightarrow> 'a \<times> 'h) \<Rightarrow> ('h, 'a) ir" where
  "on_host f m = (let (x, h) = f (m_host m) in (Ok x, m\<lparr> m_host := h \<rparr>))"

section \<open>Host calls\<close>

definition require :: "'h Host \<Rightarrow> u32 \<Rightarrow> ('h, unit) ir" where
  "require H cap m = (if host_can H (m_host m) cap then ir_ret () m else ir_err MissingCapability m)"

text \<open>\<open>pop()? as usize\<close>, \<open>pop()?\<close>, \<open>range\<close> and the slice of the last three calls.\<close>

definition pop_window :: "('h, nat \<times> u8 list) ir" where
  "pop_window =
     ir_bind vm_pop (\<lambda>len. ir_bind vm_pop (\<lambda>addr. ir_bind (vm_range addr len) (\<lambda>(a, e).
       ir_bind (mem_slice a e) (\<lambda>bs. ir_ret (a, bs)))))"

text \<open>\<open>host.cairn_get(&mut mem[a..e]).ok_or(NoDisk)?\<close> and the push of the count.\<close>

definition cairn_get_into :: "'h Host \<Rightarrow> nat \<Rightarrow> u8 list \<Rightarrow> ('h, unit) ir" where
  "cairn_get_into H a bs =
     ir_bind (on_host (\<lambda>h. let (n, buf, h') = host_cairn_get H bs h in ((n, buf), h'))) (\<lambda>(n, buf).
       ir_bind (mem_store a (map buf [0..<length bs])) (\<lambda>_.
         case n of None \<Rightarrow> ir_err NoDisk | Some k \<Rightarrow> vm_push (of_nat k)))"

definition hostcall :: "u8 \<Rightarrow> 'h Host \<Rightarrow> ('h, unit) ir" where
  "hostcall f H =
     (if f = HC_PRINT_NUM then
        ir_bind (require H CAP_PRINT) (\<lambda>_. ir_bind vm_pop (\<lambda>v. on_host (\<lambda>h. ((), host_print_num H v h))))
      else if f = HC_PRINT_STR then
        ir_bind (require H CAP_PRINT) (\<lambda>_. ir_bind pop_window (\<lambda>(a, bs). on_host (\<lambda>h. ((), host_print_str H bs h))))
      else if f = HC_CAIRN_PUT then
        ir_bind (require H CAP_WRITE) (\<lambda>_. ir_bind pop_window (\<lambda>(a, bs).
          ir_bind (on_host (host_cairn_put H bs)) (\<lambda>ok. if ok then ir_ret () else ir_err NoDisk)))
      else if f = HC_CAIRN_GET then
        ir_bind (require H CAP_READ) (\<lambda>_. ir_bind pop_window (\<lambda>(a, bs). cairn_get_into H a bs))
      else ir_err BadOpcode)"

section \<open>The interpreter\<close>

text \<open>\<open>a / b\<close> and \<open>a % b\<close> truncate towards zero and panic when the quotient overflows.\<close>

definition I64_MIN :: i64 where "I64_MIN = push_bit 63 1"

definition ir_div :: "i64 \<Rightarrow> i64 \<Rightarrow> ('h, i64) ir" where
  "ir_div a b =
     (if b = 0 then ir_err DivZero
      else if a = I64_MIN \<and> b = -1 then ir_panic
      else ir_ret (word_of_int (sint a sdiv sint b)))"

definition ir_mod :: "i64 \<Rightarrow> i64 \<Rightarrow> ('h, i64) ir" where
  "ir_mod a b =
     (if b = 0 then ir_err DivZero
      else if a = I64_MIN \<and> b = -1 then ir_panic
      else ir_ret (word_of_int (sint a smod sint b)))"

definition exec_arith :: "u8 \<Rightarrow> ('h, unit) ir" where
  "exec_arith opc =
     ir_bind vm_pop (\<lambda>b. ir_bind vm_pop (\<lambda>a.
       ir_bind (if opc = ADD then ir_ret (a + b)
                else if opc = SUB then ir_ret (a - b)
                else if opc = MUL then ir_ret (a * b)
                else if opc = DIV then ir_div a b
                else ir_mod a b) vm_push))"

definition exec_compare :: "u8 \<Rightarrow> ('h, unit) ir" where
  "exec_compare opc =
     ir_bind vm_pop (\<lambda>b. ir_bind vm_pop (\<lambda>a.
       vm_push (of_bool (if opc = LT then sint a < sint b
                         else if opc = GT then sint a > sint b
                         else a = b))))"

definition exec_load :: "u8 \<Rightarrow> ('h, unit) ir" where
  "exec_load opc =
     ir_bind vm_pop (\<lambda>addr.
       ir_bind (vm_range addr (if opc = LOAD8 then 1 else 8)) (\<lambda>(a, e).
         ir_bind (mem_slice a e) (\<lambda>bs. vm_push (from_le bs))))"

definition exec_store :: "u8 \<Rightarrow> ('h, unit) ir" where
  "exec_store opc =
     ir_bind vm_pop (\<lambda>val. ir_bind vm_pop (\<lambda>addr.
       ir_bind (vm_range addr (if opc = STORE8 then 1 else 8)) (\<lambda>(a, e).
         mem_store a (to_le (if opc = STORE8 then 1 else 8) val))))"

text \<open>\<open>pc\<close> is past the opcode when the branch and call instructions read their target.\<close>

definition exec_branch :: "u8 list \<Rightarrow> u8 \<Rightarrow> nat \<Rightarrow> ('h, unit) ir" where
  "exec_branch code opc pc =
     ir_bind (ir_target code pc) (\<lambda>t.
       if opc = JMP then ir_goto t
       else ir_bind (ir_goto (pc + 2)) (\<lambda>_. ir_bind vm_pop (\<lambda>v.
         if (opc = JZ) = (v = 0) then ir_goto t else ir_ret ())))"

definition exec_call :: "u8 list \<Rightarrow> nat \<Rightarrow> ('h, unit) ir" where
  "exec_call code pc =
     ir_bind (ir_target code pc) (\<lambda>t m.
       let w = m_vm m in
       if vm_csp w \<ge> CALL_SIZE then (Err CallOverflow, m)
       else (Ok (), m\<lparr> m_pc := t,
          m_vm := w\<lparr> vm_calls := (vm_calls w)(vm_csp w := pc + 2), vm_csp := vm_csp w + 1 \<rparr> \<rparr>))"

definition exec_ret :: "('h, unit) ir" where
  "exec_ret m =
     (let w = m_vm m in
      if vm_csp w = 0 then (Err CallUnderflow, m)
      else if vm_csp w - 1 \<ge> CALL_SIZE then (Panic, m)
      else (Ok (), m\<lparr> m_pc := vm_calls w (vm_csp w - 1), m_vm := w\<lparr> vm_csp := vm_csp w - 1 \<rparr> \<rparr>))"

definition exec_push :: "u8 list \<Rightarrow> nat \<Rightarrow> ('h, unit) ir" where
  "exec_push code pc =
     (if pc + 8 > length code then ir_err Truncated
      else ir_bind (vm_push (from_le (slice pc (pc + 8) code))) (\<lambda>_. ir_goto (pc + 8)))"

definition exec_hostcall :: "u8 list \<Rightarrow> nat \<Rightarrow> 'h Host \<Rightarrow> ('h, unit) ir" where
  "exec_hostcall code pc H =
     (if pc \<ge> length code then ir_err Truncated
      else ir_bind (ir_goto (pc + 1)) (\<lambda>_. hostcall (code ! pc) H))"

text \<open>One turn of the \<open>while\<close> loop, entered with \<open>pc < code.len()\<close>; \<open>HALT\<close> answers \<open>False\<close>.\<close>

definition ir_exec :: "u8 list \<Rightarrow> 'h Host \<Rightarrow> u8 \<Rightarrow> nat \<Rightarrow> ('h, unit) ir" where
  "ir_exec code H opc pc =
     (if opc = PUSH then exec_push code pc
      else if opc = POP then ir_bind vm_pop (\<lambda>_. ir_ret ())
      else if opc = DUP then ir_bind vm_pop (\<lambda>v. ir_bind (vm_push v) (\<lambda>_. vm_push v))
      else if opc = SWAP then
        ir_bind vm_pop (\<lambda>a. ir_bind vm_pop (\<lambda>b. ir_bind (vm_push a) (\<lambda>_. vm_push b)))
      else if opc \<in> {ADD, SUB, MUL, DIV, MOD} then exec_arith opc
      else if opc \<in> {LT, GT, EQ} then exec_compare opc
      else if opc \<in> {LOAD8, LOAD64} then exec_load opc
      else if opc \<in> {STORE8, STORE64} then exec_store opc
      else if opc \<in> {JMP, JZ, JNZ} then exec_branch code opc pc
      else if opc = CALL then exec_call code pc
      else if opc = RET then exec_ret
      else if opc = HOSTCALL then exec_hostcall code pc H
      else ir_err BadOpcode)"

definition ir_step :: "u8 list \<Rightarrow> 'h Host \<Rightarrow> ('h, bool) ir" where
  "ir_step code H m =
     (let opc = code ! m_pc m; pc = m_pc m + 1 in
      if opc = HALT then (Ok False, m\<lparr> m_pc := pc \<rparr>)
      else ir_bind (ir_exec code H opc pc) (\<lambda>_. ir_ret True) (m\<lparr> m_pc := pc \<rparr>))"

partial_function (option) ir_loop ::
    "u8 list \<Rightarrow> 'h Host \<Rightarrow> 'h machine \<Rightarrow> ((Trap, unit) outcome \<times> 'h) option" where
  "ir_loop code H m =
     (if m_pc m \<ge> length code then Some (Ok (), m_host m)
      else case ir_step code H m of
          (Ok go, m') \<Rightarrow> if go then ir_loop code H m' else Some (Ok (), m_host m')
        | (Err t, m') \<Rightarrow> Some (Err t, m_host m')
        | (Panic, m') \<Rightarrow> Some (Panic, m_host m'))"

definition ir_start :: "'h \<Rightarrow> 'h machine" where
  "ir_start h = \<lparr> m_pc = 0,
     m_vm = \<lparr> vm_stack = (\<lambda>_. 0), vm_sp = 0, vm_calls = (\<lambda>_. 0), vm_csp = 0, vm_mem = (\<lambda>_. 0) \<rparr>, m_host = h \<rparr>"

definition run :: "u8 list \<Rightarrow> 'h Host \<Rightarrow> 'h \<Rightarrow> ((Trap, unit) outcome \<times> 'h) option" where
  "run code H h = ir_loop code H (ir_start h)"

section \<open>The assembler and the sum program\<close>

text \<open>The buffer written so far; the caller's buffer bounds it (\<open>put\<close> panics past its end).\<close>

type_synonym asm = "u8 list"

definition asm_here :: "asm \<Rightarrow> u16" where "asm_here a = of_nat (length a)"

definition asm_put :: "nat \<Rightarrow> u8 \<Rightarrow> asm \<Rightarrow> asm option" where
  "asm_put cap b a = (if length a < cap then Some (a @ [b]) else None)"

primrec asm_puts :: "nat \<Rightarrow> u8 list \<Rightarrow> asm \<Rightarrow> asm option" where
  "asm_puts cap [] a = Some a"
| "asm_puts cap (b # bs) a = Option.bind (asm_put cap b a) (asm_puts cap bs)"

definition asm_push :: "i64 \<Rightarrow> u8 list" where "asm_push v = PUSH # to_le 8 v"
definition asm_hostcall :: "u8 \<Rightarrow> u8 list" where "asm_hostcall f = [HOSTCALL, f]"
definition asm_jmp :: "u16 \<Rightarrow> u8 list" where "asm_jmp t = JMP # to_le 2 t"

text \<open>A forward branch: the emitted bytes and the offset to patch.\<close>

definition asm_jz_fwd :: "u8 list" where "asm_jz_fwd = [JZ, 0, 0]"

definition asm_patch :: "nat \<Rightarrow> u16 \<Rightarrow> asm \<Rightarrow> asm option" where
  "asm_patch at t a = (if at + 1 < length a then Some (a[at := to_le 2 t ! 0, at + 1 := to_le 2 t ! 1]) else None)"

definition demo_sum_init :: "u8 list" where
  "demo_sum_init = asm_push 0 @ asm_push 0 @ [STORE64] @ asm_push 8 @ asm_push 1 @ [STORE64]"

definition demo_sum_test :: "u8 list" where
  "demo_sum_test = asm_push 8 @ [LOAD64] @ asm_push 6 @ [LT]"

definition demo_sum_body :: "u8 list" where
  "demo_sum_body = asm_push 0 @ asm_push 0 @ [LOAD64] @ asm_push 8 @ [LOAD64, ADD, STORE64] @
     asm_push 8 @ asm_push 8 @ [LOAD64] @ asm_push 1 @ [ADD, STORE64]"

definition demo_sum_print :: "u8 list" where
  "demo_sum_print = asm_push 0 @ [LOAD64] @ asm_hostcall HC_PRINT_NUM @ [HALT]"

definition demo_sum :: "nat \<Rightarrow> u8 list option" where
  "demo_sum cap =
     Option.bind (asm_puts cap demo_sum_init []) (\<lambda>a.
       let loop_start = asm_here a in
       Option.bind (asm_puts cap (demo_sum_test @ asm_jz_fwd) a) (\<lambda>a.
         let jz = length a - 2 in
         Option.bind (asm_puts cap (demo_sum_body @ asm_jmp loop_start) a) (\<lambda>a.
           let end_at = asm_here a in
           Option.bind (asm_patch jz end_at a) (\<lambda>a. asm_puts cap demo_sum_print a))))"

section \<open>What the verifier accepts\<close>

text \<open>The offsets at which an instruction starts when the code is decoded from offset 0.\<close>

inductive boundary :: "u8 list \<Rightarrow> nat \<Rightarrow> bool" for code where
  boundary_start: "boundary code 0"
| boundary_next: "boundary code pc \<Longrightarrow> pc < length code \<Longrightarrow> op_size (code ! pc) = Some k \<Longrightarrow> boundary code (pc + k)"

lemma boundary_gap:
  "boundary code p \<Longrightarrow> boundary code q \<Longrightarrow> p < length code \<Longrightarrow> op_size (code ! p) = Some k \<Longrightarrow> \<not> (p < q \<and> q < p + k)"
proof (induction "p + q" arbitrary: p q k rule: less_induct)
  case less
  show ?case
  proof
    assume between: "p < q \<and> q < p + k"
    with \<open>boundary code q\<close> obtain q0 j where q: "boundary code q0" "q0 < length code" "op_size (code ! q0) = Some j" "q = q0 + j"
      by (auto elim: boundary.cases)
    then have "q0 < q" by (simp add: op_size_pos)
    consider "q0 = p" | "p < q0" | "q0 < p" by linarith
    then show False
    proof cases
      case 1
      with q less.prems(4) between show False by simp
    next
      case 2
      with less.hyps [of p q0 k] less.prems(1,3,4) q(1) \<open>q0 < q\<close> between show False by simp
    next
      case 3
      with less.hyps [of q0 p j] less.prems(1) q \<open>q0 < q\<close> between show False by simp
    qed
  qed
qed

definition well_formed_code :: "u8 list \<Rightarrow> bool" where
  "well_formed_code code \<longleftrightarrow> length code \<le> MAX_PROG \<and> boundary code (length code) \<and>
     (\<forall>pc < length code. boundary code pc \<and> code ! pc \<in> {JMP, JZ, JNZ, CALL} \<longrightarrow>
        u16_target code (pc + 1) < length code \<and> boundary code (u16_target code (pc + 1)))"

text \<open>An instruction of code that decodes to its end is known and complete.\<close>

lemma instruction_fits:
  assumes "boundary code (length code)" and "boundary code pc" and "pc < length code"
  obtains k where "op_size (code ! pc) = Some k" and "pc + k \<le> length code" and "boundary code (pc + k)"
proof -
  have "\<exists>k. op_size (code ! pc) = Some k"
  proof (rule ccontr)
    assume none: "\<not> ?thesis"
    have "q \<le> pc" if "boundary code q" for q
      using that
    proof (induction rule: boundary.induct)
      case (boundary_next q k)
      then have "q \<noteq> pc" using none by auto
      with boundary_next have "q < pc" by simp
      with boundary_gap [OF boundary_next.hyps(1) assms(2) boundary_next.hyps(2,3)] show ?case by simp
    qed simp
    with assms(1,3) show False by force
  qed
  then obtain k where k: "op_size (code ! pc) = Some k" by blast
  then have "pc + k \<le> length code"
    using boundary_gap [OF assms(2,1,3) k] assms(3) by simp
  with k show ?thesis using boundary_next [OF assms(2,3) k] by (rule that)
qed

definition marks :: "u8 list \<Rightarrow> nat \<Rightarrow> bool list \<Rightarrow> bool" where
  "marks code pc starts \<longleftrightarrow> (\<forall>i < length starts. starts ! i \<longleftrightarrow> boundary code i \<and> i < pc)"

lemma verify_starts_spec:
  assumes "boundary code pc" and "pc \<le> length code" and "length code < length starts" and "marks code pc starts"
  shows "if boundary code (length code)
    then \<exists>starts'. verify_starts code pc starts = Ok starts' \<and> length starts' = length starts \<and> marks code (length code) starts'
    else \<exists>t. verify_starts code pc starts = Err t"
  using assms
proof (induction code pc starts rule: verify_starts.induct)
  case (1 code pc starts)
  show ?case
  proof (cases "pc = length code")
    case True
    with 1 show ?thesis by (simp add: verify_starts.simps)
  next
    case False
    with 1 have pc: "pc < length code" "\<not> length code \<le> pc" "\<not> length starts \<le> pc" by simp_all
    show ?thesis
    proof (cases "op_size (code ! pc)")
      case None
      then have "\<not> boundary code (length code)"
        using instruction_fits [OF _ 1(2) pc(1)] by force
      with None pc show ?thesis by (subst verify_starts.simps) simp
    next
      case (Some k)
      show ?thesis
      proof (cases "pc + k \<le> length code")
        case True
        have gap: "i < pc + k \<and> boundary code i \<longleftrightarrow> i < pc \<and> boundary code i \<or> i = pc" for i
          using boundary_gap [OF 1(2) _ pc(1) Some, of i] 1(2) op_size_pos [OF Some] by (cases "i < pc"; cases "i = pc") auto
        then have "marks code (pc + k) (starts[pc := True])"
          using 1(5) pc 1(2) op_size_pos [OF Some] unfolding marks_def by (auto simp: nth_list_update)
        moreover have "verify_starts code pc starts = verify_starts code (pc + k) (starts[pc := True])"
          using True Some pc by (subst verify_starts.simps) simp
        ultimately show ?thesis
          using 1(1) [OF pc(2,3) Some] True boundary_next [OF 1(2) pc(1) Some] 1(4) by (auto split: if_splits)
      next
        case False
        then have "\<not> boundary code (length code)"
          using boundary_gap [OF 1(2) _ pc(1) Some] pc(1) by force
        with False Some pc show ?thesis by (subst verify_starts.simps) simp
      qed
    qed
  qed
qed

lemma verify_targets_spec:
  assumes "boundary code pc" and "pc \<le> length code" and "boundary code (length code)"
    and "length code < length starts" and "\<forall>i \<le> length code. starts ! i \<longleftrightarrow> boundary code i"
  shows "if \<forall>i < length code. pc \<le> i \<and> boundary code i \<and> code ! i \<in> {JMP, JZ, JNZ, CALL} \<longrightarrow>
        u16_target code (i + 1) < length code \<and> boundary code (u16_target code (i + 1))
    then verify_targets code pc starts = Ok () else verify_targets code pc starts = Err BadTarget"
  using assms
proof (induction code pc starts rule: verify_targets.induct)
  case (1 code pc starts)
  show ?case
  proof (cases "pc = length code")
    case True
    then show ?thesis by (simp add: verify_targets.simps)
  next
    case False
    with 1(3) have pc: "pc < length code" "\<not> length code \<le> pc" by simp_all
    obtain k where k: "op_size (code ! pc) = Some k" "pc + k \<le> length code" "boundary code (pc + k)"
      using instruction_fits [OF 1(4,2) pc(1)] .
    let ?br = "code ! pc \<in> {JMP, JZ, JNZ, CALL}" and ?t = "u16_target code (pc + 1)"
    let ?good = "?t < length code \<and> boundary code ?t"
    let ?check = "if ?br then if length code \<le> pc + 2 then Panic
        else let t = ?t in if t \<ge> length code then Err BadTarget
          else if length starts \<le> t then Panic else if \<not> starts ! t then Err BadTarget else Ok () else Ok ()"
    have fits: "?br \<Longrightarrow> \<not> length code \<le> pc + 2" using k by (auto simp: op_size_def op_defs)
    then have check: "?check = (if ?br \<and> \<not> ?good then Err BadTarget else Ok ())"
      using 1(5,6) by (auto simp: Let_def)
    have unfold: "verify_targets code pc starts = obind ?check (\<lambda>_. verify_targets code (pc + k) starts)"
      using pc k(1) by (subst verify_targets.simps) simp
    have later: "(\<forall>i < length code. pc \<le> i \<and> boundary code i \<and> P i \<longrightarrow> R i) \<longleftrightarrow>
        (P pc \<longrightarrow> R pc) \<and> (\<forall>i < length code. pc + k \<le> i \<and> boundary code i \<and> P i \<longrightarrow> R i)" for P R
      using boundary_gap [OF 1(2) _ pc(1) k(1)] 1(2) pc(1) op_size_pos [OF k(1)]
      by (metis add_leD1 le_neq_implies_less linorder_not_le)
    show ?thesis
    proof (cases "?br \<and> \<not> ?good")
      case True
      then show ?thesis using pc 1(2) unfolding unfold check by auto
    next
      case False
      then have ok: "?check = Ok ()" unfolding check by simp
      show ?thesis
        using 1(1) [OF pc(2) ok k(1)] k 1(4-6) False unfolding unfold ok by (subst later) auto
    qed
  qed
qed

lemma verify_correct: "verify code \<noteq> Panic \<and> (verify code = Ok () \<longleftrightarrow> well_formed_code code)"
proof (cases "length code \<le> MAX_PROG")
  case False
  then show ?thesis by (simp add: verify_def well_formed_code_def)
next
  case True
  let ?s0 = "replicate (MAX_PROG + 1) False"
  have pass1: "if boundary code (length code)
    then \<exists>s. verify_starts code 0 ?s0 = Ok s \<and> length s = length ?s0 \<and> marks code (length code) s
    else \<exists>t. verify_starts code 0 ?s0 = Err t"
    by (rule verify_starts_spec) (use True in \<open>auto simp: boundary_start marks_def nth_Cons' simp del: replicate_Suc\<close>)
  show ?thesis
  proof (cases "boundary code (length code)")
    case False
    with pass1 True show ?thesis by (auto simp: verify_def well_formed_code_def)
  next
    case end_ok: True
    with pass1 obtain s where s: "verify_starts code 0 ?s0 = Ok s" "length s = MAX_PROG + 1" "marks code (length code) s"
      by auto
    let ?s = "s[length code := True]"
    have "\<forall>i \<le> length code. ?s ! i \<longleftrightarrow> boundary code i"
      using s(2,3) True end_ok by (auto simp: marks_def nth_list_update)
    with verify_targets_spec [OF boundary_start _ end_ok, of ?s] s(1,2) True end_ok
    show ?thesis by (auto simp: verify_def well_formed_code_def split: if_splits)
  qed
qed

section \<open>Executions of verified code\<close>

text \<open>
  \<open>wp E f Q m\<close>: from \<open>m\<close> the action \<open>f\<close> ends in \<open>Q\<close>, or stops with a trap or a panic (\<open>None\<close>)
  that \<open>E\<close> allows.
\<close>

definition wp :: "(Trap option \<Rightarrow> bool) \<Rightarrow> ('h, 'a) ir \<Rightarrow> ('a \<Rightarrow> 'h machine \<Rightarrow> bool) \<Rightarrow> 'h machine \<Rightarrow> bool" where
  "wp E f Q m \<longleftrightarrow> (case f m of (Ok x, m') \<Rightarrow> Q x m' | (Err t, m') \<Rightarrow> E (Some t) | (Panic, m') \<Rightarrow> E None)"

named_theorems wp_simps \<open>weakest preconditions of the interpreter's actions\<close>

lemma wp_bind [wp_simps]: "wp E (ir_bind f g) Q m = wp E f (\<lambda>x. wp E (g x) Q) m"
  by (simp add: wp_def ir_bind_def split: prod.splits outcome.splits)

lemma wp_basic [wp_simps]:
  "wp E (ir_ret x) Q m = Q x m"
  "wp E (ir_err t) Q m = E (Some t)"
  "wp E ir_panic Q m = E None"
  "wp E (ir_goto pc) Q' m = Q' () (m\<lparr> m_pc := pc \<rparr>)"
  by (simp_all add: wp_def ir_ret_def ir_err_def ir_panic_def ir_goto_def)

lemma wp_if [wp_simps]: "wp E (if b then f else g) Q m = (if b then wp E f Q m else wp E g Q m)"
  by simp

lemma wp_case_prod [wp_simps]: "wp E (case p of (x, y) \<Rightarrow> f x y) Q m = (case p of (x, y) \<Rightarrow> wp E (f x y) Q m)"
  by (simp split: prod.splits)

lemma wp_push [wp_simps]:
  "wp E (vm_push v) Q m =
     (if vm_sp (m_vm m) \<ge> STACK_SIZE then E (Some StackOverflow)
      else Q () (m\<lparr> m_vm := (m_vm m)\<lparr> vm_stack := (vm_stack (m_vm m))(vm_sp (m_vm m) := v), vm_sp := vm_sp (m_vm m) + 1 \<rparr> \<rparr>))"
  by (simp add: wp_def vm_push_def Let_def)

lemma wp_pop [wp_simps]:
  "wp E vm_pop Q m =
     (if vm_sp (m_vm m) = 0 then E (Some StackUnderflow)
      else if vm_sp (m_vm m) - 1 \<ge> STACK_SIZE then E None
      else Q (vm_stack (m_vm m) (vm_sp (m_vm m) - 1)) (m\<lparr> m_vm := (m_vm m)\<lparr> vm_sp := vm_sp (m_vm m) - 1 \<rparr> \<rparr>))"
  by (simp add: wp_def vm_pop_def Let_def)

lemma wp_mem [wp_simps]:
  "wp E (mem_slice a e) Q m =
     (if a > e \<or> e > MEM_SIZE then E None else Q (mem_read (vm_mem (m_vm m)) a (e - a)) m)"
  "wp E (mem_store a bs) Q' m =
     (if a + length bs > MEM_SIZE then E None
      else Q' () (m\<lparr> m_vm := (m_vm m)\<lparr> vm_mem := mem_write (vm_mem (m_vm m)) a bs \<rparr> \<rparr>))"
  by (simp_all add: wp_def mem_slice_def mem_store_def)

lemma wp_on_host [wp_simps]:
  "wp E (on_host f) Q m = (case f (m_host m) of (x, h) \<Rightarrow> Q x (m\<lparr> m_host := h \<rparr>))"
  by (simp add: wp_def on_host_def split: prod.splits)

lemma wp_require [wp_simps]:
  "wp E (require H cap) Q m = (if host_can H (m_host m) cap then Q () m else E (Some MissingCapability))"
  by (simp add: wp_def require_def ir_ret_def ir_err_def)

lemma wp_call [wp_simps]:
  "wp E (exec_call code pc) Q m =
     (if pc + 2 > length code then E (Some Truncated)
      else if vm_csp (m_vm m) \<ge> CALL_SIZE then E (Some CallOverflow)
      else Q () (m\<lparr> m_pc := u16_target code pc,
        m_vm := (m_vm m)\<lparr> vm_calls := (vm_calls (m_vm m))(vm_csp (m_vm m) := pc + 2), vm_csp := vm_csp (m_vm m) + 1 \<rparr> \<rparr>))"
  by (simp add: wp_def exec_call_def ir_bind_def ir_target_def ir_err_def ir_ret_def Let_def)

lemma wp_ret [wp_simps]:
  "wp E exec_ret Q m =
     (if vm_csp (m_vm m) = 0 then E (Some CallUnderflow)
      else if vm_csp (m_vm m) - 1 \<ge> CALL_SIZE then E None
      else Q () (m\<lparr> m_pc := vm_calls (m_vm m) (vm_csp (m_vm m) - 1), m_vm := (m_vm m)\<lparr> vm_csp := vm_csp (m_vm m) - 1 \<rparr> \<rparr>))"
  by (simp add: wp_def exec_ret_def Let_def)

lemma wp_mono: "wp E f Q m \<Longrightarrow> (\<And>x m'. Q x m' \<Longrightarrow> Q' x m') \<Longrightarrow> (\<And>t. E t \<Longrightarrow> E' t) \<Longrightarrow> wp E' f Q' m"
  by (auto simp: wp_def split: prod.splits outcome.splits)

text \<open>
  The state invariant of the machine on verified code: the pointers are within their arrays and
  every return address is an instruction boundary.
\<close>

definition vm_ok :: "u8 list \<Rightarrow> Vm \<Rightarrow> bool" where
  "vm_ok code w \<longleftrightarrow> vm_sp w \<le> STACK_SIZE \<and> vm_csp w \<le> CALL_SIZE \<and> (\<forall>i < vm_csp w. boundary code (vm_calls w i))"

text \<open>The operands on top of the stack, and the two ways in which a step can panic.\<close>

definition operand :: "nat \<Rightarrow> Vm \<Rightarrow> i64" where
  "operand i w = vm_stack w (vm_sp w - i)"

definition quotient_overflows :: "u8 list \<Rightarrow> 'h machine \<Rightarrow> bool" where
  "quotient_overflows code m \<longleftrightarrow> code ! m_pc m \<in> {DIV, MOD} \<and>
     operand 2 (m_vm m) = I64_MIN \<and> operand 1 (m_vm m) = -1"

definition window_wraps :: "u8 list \<Rightarrow> 'h machine \<Rightarrow> bool" where
  "window_wraps code m \<longleftrightarrow> code ! m_pc m = HOSTCALL \<and>
     0 \<le> sint (operand 2 (m_vm m)) \<and> unat (operand 2 (m_vm m)) + unat (operand 1 (m_vm m)) \<ge> 2 ^ 64"

definition step_stops :: "u8 list \<Rightarrow> 'h machine \<Rightarrow> Trap option \<Rightarrow> bool" where
  "step_stops code m r \<longleftrightarrow> (case r of
       None \<Rightarrow> quotient_overflows code m \<or> window_wraps code m
     | Some t \<Rightarrow> t \<notin> {Truncated, BadTarget, TooLong} \<and>
         (t = BadOpcode \<longrightarrow> code ! m_pc m = HOSTCALL \<and> code ! (m_pc m + 1) \<notin> {HC_PRINT_NUM, HC_PRINT_STR, HC_CAIRN_PUT, HC_CAIRN_GET}))"

lemma wp_range [wp_simps]:
  "wp E (vm_range addr len) Q m =
     (if sint addr < 0 \<or> unat (addr + len) > MEM_SIZE then E (Some MemOob) else Q (unat addr, unat (addr + len)) m)"
  by (simp add: vm_range_def wp_simps)

lemma unat_add_no_wrap: "unat (a :: u64) + unat b < 2 ^ 64 \<Longrightarrow> unat (a + b) = unat a + unat b"
  by (simp add: unat_word_ariths)

lemma sint_nonneg_unat:
  assumes "0 \<le> sint (a :: i64)"
  shows "unat a < 2 ^ 63"
proof -
  have "\<not> bit (uint a) 63"
    using assms unfolding sint_uint by (simp only: signed_take_bit_nonnegative_iff len_num1) simp
  then have "take_bit (Suc 63) (uint a) = take_bit 63 (uint a)"
    by (simp only: take_bit_Suc_from_most) simp
  moreover have "take_bit (Suc 63) (uint a) = uint a"
    using uint_lt2p [of a] by (intro take_bit_int_eq_self) simp_all
  ultimately have "uint a < 2 ^ 63" using take_bit_int_less_exp [of 63 "uint a"] by argo
  then have "int (unat a) < 2 ^ 63" by (simp only: uint_nat)
  then show ?thesis by (simp only: of_nat_less_numeral_power_cancel_iff)
qed

lemma window_ordered:
  assumes "0 \<le> sint addr" and "unat (addr :: i64) + unat len < 2 ^ 64"
  shows "unat addr \<le> unat (addr + len)"
  using unat_add_no_wrap [OF assms(2)] by simp

lemma short_window:
  assumes "0 \<le> sint (addr :: i64)" and "unat len \<le> 8"
  shows "unat (addr + len) = unat addr + unat len"
  using sint_nonneg_unat [OF assms(1)] assms(2) by (intro unat_add_no_wrap) simp

text \<open>What a step leaves behind when the program counter is to stay.\<close>

definition step_inv :: "u8 list \<Rightarrow> 'h machine \<Rightarrow> bool" where
  "step_inv code m \<longleftrightarrow> boundary code (m_pc m) \<and> vm_ok code (m_vm m)"

lemma wp_pop_ok:
  assumes "vm_sp (m_vm m) \<le> 64"
  shows "wp E vm_pop Q m =
     (if vm_sp (m_vm m) = 0 then E (Some StackUnderflow)
      else Q (vm_stack (m_vm m) (vm_sp (m_vm m) - 1)) (m\<lparr> m_vm := (m_vm m)\<lparr> vm_sp := vm_sp (m_vm m) - 1 \<rparr> \<rparr>))"
  using assms by (cases "vm_sp (m_vm m)") (simp_all add: wp_pop STACK_SIZE_def)

lemma wp_pop_two:
  assumes "vm_sp (m_vm m) \<le> 64"
  shows "wp E (ir_bind vm_pop (\<lambda>b. ir_bind vm_pop (\<lambda>a. f b a))) Q m =
     (if vm_sp (m_vm m) < 2 then E (Some StackUnderflow)
      else wp E (f (operand 1 (m_vm m)) (operand 2 (m_vm m))) Q (m\<lparr> m_vm := (m_vm m)\<lparr> vm_sp := vm_sp (m_vm m) - 2 \<rparr> \<rparr>))"
proof -
  consider "vm_sp (m_vm m) = 0" | "vm_sp (m_vm m) = 1" | n where "vm_sp (m_vm m) = n + 2"
    by (metis add.commute add_2_eq_Suc' not0_implies_Suc One_nat_def)
  then show ?thesis
    using assms by cases (simp_all add: wp_bind wp_pop_ok operand_def)
qed

text \<open>Instructions that work on the operands only.\<close>

definition keeps :: "'h machine \<Rightarrow> 'h machine \<Rightarrow> bool" where
  "keeps m m' \<longleftrightarrow> m_pc m' = m_pc m \<and> vm_csp (m_vm m') = vm_csp (m_vm m) \<and>
     vm_calls (m_vm m') = vm_calls (m_vm m) \<and> vm_sp (m_vm m') \<le> 64"

definition data_trap :: "Trap option \<Rightarrow> bool" where
  "data_trap r \<longleftrightarrow> r \<in> {Some StackOverflow, Some StackUnderflow, Some DivZero, Some MemOob}"

lemma load_keeps: "vm_sp (m_vm m) \<le> 64 \<Longrightarrow> wp data_trap (exec_load opc) (\<lambda>_. keeps m) m"
  by (simp add: exec_load_def wp_bind wp_case_prod wp_push wp_pop_ok wp_mem wp_range data_trap_def keeps_def STACK_SIZE_def)
    (auto simp: short_window MEM_SIZE_def not_less)

lemma store_keeps: "vm_sp (m_vm m) \<le> 64 \<Longrightarrow> wp data_trap (exec_store opc) (\<lambda>_. keeps m) m"
  unfolding exec_store_def
  by (subst wp_pop_two, assumption, simp add: wp_bind wp_case_prod wp_mem wp_range data_trap_def keeps_def)
    (auto simp: short_window MEM_SIZE_def not_less)

lemma compare_keeps: "vm_sp (m_vm m) \<le> 64 \<Longrightarrow> wp data_trap (exec_compare opc) (\<lambda>_. keeps m) m"
  unfolding exec_compare_def
  by (subst wp_pop_two, assumption, simp add: wp_push data_trap_def keeps_def STACK_SIZE_def)

lemma arith_keeps:
  "vm_sp (m_vm m) \<le> 64 \<Longrightarrow>
    wp (\<lambda>r. data_trap r \<or> r = None \<and> opc \<notin> {ADD, SUB, MUL} \<and> operand 2 (m_vm m) = I64_MIN \<and> operand 1 (m_vm m) = -1)
      (exec_arith opc) (\<lambda>_. keeps m) m"
  unfolding exec_arith_def
  by (subst wp_pop_two, assumption)
    (simp add: wp_bind wp_if wp_basic wp_push ir_div_def ir_mod_def data_trap_def keeps_def STACK_SIZE_def)

lemma stack_keeps:
  "vm_sp (m_vm m) \<le> 64 \<Longrightarrow> opc \<in> {POP, DUP, SWAP} \<Longrightarrow> wp data_trap (ir_exec code H opc pc) (\<lambda>_. keeps m) m"
  by (elim insertE emptyE; simp add: ir_exec_def op_defs wp_bind wp_basic wp_pop_ok wp_push data_trap_def keeps_def STACK_SIZE_def;
      linarith?)

lemma wp_pop_window:
  assumes "vm_sp (m_vm m) \<le> 64"
  shows "wp E pop_window Q m =
    (let len = operand 1 (m_vm m); addr = operand 2 (m_vm m) in
     if vm_sp (m_vm m) < 2 then E (Some StackUnderflow)
     else if sint addr < 0 \<or> unat (addr + len) > 256 then E (Some MemOob)
     else if unat addr > unat (addr + len) then E None
     else Q (unat addr, mem_read (vm_mem (m_vm m)) (unat addr) (unat (addr + len) - unat addr))
       (m\<lparr> m_vm := (m_vm m)\<lparr> vm_sp := vm_sp (m_vm m) - 2 \<rparr> \<rparr>))"
  unfolding pop_window_def
  by (subst wp_pop_two [OF assms]) (simp add: wp_bind wp_basic wp_case_prod wp_range wp_mem MEM_SIZE_def Let_def)

definition host_stops :: "u8 \<Rightarrow> 'h machine \<Rightarrow> Trap option \<Rightarrow> bool" where
  "host_stops f m r \<longleftrightarrow> (case r of
       None \<Rightarrow> 0 \<le> sint (operand 2 (m_vm m)) \<and> unat (operand 2 (m_vm m)) + unat (operand 1 (m_vm m)) \<ge> 2 ^ 64
     | Some t \<Rightarrow> t \<in> {MissingCapability, StackOverflow, StackUnderflow, MemOob, NoDisk} \<or>
         t = BadOpcode \<and> f \<notin> {HC_PRINT_NUM, HC_PRINT_STR, HC_CAIRN_PUT, HC_CAIRN_GET})"

lemma window_wraps_iff:
  "0 \<le> sint (addr :: i64) \<Longrightarrow> unat (addr + len) < unat addr \<Longrightarrow> 2 ^ 64 \<le> unat addr + unat len"
  using window_ordered [of addr len] by linarith

lemma hostcall_keeps:
  assumes "vm_sp (m_vm m) \<le> 64"
  shows "wp (host_stops f m) (hostcall f H) (\<lambda>_. keeps m) m"
proof -
  have None: "host_stops g m None" if "0 \<le> sint (operand 2 (m_vm m))"
      "unat (operand 2 (m_vm m) + operand 1 (m_vm m)) < unat (operand 2 (m_vm m))" for g
    using window_wraps_iff [OF that] that(1) by (simp add: host_stops_def)
  have Some: "host_stops g m (Some t)" if "t \<in> {MissingCapability, StackOverflow, StackUnderflow, MemOob, NoDisk}" for g t
    using that by (simp add: host_stops_def)
  have get: "wp (host_stops g m) (cairn_get_into H a bs) (\<lambda>_. keeps m) m'"
    if "keeps m m'" "a + length bs \<le> 256" for g m' a bs
    using that by (auto simp: cairn_get_into_def wp_bind wp_case_prod wp_on_host wp_mem wp_push wp_basic MEM_SIZE_def STACK_SIZE_def keeps_def
        intro!: Some split: prod.splits option.splits)
  have keep: "keeps m (m\<lparr> m_vm := (m_vm m)\<lparr> vm_sp := vm_sp (m_vm m) - 2 \<rparr> \<rparr>)" using assms by (simp add: keeps_def)
  consider "f = HC_PRINT_NUM" | "f = HC_PRINT_STR" | "f = HC_CAIRN_PUT" | "f = HC_CAIRN_GET"
    | "f \<notin> {HC_PRINT_NUM, HC_PRINT_STR, HC_CAIRN_PUT, HC_CAIRN_GET}" by blast
  then show ?thesis
  proof cases
    case 4
    then show ?thesis
      by (auto simp: hostcall_def hc_defs wp_bind wp_require wp_pop_window [OF assms] Let_def not_less
          intro!: Some None get [OF keep])
  next
    case 5
    then show ?thesis by (auto simp: hostcall_def wp_basic host_stops_def)
  qed (use assms in \<open>auto simp: hostcall_def hc_defs wp_bind wp_require wp_pop_ok wp_pop_window wp_on_host wp_basic wp_if
        wp_case_prod keeps_def Let_def not_less split: prod.splits intro!: Some None\<close>)
qed

lemma keeps_inv: "step_inv code m \<Longrightarrow> keeps m m' \<Longrightarrow> step_inv code m'"
  by (simp add: step_inv_def vm_ok_def keeps_def STACK_SIZE_def)

text \<open>One step of verified code: it stays on instruction boundaries and stops only as listed.\<close>

lemma op_size_cases:
  assumes "op_size opc = Some k"
  obtains "opc = HALT" "k = 1" | "opc = PUSH" "k = 9" | "opc \<in> {JMP, JZ, JNZ, CALL}" "k = 3" | "opc = HOSTCALL" "k = 2" | "opc = RET" "k = 1"
    | "opc \<in> {POP, DUP, SWAP}" "k = 1" | "opc \<in> {ADD, SUB, MUL, DIV, MOD}" "k = 1" | "opc \<in> {LT, GT, EQ}" "k = 1"
    | "opc \<in> {LOAD8, LOAD64}" "k = 1" | "opc \<in> {STORE8, STORE64}" "k = 1"
  using assms unfolding op_size_def by (simp split: if_splits) blast

lemma control_step:
  assumes wf: "well_formed_code code" and inv: "step_inv code m" and pc: "m_pc m < length code"
    and opc: "code ! m_pc m \<in> {PUSH, JMP, JZ, JNZ, CALL, RET}"
    and k: "op_size (code ! m_pc m) = Some k" "m_pc m + k \<le> length code" "boundary code (m_pc m + k)"
  shows "wp (step_stops code m) (ir_exec code H (code ! m_pc m) (m_pc m + 1)) (\<lambda>_. step_inv code) (m\<lparr> m_pc := m_pc m + 1 \<rparr>)"
proof -
  have vm: "vm_sp (m_vm m) \<le> 64" "vm_csp (m_vm m) \<le> 16" "\<forall>i < vm_csp (m_vm m). boundary code (vm_calls (m_vm m) i)"
    and bd: "boundary code (m_pc m)"
    using inv by (simp_all add: step_inv_def vm_ok_def STACK_SIZE_def CALL_SIZE_def)
  have Some: "step_stops code m (Some t)" if "t \<in> {StackOverflow, StackUnderflow, CallOverflow, CallUnderflow}" for t
    using that by (auto simp: step_stops_def)
  note target = wf [unfolded well_formed_code_def, THEN conjunct2, THEN conjunct2, rule_format, OF pc]
  note defs = exec_push_def exec_branch_def ir_target_def ir_exec_def
  note rules = wp_bind wp_basic wp_if wp_push wp_pop_ok wp_call wp_ret
  note sizes = STACK_SIZE_def CALL_SIZE_def step_inv_def vm_ok_def
  from opc consider "code ! m_pc m = PUSH" | "code ! m_pc m \<in> {JMP, JZ, JNZ}" | "code ! m_pc m = CALL" | "code ! m_pc m = RET" by blast
  then show ?thesis
  proof cases
    case 1
    then have "k = 9" using k(1) by (simp add: op_size_def)
    with 1 k(2,3) vm show ?thesis by (simp add: defs op_defs rules sizes Some add.commute)
  next
    case 2
    then have "k = 3" using k(1) by (auto simp: op_size_def op_defs)
    then have exec: "ir_exec code H (code ! m_pc m) (m_pc m + 1) = exec_branch code (code ! m_pc m) (m_pc m + 1)"
      using 2 by (auto simp: ir_exec_def op_defs)
    show ?thesis
      unfolding exec exec_branch_def ir_target_def
      using 2 k(2,3) vm target bd \<open>k = 3\<close> by (auto simp: rules sizes numeral_3_eq_3 intro!: Some)
  next
    case 3
    then have "k = 3" using k(1) by (simp add: op_size_def op_defs)
    then have exec: "ir_exec code H (code ! m_pc m) (m_pc m + 1) = exec_call code (m_pc m + 1)"
      using 3 by (simp add: ir_exec_def op_defs)
    show ?thesis
      unfolding exec using 3 k(2,3) vm target bd \<open>k = 3\<close> by (auto simp: rules sizes less_Suc_eq numeral_3_eq_3 intro!: Some)
  next
    case 4
    then have exec: "ir_exec code H (code ! m_pc m) (m_pc m + 1) = exec_ret" by (simp add: ir_exec_def op_defs)
    show ?thesis
      unfolding exec using vm by (auto simp: rules sizes intro!: Some)
  qed
qed

lemma data_step:
  assumes inv: "step_inv code m" and bd: "boundary code (m_pc m + 1)"
    and opc: "code ! m_pc m \<in> {POP, DUP, SWAP, ADD, SUB, MUL, DIV, MOD, LT, GT, EQ, LOAD8, LOAD64, STORE8, STORE64}"
  shows "wp (step_stops code m) (ir_exec code H (code ! m_pc m) (m_pc m + 1)) (\<lambda>_. step_inv code) (m\<lparr> m_pc := m_pc m + 1 \<rparr>)"
proof -
  let ?m = "m\<lparr> m_pc := m_pc m + 1 \<rparr>" and ?o = "code ! m_pc m"
  have sp: "vm_sp (m_vm ?m) \<le> 64" and inv': "step_inv code ?m"
    using inv bd by (simp_all add: step_inv_def vm_ok_def STACK_SIZE_def)
  have trap: "step_stops code m r" if "data_trap r" for r
    using that by (auto simp: data_trap_def step_stops_def)
  have overflow: "?o \<in> {DIV, MOD} \<Longrightarrow> operand 2 (m_vm m) = I64_MIN \<Longrightarrow> operand 1 (m_vm m) = -1 \<Longrightarrow> step_stops code m None"
    by (simp add: step_stops_def quotient_overflows_def)
  note lift = wp_mono [OF _ keeps_inv [OF inv']]
  from opc consider "?o \<in> {POP, DUP, SWAP}" | "?o \<in> {ADD, SUB, MUL, DIV, MOD}" | "?o \<in> {LT, GT, EQ}"
    | "?o \<in> {LOAD8, LOAD64}" | "?o \<in> {STORE8, STORE64}" by blast
  then show ?thesis
  proof cases
    case 1
    show ?thesis by (rule lift [OF stack_keeps [OF sp 1]]) (simp_all add: trap)
  next
    case 2
    then have exec: "ir_exec code H ?o (m_pc m + 1) = exec_arith ?o" by (auto simp: ir_exec_def op_defs)
    show ?thesis
      unfolding exec by (rule lift [OF arith_keeps [OF sp]]) (use 2 overflow in \<open>auto intro: trap\<close>)
  next
    case 3
    then have exec: "ir_exec code H ?o (m_pc m + 1) = exec_compare ?o" by (auto simp: ir_exec_def op_defs)
    show ?thesis unfolding exec by (rule lift [OF compare_keeps [OF sp]]) (simp_all add: trap)
  next
    case 4
    then have exec: "ir_exec code H ?o (m_pc m + 1) = exec_load ?o" by (auto simp: ir_exec_def op_defs)
    show ?thesis unfolding exec by (rule lift [OF load_keeps [OF sp]]) (simp_all add: trap)
  next
    case 5
    then have exec: "ir_exec code H ?o (m_pc m + 1) = exec_store ?o" by (auto simp: ir_exec_def op_defs)
    show ?thesis unfolding exec by (rule lift [OF store_keeps [OF sp]]) (simp_all add: trap)
  qed
qed

lemma host_step:
  assumes inv: "step_inv code m" and fits: "m_pc m + 2 \<le> length code" and bd: "boundary code (m_pc m + 2)"
    and opc: "code ! m_pc m = HOSTCALL"
  shows "wp (step_stops code m) (ir_exec code H (code ! m_pc m) (m_pc m + 1)) (\<lambda>_. step_inv code) (m\<lparr> m_pc := m_pc m + 1 \<rparr>)"
proof -
  let ?m = "m\<lparr> m_pc := m_pc m + 2 \<rparr>" and ?f = "code ! (m_pc m + 1)"
  have sp: "vm_sp (m_vm ?m) \<le> 64" and inv': "step_inv code ?m"
    using inv bd by (simp_all add: step_inv_def vm_ok_def STACK_SIZE_def)
  have trap: "step_stops code m r" if "host_stops ?f ?m r" for r
    using that opc by (cases r) (auto simp: host_stops_def step_stops_def window_wraps_def)
  have "wp (step_stops code m) (hostcall ?f H) (\<lambda>_. step_inv code) ?m"
    by (rule wp_mono [OF hostcall_keeps [OF sp] keeps_inv [OF inv'] trap])
  then show ?thesis
    using opc fits by (simp add: ir_exec_def exec_hostcall_def op_defs wp_bind wp_basic)
qed

lemma ir_step_safe:
  assumes wf: "well_formed_code code" and inv: "step_inv code m" and pc: "m_pc m < length code"
  shows "wp (step_stops code m) (ir_step code H) (\<lambda>_. step_inv code) m"
proof -
  have end_ok: "boundary code (length code)" and bd: "boundary code (m_pc m)"
    using wf inv by (simp_all add: well_formed_code_def step_inv_def)
  obtain k where k: "op_size (code ! m_pc m) = Some k" "m_pc m + k \<le> length code" "boundary code (m_pc m + k)"
    using instruction_fits [OF end_ok bd pc] .
  have step: "wp (step_stops code m) (ir_step code H) (\<lambda>_. step_inv code) m"
    if "code ! m_pc m \<noteq> HALT"
      "wp (step_stops code m) (ir_exec code H (code ! m_pc m) (m_pc m + 1)) (\<lambda>_. step_inv code) (m\<lparr> m_pc := m_pc m + 1 \<rparr>)"
    using that by (simp add: wp_def ir_step_def ir_bind_def ir_ret_def Let_def split: prod.splits outcome.splits)
  have differ: "HALT \<notin> {PUSH, JMP, JZ, JNZ, CALL, RET, HOSTCALL, POP, DUP, SWAP, ADD, SUB, MUL, DIV, MOD, LT, GT, EQ,
      LOAD8, LOAD64, STORE8, STORE64}" by (simp add: op_defs)
  from k(1) show ?thesis
  proof (cases rule: op_size_cases)
    case 1
    then show ?thesis
      using k(3) inv by (simp add: wp_def ir_step_def step_inv_def)
  next
    case 4
    then have opc: "code ! m_pc m = HOSTCALL" and "k = 2" by simp_all
    show ?thesis
      by (rule step [OF _ host_step [OF inv _ _ opc]]) (use k \<open>k = 2\<close> opc in \<open>simp_all add: op_defs\<close>)
  qed (rule step; (use differ in force)?; (rule control_step [OF wf inv pc _ k] data_step [OF inv]); use k in auto)+
qed

section \<open>Whole runs\<close>

inductive ir_reach :: "u8 list \<Rightarrow> 'h Host \<Rightarrow> 'h \<Rightarrow> 'h machine \<Rightarrow> bool" for code H h where
  reach_start: "ir_reach code H h (ir_start h)"
| reach_step: "ir_reach code H h m \<Longrightarrow> m_pc m < length code \<Longrightarrow> ir_step code H m = (Ok True, m') \<Longrightarrow> ir_reach code H h m'"

text \<open>The run's result \<open>r\<close> is the result \<open>q\<close> of its last step.\<close>

definition ends_in :: "(Trap, unit) outcome \<Rightarrow> (Trap, bool) outcome \<Rightarrow> bool" where
  "ends_in r q \<longleftrightarrow> (case r of Ok _ \<Rightarrow> False | Err t \<Rightarrow> q = Err t | Panic \<Rightarrow> q = Panic)"

lemma ends_in_simps [simp]: "ends_in (Err t) q \<longleftrightarrow> q = Err t" "ends_in Panic q \<longleftrightarrow> q = Panic" "\<not> ends_in (Ok u) q"
  by (simp_all add: ends_in_def)

lemma ir_loop_stops:
  "ir_loop code H m = Some y \<Longrightarrow> ir_reach code H h m \<longrightarrow> fst y \<noteq> Ok () \<longrightarrow>
     (\<exists>m'. ir_reach code H h m' \<and> m_pc m' < length code \<and> ends_in (fst y) (fst (ir_step code H m')))"
proof (induction rule: ir_loop.raw_induct [rotated, consumes 1, case_names 1])
  case (1 loop code H m y)
  show ?case
  proof (cases "m_pc m < length code")
    case False
    with 1(2) show ?thesis by auto
  next
    case True
    obtain q m' where step: "ir_step code H m = (q, m')" by fastforce
    show ?thesis
    proof (cases q)
      case (Ok go)
      then show ?thesis
        using 1(2) 1(1) [of code H m' y] reach_step [OF _ True, of H h m'] step True by (cases go) auto
    qed (use 1(2) True step in force)+
  qed
qed

lemma ir_reach_inv:
  assumes "well_formed_code code" and "ir_reach code H h m"
  shows "step_inv code m"
  using assms(2)
proof induction
  case reach_start
  then show ?case by (simp add: step_inv_def vm_ok_def ir_start_def boundary_start)
next
  case (reach_step m m')
  with ir_step_safe [OF assms(1), of m H] show ?case by (simp add: wp_def)
qed

lemma verified_run_stops:
  assumes wf: "well_formed_code code" and "run code H h = Some (r, h')" and "r \<noteq> Ok ()"
  shows "\<exists>m. ir_reach code H h m \<and> m_pc m < length code \<and> boundary code (m_pc m) \<and>
    step_stops code m (case r of Err t \<Rightarrow> Some t | _ \<Rightarrow> None)"
proof -
  obtain m where m: "ir_reach code H h m" "m_pc m < length code"
    and r: "ends_in r (fst (ir_step code H m))"
    using ir_loop_stops [OF assms(2) [unfolded run_def]] reach_start assms(3) by fastforce
  have inv: "step_inv code m" by (rule ir_reach_inv [OF wf m(1)])
  have "step_stops code m (case r of Err t \<Rightarrow> Some t | _ \<Rightarrow> None)"
    using ir_step_safe [OF wf inv m(2), of H] r by (cases r) (auto simp: wp_def split: outcome.splits prod.splits)
  with m inv show ?thesis by (auto simp: step_inv_def)
qed

section \<open>Confinement\<close>

text \<open>Two hosts that differ only in operations the program's capabilities never reach.\<close>

definition same_granted :: "'h Host \<Rightarrow> 'h Host \<Rightarrow> bool" where
  "same_granted H H' \<longleftrightarrow> host_can H' = host_can H \<and>
     (\<forall>h. (host_can H h CAP_PRINT \<longrightarrow> (\<forall>v. host_print_num H' v h = host_print_num H v h) \<and>
            (\<forall>bs. host_print_str H' bs h = host_print_str H bs h)) \<and>
          (host_can H h CAP_WRITE \<longrightarrow> (\<forall>bs. host_cairn_put H' bs h = host_cairn_put H bs h)) \<and>
          (host_can H h CAP_READ \<longrightarrow> (\<forall>bs. host_cairn_get H' bs h = host_cairn_get H bs h)))"

lemma vm_pop_host: "vm_pop m = (r, m') \<Longrightarrow> m_host m' = m_host m"
  by (auto simp: vm_pop_def Let_def split: if_splits)

lemma pop_window_host: "pop_window m = (r, m') \<Longrightarrow> m_host m' = m_host m"
  by (auto simp: pop_window_def ir_bind_def vm_range_def mem_slice_def ir_ret_def ir_err_def
      dest!: vm_pop_host split: prod.splits outcome.splits if_splits)

lemma hostcall_confined:
  fixes H :: "'h Host"
  assumes "same_granted H H'"
  shows "hostcall f H' = hostcall f H"
proof (rule ext)
  fix m
  have can: "host_can H' = host_can H" using assms by (simp add: same_granted_def)
  have guarded: "ir_bind (require H' cap) (\<lambda>_. ir_bind act g') m = ir_bind (require H cap) (\<lambda>_. ir_bind act g) m"
    if "\<And>x m'. act m = (Ok x, m') \<Longrightarrow> m_host m' = m_host m" "\<And>x m'. host_can H (m_host m') cap \<Longrightarrow> g' x m' = g x m'"
    for cap and act :: "('h, 'a) ir" and g g'
    using that by (auto simp: ir_bind_def require_def can ir_ret_def ir_err_def split: prod.splits outcome.splits)
  have "ir_bind (require H' CAP_PRINT) (\<lambda>_. ir_bind vm_pop (\<lambda>v. on_host (\<lambda>h. ((), host_print_num H' v h)))) m =
      ir_bind (require H CAP_PRINT) (\<lambda>_. ir_bind vm_pop (\<lambda>v. on_host (\<lambda>h. ((), host_print_num H v h)))) m"
    by (rule guarded) (use assms in \<open>auto dest: vm_pop_host simp: same_granted_def on_host_def\<close>)
  moreover have "ir_bind (require H' CAP_PRINT) (\<lambda>_. ir_bind pop_window (\<lambda>(a, bs). on_host (\<lambda>h. ((), host_print_str H' bs h)))) m =
      ir_bind (require H CAP_PRINT) (\<lambda>_. ir_bind pop_window (\<lambda>(a, bs). on_host (\<lambda>h. ((), host_print_str H bs h)))) m"
    by (rule guarded) (use assms in \<open>auto dest: pop_window_host simp: same_granted_def on_host_def\<close>)
  moreover have "ir_bind (require H' CAP_WRITE) (\<lambda>_. ir_bind pop_window (\<lambda>(a, bs). ir_bind (on_host (host_cairn_put H' bs)) k)) m =
      ir_bind (require H CAP_WRITE) (\<lambda>_. ir_bind pop_window (\<lambda>(a, bs). ir_bind (on_host (host_cairn_put H bs)) k)) m" for k :: "bool \<Rightarrow> ('h, unit) ir"
    by (rule guarded) (use assms in \<open>auto dest: pop_window_host simp: same_granted_def on_host_def ir_bind_def\<close>)
  moreover have "ir_bind (require H' CAP_READ) (\<lambda>_. ir_bind pop_window (\<lambda>(a, bs). cairn_get_into H' a bs)) m =
      ir_bind (require H CAP_READ) (\<lambda>_. ir_bind pop_window (\<lambda>(a, bs). cairn_get_into H a bs)) m"
    by (rule guarded) (use assms in \<open>auto dest: pop_window_host simp: same_granted_def on_host_def ir_bind_def cairn_get_into_def\<close>)
  ultimately show "hostcall f H' m = hostcall f H m"
    unfolding hostcall_def by simp
qed

lemma ir_step_confined: "same_granted H H' \<Longrightarrow> ir_step code H' m = ir_step code H m"
  by (auto simp: ir_step_def ir_exec_def exec_hostcall_def ir_bind_def hostcall_confined Let_def)

lemma ir_loop_confined:
  fixes H :: "'h Host"
  assumes "same_granted H H'" and "ir_loop code H m = Some y"
  shows "ir_loop code H' m = Some y"
proof -
  have "\<forall>H'. same_granted H H' \<longrightarrow> ir_loop code H' m = Some y"
    using assms(2)
  proof (rule ir_loop.raw_induct [where P = "\<lambda>code H m y. \<forall>H'. same_granted H H' \<longrightarrow> ir_loop code H' m = Some y", rotated])
    fix loop code m y and H :: "'h Host"
    assume "\<And>code H m y. loop code H m = Some y \<Longrightarrow> \<forall>H'. same_granted H H' \<longrightarrow> ir_loop code H' m = Some y"
      and "(if length code \<le> m_pc m then Some (Ok (), m_host m)
        else case ir_step code H m of
          (Ok go, m') \<Rightarrow> if go then loop code H m' else Some (Ok (), m_host m')
        | (Err t, m') \<Rightarrow> Some (Err t, m_host m') | (Panic, m') \<Rightarrow> Some (Panic, m_host m')) = Some y"
    then show "\<forall>H'. same_granted H H' \<longrightarrow> ir_loop code H' m = Some y"
      by (subst ir_loop.simps) (auto simp: ir_step_confined split: prod.splits outcome.splits if_splits)
  qed
  with assms(1) show ?thesis by blast
qed

section \<open>The sum program\<close>

definition sum_code :: "u8 list" where
  "sum_code = demo_sum_init @ demo_sum_test @ [JZ, 125, 0] @ demo_sum_body @ [JMP, 38, 0] @ demo_sum_print"

lemma demo_sum_code: "demo_sum 256 = Some sum_code"
  by code_simp

lemma sum_code_bytes: "sum_code = [1,0,0,0,0,0,0,0,0, 1,0,0,0,0,0,0,0,0, 0x23, 1,8,0,0,0,0,0,0,0, 1,1,0,0,0,0,0,0,0, 0x23,
  1,8,0,0,0,0,0,0,0, 0x22, 1,6,0,0,0,0,0,0,0, 0x18, 0x31,125,0,
  1,0,0,0,0,0,0,0,0, 1,0,0,0,0,0,0,0,0, 0x22, 1,8,0,0,0,0,0,0,0, 0x22, 0x10, 0x23,
  1,8,0,0,0,0,0,0,0, 1,8,0,0,0,0,0,0,0, 0x22, 1,1,0,0,0,0,0,0,0, 0x10, 0x23, 0x30,38,0,
  1,0,0,0,0,0,0,0,0, 0x22, 0x50, 0, 0]"
  by code_simp

lemma length_sum_code: "length sum_code = 138"
  by (simp add: sum_code_bytes)

lemma sum_ops:
  "sum_code ! 0 = PUSH" "sum_code ! 9 = PUSH" "sum_code ! 18 = STORE64" "sum_code ! 19 = PUSH" "sum_code ! 28 = PUSH"
  "sum_code ! 37 = STORE64" "sum_code ! 38 = PUSH" "sum_code ! 47 = LOAD64" "sum_code ! 48 = PUSH"
  "sum_code ! 57 = LT" "sum_code ! 58 = JZ" "sum_code ! 61 = PUSH" "sum_code ! 70 = PUSH" "sum_code ! 79 = LOAD64"
  "sum_code ! 80 = PUSH" "sum_code ! 89 = LOAD64" "sum_code ! 90 = ADD" "sum_code ! 91 = STORE64"
  "sum_code ! 92 = PUSH" "sum_code ! 101 = PUSH" "sum_code ! 110 = LOAD64" "sum_code ! 111 = PUSH"
  "sum_code ! 120 = ADD" "sum_code ! 121 = STORE64" "sum_code ! 122 = JMP" "sum_code ! 125 = PUSH"
  "sum_code ! 134 = LOAD64" "sum_code ! 135 = HOSTCALL" "sum_code ! 137 = HALT"
  by (simp_all add: sum_code_bytes op_defs)

lemma sum_imms:
  "from_le (slice (Suc 0) 9 sum_code) = (0 :: i64)" "from_le (slice 10 18 sum_code) = (0 :: i64)"
  "from_le (slice 20 28 sum_code) = (8 :: i64)" "from_le (slice 29 37 sum_code) = (1 :: i64)"
  "from_le (slice 39 47 sum_code) = (8 :: i64)" "from_le (slice 49 57 sum_code) = (6 :: i64)"
  "from_le (slice 62 70 sum_code) = (0 :: i64)" "from_le (slice 71 79 sum_code) = (0 :: i64)"
  "from_le (slice 81 89 sum_code) = (8 :: i64)" "from_le (slice 93 101 sum_code) = (8 :: i64)"
  "from_le (slice 102 110 sum_code) = (8 :: i64)" "from_le (slice 112 120 sum_code) = (1 :: i64)"
  "from_le (slice 126 134 sum_code) = (0 :: i64)"
  "u16_target sum_code 59 = 125" "u16_target sum_code 123 = 38" "sum_code ! 136 = HC_PRINT_NUM"
  by (simp_all add: sum_code_bytes slice_def u16_target_def hc_defs)

text \<open>A machine that has made no call, and the loop's equation for each instruction of the program.\<close>

definition at :: "nat \<Rightarrow> nat \<Rightarrow> (nat \<Rightarrow> i64) \<Rightarrow> mem \<Rightarrow> 'h \<Rightarrow> 'h machine" where
  "at pc sp stk mm h = \<lparr> m_pc = pc,
     m_vm = \<lparr> vm_stack = stk, vm_sp = sp, vm_calls = (\<lambda>_. 0), vm_csp = 0, vm_mem = mm \<rparr>, m_host = h \<rparr>"

lemma ir_loop_next:
  "m_pc m < length code \<Longrightarrow> ir_step code H m = (Ok True, m') \<Longrightarrow> ir_loop code H m = ir_loop code H m'"
  by (subst ir_loop.simps) simp

named_theorems exec \<open>one instruction of a running program\<close>

lemmas act_defs = ir_step_def ir_exec_def ir_bind_def ir_ret_def ir_err_def ir_goto_def vm_push_def vm_pop_def Let_def STACK_SIZE_def at_def

lemma exec_PUSH [exec]:
  "code ! pc = PUSH \<Longrightarrow> pc + 9 \<le> length code \<Longrightarrow> sp < 64 \<Longrightarrow>
    ir_loop code H (at pc sp stk mm h) = ir_loop code H (at (pc + 9) (sp + 1) (stk(sp := from_le (slice (pc + 1) (pc + 9) code))) mm h)"
  by (rule ir_loop_next) (simp_all add: act_defs op_defs exec_push_def add.commute)

lemma exec_LOAD64 [exec]:
  "code ! pc = LOAD64 \<Longrightarrow> pc < length code \<Longrightarrow> 0 < sp \<Longrightarrow> sp \<le> 64 \<Longrightarrow> \<not> sint (stk (sp - 1)) < 0 \<Longrightarrow>
    unat (stk (sp - 1) + 8) \<le> 256 \<Longrightarrow> unat (stk (sp - 1)) \<le> unat (stk (sp - 1) + 8) \<Longrightarrow>
    ir_loop code H (at pc sp stk mm h) = ir_loop code H (at (pc + 1) sp
      (stk(sp - 1 := from_le (mem_read mm (unat (stk (sp - 1))) (unat (stk (sp - 1) + 8) - unat (stk (sp - 1)))))) mm h)"
  by (rule ir_loop_next; cases sp) (simp_all add: act_defs op_defs exec_load_def vm_range_def mem_slice_def MEM_SIZE_def)

lemma exec_STORE64 [exec]:
  "code ! pc = STORE64 \<Longrightarrow> pc < length code \<Longrightarrow> 1 < sp \<Longrightarrow> sp \<le> 64 \<Longrightarrow> \<not> sint (stk (sp - 2)) < 0 \<Longrightarrow>
    unat (stk (sp - 2) + 8) \<le> 256 \<Longrightarrow> unat (stk (sp - 2)) \<le> 248 \<Longrightarrow>
    ir_loop code H (at pc sp stk mm h) = ir_loop code H (at (pc + 1) (sp - 2) stk (mem_write mm (unat (stk (sp - 2))) (to_le 8 (stk (sp - 1)))) h)"
  by (rule ir_loop_next; cases sp; cases "sp - 1")
    (simp_all add: act_defs op_defs exec_store_def vm_range_def mem_store_def MEM_SIZE_def)

lemma exec_ADD [exec]:
  "code ! pc = ADD \<Longrightarrow> pc < length code \<Longrightarrow> 1 < sp \<Longrightarrow> sp \<le> 64 \<Longrightarrow>
    ir_loop code H (at pc sp stk mm h) = ir_loop code H (at (pc + 1) (sp - 1) (stk(sp - 2 := stk (sp - 2) + stk (sp - 1))) mm h)"
  by (rule ir_loop_next; cases sp; cases "sp - 1") (simp_all add: act_defs op_defs exec_arith_def)

lemma exec_LT [exec]:
  "code ! pc = LT \<Longrightarrow> pc < length code \<Longrightarrow> 1 < sp \<Longrightarrow> sp \<le> 64 \<Longrightarrow>
    ir_loop code H (at pc sp stk mm h) =
      ir_loop code H (at (pc + 1) (sp - 1) (stk(sp - 2 := of_bool (sint (stk (sp - 2)) < sint (stk (sp - 1))))) mm h)"
  by (rule ir_loop_next; cases sp; cases "sp - 1") (simp_all add: act_defs op_defs exec_compare_def)

lemma exec_JZ [exec]:
  "code ! pc = JZ \<Longrightarrow> pc + 3 \<le> length code \<Longrightarrow> 0 < sp \<Longrightarrow> sp \<le> 64 \<Longrightarrow>
    ir_loop code H (at pc sp stk mm h) =
      ir_loop code H (at (if stk (sp - 1) = 0 then u16_target code (pc + 1) else pc + 3) (sp - 1) stk mm h)"
  by (rule ir_loop_next; cases sp) (simp_all add: act_defs op_defs exec_branch_def ir_target_def numeral_3_eq_3)

lemma exec_JMP [exec]:
  "code ! pc = JMP \<Longrightarrow> pc + 3 \<le> length code \<Longrightarrow>
    ir_loop code H (at pc sp stk mm h) = ir_loop code H (at (u16_target code (pc + 1)) sp stk mm h)"
  by (rule ir_loop_next) (simp_all add: act_defs op_defs exec_branch_def ir_target_def)

lemma exec_PRINT_NUM [exec]:
  "code ! pc = HOSTCALL \<Longrightarrow> pc + 2 \<le> length code \<Longrightarrow> code ! (pc + 1) = HC_PRINT_NUM \<Longrightarrow> 0 < sp \<Longrightarrow> sp \<le> 64 \<Longrightarrow>
    ir_loop code H (at pc sp stk mm h) =
      (if host_can H h CAP_PRINT then ir_loop code H (at (pc + 2) (sp - 1) stk mm (host_print_num H (stk (sp - 1)) h))
       else Some (Err MissingCapability, h))"
  by (subst ir_loop.simps; cases sp)
    (simp_all add: act_defs op_defs exec_hostcall_def hostcall_def require_def on_host_def hc_defs)

lemma exec_HALT [exec]:
  "code ! pc = HALT \<Longrightarrow> pc < length code \<Longrightarrow> ir_loop code H (at pc sp stk mm h) = Some (Ok (), h)"
  by (subst ir_loop.simps) (simp add: act_defs)

lemma from_le_to_le_64 [simp]: "from_le (to_le 8 (v :: i64)) = v"
  by (rule from_le_to_le) simp

lemma sum_run:
  "run sum_code H h = Some (if host_can H h CAP_PRINT then (Ok (), host_print_num H 15 h) else (Err MissingCapability, h))"
proof -
  have "run sum_code H h = ir_loop sum_code H (at 0 0 (\<lambda>_. 0) (\<lambda>_. 0) h)"
    by (simp add: run_def ir_start_def at_def)
  also have "\<dots> = Some (if host_can H h CAP_PRINT then (Ok (), host_print_num H 15 h) else (Err MissingCapability, h))"
    by (simp add: exec sum_ops sum_imms length_sum_code op_defs mem_read_write_same mem_read_write_other)
  finally show ?thesis .
qed

section \<open>Properties\<close>

text \<open>
  C31. The two-pass verifier accepts exactly the programs of at most 4096 bytes that decode to
  their end and whose branches and calls aim at instructions, and it never panics.
\<close>

theorem verifier_exact: "verify code \<noteq> Panic \<and> (verify code = Ok () \<longleftrightarrow> well_formed_code code)"
  by (rule verify_correct)

text \<open>
  C32. A verified program never runs into a truncated instruction or a bad target, meets an
  unknown operation only as the number of a host call, and can panic the interpreter only by
  an overflowing quotient or a host-call window that wraps around the address space.
\<close>

theorem verified_code_is_type_safe:
  assumes "verify code = Ok ()" and "run code H h = Some (r, h')"
  shows "r \<notin> {Err Truncated, Err BadTarget, Err TooLong} \<and>
    (r = Err BadOpcode \<longrightarrow> (\<exists>pc. boundary code pc \<and> code ! pc = HOSTCALL \<and>
      code ! (pc + 1) \<notin> {HC_PRINT_NUM, HC_PRINT_STR, HC_CAIRN_PUT, HC_CAIRN_GET})) \<and>
    (r = Panic \<longrightarrow> (\<exists>m. ir_reach code H h m \<and> (quotient_overflows code m \<or> window_wraps code m)))"
proof (cases "r = Ok ()")
  case False
  have wf: "well_formed_code code" using assms(1) verify_correct [of code] by blast
  from verified_run_stops [OF wf assms(2) False] obtain m where
    m: "ir_reach code H h m" "boundary code (m_pc m)" "step_stops code m (case r of Err t \<Rightarrow> Some t | _ \<Rightarrow> None)"
    by blast
  then show ?thesis by (cases r) (auto simp: step_stops_def)
qed simp

definition print_host :: "i64 list Host" where
  "print_host = \<lparr> host_can = (\<lambda>h cap. cap = CAP_PRINT), host_print_num = (\<lambda>v h. v # h), host_print_str = (\<lambda>bs h. h),
     host_cairn_put = (\<lambda>bs h. (False, h)), host_cairn_get = (\<lambda>bs h. (None, \<lambda>_. 0, h)) \<rparr>"

theorem verified_code_is_type_safe_witness:
  "verify [HOSTCALL, 9] = Ok () \<and> run [HOSTCALL, 9] print_host [] = Some (Err BadOpcode, []) \<and>
   (\<exists>pc. boundary [HOSTCALL, 9] pc \<and> [HOSTCALL, 9] ! pc = HOSTCALL \<and>
      [HOSTCALL, 9] ! (pc + 1) \<notin> {HC_PRINT_NUM, HC_PRINT_STR, HC_CAIRN_PUT, HC_CAIRN_GET})"
proof -
  have ok: "verify [HOSTCALL, 9] = Ok ()" by code_simp
  have bad: "run [HOSTCALL, 9] print_host [] = Some (Err BadOpcode, [])"
    by (simp add: run_def ir_loop.simps ir_start_def act_defs op_defs exec_hostcall_def hostcall_def hc_defs)
  show ?thesis using verified_code_is_type_safe [OF ok bad] ok bad by blast
qed

text \<open>
  C33. No ambient authority: a program runs the same whatever the host operations do whose
  capability it does not hold at the time, so it cannot reach them.
\<close>

theorem agent_is_confined:
  assumes "same_granted H H'"
  shows "run code H' h = run code H h"
proof -
  have sym: "same_granted H' H" using assms by (simp add: same_granted_def)
  show ?thesis
    using ir_loop_confined [OF assms, of code "ir_start h"] ir_loop_confined [OF sym, of code "ir_start h"]
    unfolding run_def by (metis not_None_eq)
qed

theorem agent_is_confined_witness:
  "run sum_code (print_host \<lparr> host_cairn_put := (\<lambda>bs h. (True, [])) \<rparr>) [7] = run sum_code print_host [7]"
  by (rule agent_is_confined) (simp add: same_granted_def print_host_def CAP_PRINT_def CAP_WRITE_def CAP_READ_def)

text \<open>
  An example: the assembled sum program verifies, is 138 bytes long, and on every host with the print
  capability prints 15 and stops; without the capability it traps and prints nothing.
\<close>

lemma demo_sum_prints_15:
  "\<exists>bs. demo_sum 256 = Some bs \<and> length bs = 138 \<and> verify bs = Ok () \<and>
    run bs H h = Some (if host_can H h CAP_PRINT then (Ok (), host_print_num H 15 h) else (Err MissingCapability, h))"
proof -
  have "verify sum_code = Ok ()" unfolding sum_code_bytes by code_simp
  with demo_sum_code length_sum_code sum_run show ?thesis by metis
qed

definition overflow_code :: "u8 list" where "overflow_code = asm_push I64_MIN @ asm_push (-1) @ [DIV]"
definition spin_code :: "u8 list" where "spin_code = [JMP, 0, 0]"

lemma overflow_panics: "run overflow_code H h = Some (Panic, h)"
proof -
  have code: "overflow_code = [1,0,0,0,0,0,0,0,128, 1,255,255,255,255,255,255,255,255, 0x13]" by code_simp
  have imms: "from_le (slice (Suc 0) 9 overflow_code) = I64_MIN" "from_le (slice 10 18 overflow_code) = (-1 :: i64)"
    unfolding code by code_simp+
  have "run overflow_code H h = ir_loop overflow_code H (at 0 0 (\<lambda>_. 0) (\<lambda>_. 0) h)"
    by (simp add: run_def ir_start_def at_def)
  also have "\<dots> = ir_loop overflow_code H (at 18 2 ((\<lambda>_. 0)(0 := I64_MIN, 1 := -1)) (\<lambda>_. 0) h)"
    using imms by (subst exec_PUSH, simp_all add: code op_defs) (subst exec_PUSH, simp_all add: op_defs numeral_2_eq_2)
  also have "\<dots> = Some (Panic, h)"
    by (subst ir_loop.simps) (simp add: code act_defs op_defs exec_arith_def ir_div_def ir_panic_def I64_MIN_def)
  finally show ?thesis .
qed

lemma spin_step: "m_pc m = 0 \<Longrightarrow> \<exists>m'. ir_step spin_code H m = (Ok True, m') \<and> m_pc m' = 0"
  by (simp add: spin_code_def act_defs op_defs exec_branch_def ir_target_def u16_target_def)

lemma spin_never: "ir_loop code H m = Some y \<Longrightarrow> code = spin_code \<longrightarrow> m_pc m \<noteq> 0"
proof (induction rule: ir_loop.raw_induct [rotated, consumes 1, case_names step])
  case (step loop code H m y)
  have False if code: "code = spin_code" "m_pc m = 0"
  proof -
    from spin_step [OF code(2)] obtain m' where m': "ir_step code H m = (Ok True, m')" "m_pc m' = 0"
      unfolding code(1) by blast
    with step(2) code have "loop code H m' = Some y" by (simp add: spin_code_def)
    from step(1) [OF this] m'(2) code(1) show False by simp
  qed
  then show ?case by blast
qed

lemma spin_diverges: "run spin_code H h = None"
  unfolding run_def using spin_never [of spin_code H "ir_start h"]
  by (cases "ir_loop spin_code H (ir_start h)") (auto simp: ir_start_def)

text \<open>
  C34. Verification does not protect the kernel from a program: without any capability, one
  verified program panics the interpreter by a division and another never returns.
\<close>

theorem verified_code_can_stop_the_kernel:
  "verify overflow_code = Ok () \<and> run overflow_code H h = Some (Panic, h) \<and>
   verify spin_code = Ok () \<and> run spin_code H h = None"
proof -
  have "verify overflow_code = Ok ()" "verify spin_code = Ok ()" by code_simp+
  then show ?thesis by (simp add: overflow_panics spin_diverges)
qed

end
