(* ===== verification/Base64.thy ===== *)
theory Base64
  imports Dezh_Prelude
begin

text \<open>
  The base64 decoder of dezh-core/src/b64.rs, used for package uploads over the serial console,
  and the RFC 4648 encoding as its reference.
\<close>

section \<open>The decoder\<close>

definition b64_val :: "u8 \<Rightarrow> u32 option" where
  "b64_val c =
     (if 65 \<le> c \<and> c \<le> 90 then Some (ucast (c - 65))
      else if 97 \<le> c \<and> c \<le> 122 then Some (ucast (c - 97 + 26))
      else if 48 \<le> c \<and> c \<le> 57 then Some (ucast (c - 48 + 52))
      else if c = 43 then Some 62
      else if c = 47 then Some 63
      else None)"

text \<open>The locals of the loop; \<open>b64_out\<close> is what is written to the buffer, \<open>n\<close> its length.\<close>

record b64_state =
  b64_acc :: u32
  b64_bits :: nat
  b64_padded :: bool
  b64_out :: "u8 list"

definition b64_feed :: "u32 \<Rightarrow> u32 \<Rightarrow> u32" where
  "b64_feed acc v = push_bit 6 acc OR v"

definition b64_step :: "nat \<Rightarrow> u8 \<Rightarrow> b64_state \<Rightarrow> b64_state option" where
  "b64_step cap c s =
     (if c = 61 then Some (s\<lparr> b64_padded := True \<rparr>)
      else if b64_padded s then None
      else case b64_val c of
          None \<Rightarrow> None
        | Some v \<Rightarrow>
            let acc = b64_feed (b64_acc s) v; bits = b64_bits s + 6 in
            if bits \<ge> 8
            then if length (b64_out s) \<ge> cap then None
              else Some (s\<lparr> b64_acc := acc, b64_bits := bits - 8,
                           b64_out := b64_out s @ [ucast (drop_bit (bits - 8) acc)] \<rparr>)
            else Some (s\<lparr> b64_acc := acc, b64_bits := bits \<rparr>))"

primrec b64_loop :: "nat \<Rightarrow> u8 list \<Rightarrow> b64_state \<Rightarrow> b64_state option" where
  "b64_loop cap [] s = Some s"
| "b64_loop cap (c # cs) s = Option.bind (b64_step cap c s) (b64_loop cap cs)"

definition b64_decode :: "u8 list \<Rightarrow> nat \<Rightarrow> u8 list option" where
  "b64_decode inp cap =
     Option.bind (b64_loop cap inp \<lparr> b64_acc = 0, b64_bits = 0, b64_padded = False, b64_out = [] \<rparr>) (\<lambda>s.
       if b64_bits s > 0 \<and> b64_acc s AND (push_bit (b64_bits s) 1 - 1) \<noteq> 0 then None
       else Some (b64_out s))"

section \<open>The reference encoding\<close>

definition b64_char :: "u8 \<Rightarrow> u8" where
  "b64_char v =
     (if v < 26 then v + 65 else if v < 52 then v - 26 + 97 else if v < 62 then v - 52 + 48
      else if v = 62 then 43 else 47)"

fun b64_encode :: "u8 list \<Rightarrow> u8 list" where
  "b64_encode (a # b # c # rest) =
     b64_char (drop_bit 2 a) # b64_char (push_bit 4 (a AND 3) OR drop_bit 4 b) #
     b64_char (push_bit 2 (b AND 15) OR drop_bit 6 c) # b64_char (c AND 63) # b64_encode rest"
| "b64_encode [a, b] =
     [b64_char (drop_bit 2 a), b64_char (push_bit 4 (a AND 3) OR drop_bit 4 b), b64_char (push_bit 2 (b AND 15)), 61]"
| "b64_encode [a] = [b64_char (drop_bit 2 a), b64_char (push_bit 4 (a AND 3)), 61, 61]"
| "b64_encode [] = []"

section \<open>The decoder inverts the encoding\<close>

lemma b64_val_char:
  assumes "v < 64"
  shows "b64_val (b64_char v) = Some (ucast v)" and "b64_char v \<noteq> 61"
proof -
  have "\<forall>k \<in> set [0..<64]. b64_val (b64_char (of_nat k)) = Some (ucast (of_nat k :: u8)) \<and> b64_char (of_nat k) \<noteq> 61"
    by code_simp
  moreover have "unat v \<in> set [0..<64]" using assms by (simp add: word_less_nat_alt)
  ultimately show "b64_val (b64_char v) = Some (ucast v)" and "b64_char v \<noteq> 61" by fastforce+
qed

lemma six_bits_less: "(\<And>n. 6 \<le> n \<Longrightarrow> \<not> bit v n) \<Longrightarrow> (v :: u8) < 64"
proof -
  assume "\<And>n. 6 \<le> n \<Longrightarrow> \<not> bit v n"
  then have "v = take_bit 6 v" by (auto intro!: bit_word_eqI simp: bit_take_bit_iff not_le [symmetric])
  then have "unat v = take_bit 6 (unat v)" by (metis unsigned_take_bit_eq)
  then have "unat v < 2 ^ 6" by (metis take_bit_nat_less_exp)
  then show ?thesis by (simp add: word_less_nat_alt)
qed

lemma byte_masks: "a AND 3 = take_bit 2 (a :: u8)" "a AND 15 = take_bit 4 a" "a AND 63 = take_bit 6 a"
  by (simp_all add: take_bit_eq_mask mask_eq_exp_minus_1)

lemma sextets_small:
  "drop_bit 2 (a :: u8) < 64" "push_bit 4 (a AND 3) OR drop_bit 4 b < 64" "push_bit 4 (a AND 3) < 64"
  "push_bit 2 (b AND 15) OR drop_bit 6 c < 64" "push_bit 2 (b AND 15) < 64" "c AND 63 < (64 :: u8)"
  by (rule six_bits_less; auto simp: byte_masks bit_simps dest: bit_imp_le_length)+

lemma u8_high_bits: "8 \<le> n \<Longrightarrow> \<not> bit (x :: u8) n"
  using bit_imp_le_length [of x n] by auto

lemma u8_bit_index: "n < LENGTH(8) \<Longrightarrow> n = 0 \<or> n = 1 \<or> n = 2 \<or> n = 3 \<or> n = 4 \<or> n = 5 \<or> n = 6 \<or> n = 7"
  by auto

text \<open>What the accumulator gives back after two, three and four characters of a group.\<close>

lemma group_bytes:
  fixes acc :: u32 and a b c :: u8
  defines "acc1 \<equiv> b64_feed acc (ucast (drop_bit 2 a))"
  defines "acc2 \<equiv> b64_feed acc1 (ucast (push_bit 4 (a AND 3) OR drop_bit 4 b))"
  defines "acc3 \<equiv> b64_feed acc2 (ucast (push_bit 2 (b AND 15) OR drop_bit 6 c))"
  defines "acc4 \<equiv> b64_feed acc3 (ucast (c AND 63))"
  shows "ucast (drop_bit 4 acc2) = a" and "ucast (drop_bit 2 acc3) = b" and "ucast acc4 = c"
    and "acc2 AND 15 = ucast (drop_bit 4 b)" and "acc3 AND 3 = ucast (drop_bit 6 c)"
proof -
  have mask: "x AND 15 = take_bit 4 x" "x AND 3 = take_bit 2 x" for x :: u32
    by (simp_all add: take_bit_eq_mask mask_eq_exp_minus_1)
  note bits = b64_feed_def acc1_def acc2_def acc3_def acc4_def byte_masks mask bit_simps
  show "ucast (drop_bit 4 acc2) = a"
    by (rule bit_word_eqI, drule u8_bit_index, elim disjE) (simp_all add: bits u8_high_bits)
  show "ucast (drop_bit 2 acc3) = b"
    by (rule bit_word_eqI, drule u8_bit_index, elim disjE) (simp_all add: bits u8_high_bits)
  show "ucast acc4 = c"
    by (rule bit_word_eqI, drule u8_bit_index, elim disjE) (simp_all add: bits u8_high_bits)
  show "acc2 AND 15 = ucast (drop_bit 4 b)"
    by (rule bit_word_eqI) (auto simp: bits u8_high_bits)
  show "acc3 AND 3 = ucast (drop_bit 6 c)"
    by (rule bit_word_eqI) (auto simp: bits u8_high_bits)
qed

text \<open>A state at the start of a group, and the check of the leftover bits at the end.\<close>

definition b64_clean :: "b64_state \<Rightarrow> bool" where
  "b64_clean s \<longleftrightarrow> b64_bits s = 0 \<or> b64_acc s AND (push_bit (b64_bits s) 1 - 1) = 0"

lemma b64_pad: "b64_loop cap (61 # cs) s = b64_loop cap cs (s\<lparr> b64_padded := True \<rparr>)"
  by (simp add: b64_step_def)

text \<open>Two characters give a byte and four bits, a third a byte and two bits, a fourth a byte.\<close>

lemma b64_two_chars:
  assumes "b64_bits s = 0" and "\<not> b64_padded s" and "v1 < 64" and "v2 < 64"
  shows "b64_loop cap (b64_char v1 # b64_char v2 # cs) s =
    (if length (b64_out s) + 1 \<le> cap
     then b64_loop cap cs (s\<lparr> b64_acc := b64_feed (b64_feed (b64_acc s) (ucast v1)) (ucast v2), b64_bits := 4,
       b64_out := b64_out s @ [ucast (drop_bit 4 (b64_feed (b64_feed (b64_acc s) (ucast v1)) (ucast v2)))] \<rparr>)
     else None)"
  using assms(1,2) by (simp add: b64_step_def b64_val_char [OF assms(3)] b64_val_char [OF assms(4)] Let_def)

lemma b64_third_char:
  assumes "b64_bits s = 4" and "\<not> b64_padded s" and "v < 64"
  shows "b64_loop cap (b64_char v # cs) s =
    (if length (b64_out s) + 1 \<le> cap
     then b64_loop cap cs (s\<lparr> b64_acc := b64_feed (b64_acc s) (ucast v), b64_bits := 2,
       b64_out := b64_out s @ [ucast (drop_bit 2 (b64_feed (b64_acc s) (ucast v)))] \<rparr>)
     else None)"
  using assms(1,2) by (simp add: b64_step_def b64_val_char [OF assms(3)] Let_def)

lemma b64_fourth_char:
  assumes "b64_bits s = 2" and "\<not> b64_padded s" and "v < 64"
  shows "b64_loop cap (b64_char v # cs) s =
    (if length (b64_out s) + 1 \<le> cap
     then b64_loop cap cs (s\<lparr> b64_acc := b64_feed (b64_acc s) (ucast v), b64_bits := 0,
       b64_out := b64_out s @ [ucast (b64_feed (b64_acc s) (ucast v))] \<rparr>)
     else None)"
  using assms(1,2) by (simp add: b64_step_def b64_val_char [OF assms(3)] Let_def)

declare b64_loop.simps(2) [simp del]

lemma b64_tail_two:
  assumes "b64_bits s = 0" and "\<not> b64_padded s"
  shows "\<exists>acc. acc AND 3 = 0 \<and> b64_loop cap (b64_encode [a, b]) s =
    (if length (b64_out s) + 2 \<le> cap
     then Some (s\<lparr> b64_acc := acc, b64_bits := 2, b64_out := b64_out s @ [a, b], b64_padded := True \<rparr>) else None)"
proof -
  define v1 v2 v3 where v: "v1 = drop_bit 2 a" "v2 = push_bit 4 (a AND 3) OR drop_bit 4 b" "v3 = push_bit 2 (b AND 15) OR drop_bit 6 0"
  have small: "v1 < 64" "v2 < 64" "v3 < 64" unfolding v by (rule sextets_small)+
  have "b64_encode [a, b] = [b64_char v1, b64_char v2, b64_char v3, 61]" by (simp add: v)
  moreover note bytes = group_bytes(1) [of "b64_acc s" a b, folded v] group_bytes(2,5) [of "b64_acc s" a b 0, folded v]
  ultimately show ?thesis
    using assms b64_two_chars [OF assms small(1,2)] 
    by (intro exI [of _ "b64_feed (b64_feed (b64_feed (b64_acc s) (ucast v1)) (ucast v2)) (ucast v3)"])
      (auto simp: b64_third_char [OF _ _ small(3)] b64_pad)
qed

lemma b64_tail_one:
  assumes "b64_bits s = 0" and "\<not> b64_padded s"
  shows "\<exists>acc. acc AND 15 = 0 \<and> b64_loop cap (b64_encode [a]) s =
    (if length (b64_out s) + 1 \<le> cap
     then Some (s\<lparr> b64_acc := acc, b64_bits := 4, b64_out := b64_out s @ [a], b64_padded := True \<rparr>) else None)"
proof -
  define v1 v2 where v: "v1 = drop_bit 2 a" "v2 = push_bit 4 (a AND 3) OR drop_bit 4 0"
  have small: "v1 < 64" "v2 < 64" unfolding v by (rule sextets_small)+
  have "b64_encode [a] = [b64_char v1, b64_char v2, 61, 61]" by (simp add: v)
  moreover note bytes = group_bytes(1,4) [of "b64_acc s" a 0, folded v]
  ultimately show ?thesis
    using assms b64_two_chars [OF assms small] 
    by (intro exI [of _ "b64_feed (b64_feed (b64_acc s) (ucast v1)) (ucast v2)"]) (auto simp: b64_pad)
qed

lemma b64_group:
  assumes "b64_bits s = 0" and "\<not> b64_padded s"
  shows "\<exists>acc. b64_loop cap (b64_encode (a # b # c # rest)) s =
    (if length (b64_out s) + 3 \<le> cap
     then b64_loop cap (b64_encode rest) (s\<lparr> b64_acc := acc, b64_bits := 0, b64_out := b64_out s @ [a, b, c] \<rparr>) else None)"
proof -
  define v1 v2 v3 v4 where v: "v1 = drop_bit 2 a" "v2 = push_bit 4 (a AND 3) OR drop_bit 4 b"
    "v3 = push_bit 2 (b AND 15) OR drop_bit 6 c" "v4 = c AND 63"
  have small: "v1 < 64" "v2 < 64" "v3 < 64" "v4 < 64" unfolding v by (rule sextets_small)+
  have "b64_encode (a # b # c # rest) = b64_char v1 # b64_char v2 # b64_char v3 # b64_char v4 # b64_encode rest" by (simp add: v)
  moreover note bytes = group_bytes(1) [of "b64_acc s" a b, folded v] group_bytes(2,3) [of "b64_acc s" a b c, folded v]
  ultimately show ?thesis
    using assms b64_two_chars [OF assms small(1,2)]
    by (intro exI [of _ "b64_feed (b64_feed (b64_feed (b64_feed (b64_acc s) (ucast v1)) (ucast v2)) (ucast v3)) (ucast v4)"])
      (auto simp: b64_third_char [OF _ _ small(3)] b64_fourth_char [OF _ _ small(4)])
qed

lemma b64_loop_encode:
  assumes "b64_bits s = 0" and "\<not> b64_padded s" and "length (b64_out s) \<le> cap"
  shows "if length (b64_out s) + length xs \<le> cap
    then \<exists>s'. b64_loop cap (b64_encode xs) s = Some s' \<and> b64_out s' = b64_out s @ xs \<and> b64_clean s'
    else b64_loop cap (b64_encode xs) s = None"
  using assms
proof (induction xs arbitrary: s rule: b64_encode.induct)
  case (1 a b c rest)
  obtain acc where step: "b64_loop cap (b64_encode (a # b # c # rest)) s =
    (if length (b64_out s) + 3 \<le> cap
     then b64_loop cap (b64_encode rest) (s\<lparr> b64_acc := acc, b64_bits := 0, b64_out := b64_out s @ [a, b, c] \<rparr>) else None)"
    using b64_group [OF 1(2,3)] by blast
  show ?case
    unfolding step using 1(1) [of "s\<lparr> b64_acc := acc, b64_bits := 0, b64_out := b64_out s @ [a, b, c] \<rparr>"] 1(2,3)
    by (auto simp: algebra_simps split: if_splits)
next
  case (2 a b)
  obtain acc where "acc AND 3 = 0" and step: "b64_loop cap (b64_encode [a, b]) s =
    (if length (b64_out s) + 2 \<le> cap
     then Some (s\<lparr> b64_acc := acc, b64_bits := 2, b64_out := b64_out s @ [a, b], b64_padded := True \<rparr>) else None)"
    using b64_tail_two [OF 2(1,2)] by blast
  then show ?case unfolding step by (simp add: b64_clean_def)
next
  case (3 a)
  obtain acc where "acc AND 15 = 0" and step: "b64_loop cap (b64_encode [a]) s =
    (if length (b64_out s) + 1 \<le> cap
     then Some (s\<lparr> b64_acc := acc, b64_bits := 4, b64_out := b64_out s @ [a], b64_padded := True \<rparr>) else None)"
    using b64_tail_one [OF 3(1,2)] by blast
  then show ?case unfolding step by (simp add: b64_clean_def)
next
  case 4
  then show ?case by (simp add: b64_clean_def)
qed

text \<open>
  C39. Decoding inverts the RFC 4648 encoding: the encoded bytes come back when they fit the
  buffer, and the upload is refused when they do not.
\<close>

theorem base64_round_trip:
  "b64_decode (b64_encode xs) cap = (if length xs \<le> cap then Some xs else None)"
  using b64_loop_encode [of "\<lparr> b64_acc = 0, b64_bits = 0, b64_padded = False, b64_out = [] \<rparr>" cap xs]
  by (auto simp: b64_decode_def b64_clean_def split: if_splits)

text \<open>A lone character is accepted as the encoding of nothing.\<close>

lemma b64_lone_character: "b64_decode [65] cap = Some []"
  by (simp add: b64_decode_def b64_loop.simps(2) b64_step_def b64_val_def b64_feed_def Let_def)

end
