(* ===== verification/Net_Checksum.thy ===== *)
theory Net_Checksum
  imports Dezh_Prelude
begin

text \<open>
  The internet checksum of dezh-core/src/net.rs over bytes reached through an accessor, and the
  receiver's test that its module documentation names as the defining property.
\<close>

section \<open>The checksum\<close>

definition be_word :: "u8 \<Rightarrow> u8 \<Rightarrow> u32" where
  "be_word a b = push_bit 8 (ucast a) OR ucast b"

text \<open>The word loop and the odd tail; the \<open>u32\<close> sum wraps.\<close>

function sum_words :: "(nat \<Rightarrow> u8) \<Rightarrow> nat \<Rightarrow> nat \<Rightarrow> u32 \<Rightarrow> u32" where
  "sum_words byte len i acc =
     (if i + 1 < len then sum_words byte len (i + 2) (acc + be_word (byte i) (byte (i + 1)))
      else if i < len then acc + push_bit 8 (ucast (byte i))
      else acc)"
  by pat_completeness auto
termination
  by (relation "measure (\<lambda>(byte, len, i, acc). len - i)") auto

declare sum_words.simps [simp del]

lemma unat_low_half: "unat (s AND 0xffff :: u32) = unat s mod 65536"
proof -
  have "s AND 0xffff = take_bit 16 s" by (simp add: take_bit_eq_mask mask_eq_exp_minus_1)
  then have "unat (s AND 0xffff) = take_bit 16 (unat s)" by (simp only: unsigned_take_bit_eq)
  then show ?thesis by (simp add: take_bit_eq_mod)
qed

lemma unat_high_half: "unat (drop_bit 16 s :: u32) = unat s div 65536"
  by (simp add: drop_bit_eq_div unat_div)

lemma unat_fold_step: "unat ((s AND 0xffff) + drop_bit 16 s :: u32) = unat s mod 65536 + unat s div 65536"
proof -
  have "unat s < 2 ^ 32" by (rule unat_u32_less)
  then have "unat s mod 65536 + unat s div 65536 < 2 ^ 32" by (auto simp: div_le_dividend intro: le_less_trans [of _ "65535 + 65535"])
  then show ?thesis unfolding unat_word_ariths unat_low_half unat_high_half by simp
qed

function fold_carries :: "u32 \<Rightarrow> u32" where
  "fold_carries acc = (if drop_bit 16 acc \<noteq> 0 then fold_carries ((acc AND 0xffff) + drop_bit 16 acc) else acc)"
  by pat_completeness auto
termination
proof (relation "measure unat")
  fix acc :: u32
  assume "drop_bit 16 acc \<noteq> 0"
  then have "unat acc div 65536 \<noteq> 0" using unat_high_half [of acc] by (metis unsigned_eq_0_iff)
  then have "unat acc mod 65536 + unat acc div 65536 < unat acc"
    using div_mult_mod_eq [of "unat acc" 65536] by linarith
  then show "((acc AND 0xffff) + drop_bit 16 acc, acc) \<in> measure unat" by (simp only: in_measure unat_fold_step)
qed simp

declare fold_carries.simps [simp del]

definition internet_checksum :: "nat \<Rightarrow> (nat \<Rightarrow> u8) \<Rightarrow> u16" where
  "internet_checksum len byte = NOT (ucast (fold_carries (sum_words byte len 0 0)))"

definition internet_checksum_bytes :: "u8 list \<Rightarrow> u16" where
  "internet_checksum_bytes bytes = internet_checksum (length bytes) (\<lambda>i. bytes ! i)"

section \<open>The one's-complement sum\<close>

text \<open>The same bytes as natural numbers: the sum of the big-endian words from offset \<open>i\<close> on.\<close>

definition be_nat :: "(nat \<Rightarrow> u8) \<Rightarrow> nat \<Rightarrow> nat \<Rightarrow> nat" where
  "be_nat byte len i = 256 * unat (byte i) + (if i + 1 < len then unat (byte (i + 1)) else 0)"

definition be_sum :: "(nat \<Rightarrow> u8) \<Rightarrow> nat \<Rightarrow> nat \<Rightarrow> nat" where
  "be_sum byte len i = (\<Sum>k \<leftarrow> filter (\<lambda>k. even (k - i)) [i..<len]. be_nat byte len k)"

definition ones_sum :: "nat \<Rightarrow> nat" where
  "ones_sum n = (if n = 0 then 0 else (n - 1) mod 65535 + 1)"

lemma be_sum_rec:
  "be_sum byte len i = (if i < len then be_nat byte len i + be_sum byte len (i + 2) else 0)"
proof (cases "i < len")
  case True
  have tail: "filter (\<lambda>k. even (k - i)) [i + 1..<len] = filter (\<lambda>k. even (k - (i + 2))) [i + 2..<len]"
  proof (cases "i + 1 < len")
    case True
    have "filter (\<lambda>k. even (k - i)) [i + 2..<len] = filter (\<lambda>k. even (k - (i + 2))) [i + 2..<len]"
      by (rule filter_cong) (auto simp: even_diff_nat)
    then show ?thesis using True by (simp add: upt_conv_Cons)
  qed simp
  have "filter (\<lambda>k. even (k - i)) [i..<len] = i # filter (\<lambda>k. even (k - i)) [i + 1..<len]"
    using True by (simp add: upt_conv_Cons)
  with tail True show ?thesis by (simp add: be_sum_def)
qed (simp add: be_sum_def)

lemma unat_u8_less: "unat (a :: u8) < 256"
  using unsigned_less [of a, where 'a = nat] by simp

lemma unat_ucast_u8: "unat (ucast (a :: u8) :: u32) = unat a"
  using unat_u8_less [of a] by (simp add: unsigned_ucast_eq take_bit_nat_eq_self)

lemma be_nat_le: "be_nat byte len i \<le> 65535"
  using unat_u8_less [of "byte i"] unat_u8_less [of "byte (i + 1)"] by (simp add: be_nat_def)

lemma be_sum_le: "be_sum byte len i \<le> 65535 * ((len - i + 1) div 2)"
proof (induction "len - i" arbitrary: i rule: less_induct)
  case less
  show ?case
  proof (cases "i < len")
    case True
    have "be_sum byte len (i + 2) \<le> 65535 * ((len - (i + 2) + 1) div 2)" by (rule less) (use True in simp)
    moreover have "65535 + 65535 * ((len - (i + 2) + 1) div 2) \<le> 65535 * ((len - i + 1) div 2)"
    proof -
      have "(len - (i + 2) + 1) div 2 + 1 \<le> (len - i + 1) div 2" using True by presburger
      then show ?thesis by linarith
    qed
    moreover note be_nat_le [of byte len i]
    ultimately show ?thesis unfolding be_sum_rec [of byte len i] using True by simp
  qed (simp add: be_sum_rec [of byte len i])
qed

lemma unat_be_word: "unat (be_word a b) = 256 * unat a + unat b"
proof -
  have disj: "push_bit 8 (ucast a :: u32) AND ucast b = 0"
    by (rule bit_word_eqI) (auto simp: bit_simps dest: bit_imp_le_length)
  have high: "unat (push_bit 8 (ucast a :: u32)) = 256 * unat a"
    using unat_u8_less [of a] by (simp add: push_bit_eq_mult unat_word_ariths unat_ucast_u8)
  have "be_word a b = push_bit 8 (ucast a) + ucast b"
    unfolding be_word_def by (rule disjunctive_add [symmetric]) (use disj in \<open>auto simp: word_and_eq_zero_iff\<close>)
  then show ?thesis
    using unat_u8_less [of a] unat_u8_less [of b] by (simp add: unat_word_ariths unat_ucast_u8 high)
qed

lemma sum_words_nat:
  "unat acc + be_sum byte len i < 2 ^ 32 \<Longrightarrow> unat (sum_words byte len i acc) = unat acc + be_sum byte len i"
proof (induction byte len i acc rule: sum_words.induct)
  case (1 byte len i acc)
  note unfold = be_sum_rec [of byte len i] sum_words.simps [of byte len i acc]
  consider "i + 1 < len" | "i + 1 = len" | "len \<le> i" by linarith
  then show ?case
  proof cases
    case 1
    then have "be_nat byte len i = unat (be_word (byte i) (byte (i + 1)))" by (simp add: be_nat_def unat_be_word)
    moreover from this "1.prems" 1 have "unat (acc + be_word (byte i) (byte (i + 1))) = unat acc + be_nat byte len i"
      by (simp add: unat_word_ariths unfold(1))
    ultimately show ?thesis using "1.IH" [OF 1] "1.prems" 1 by (simp add: unfold)
  next
    case 2
    have "unat (push_bit 8 (ucast (byte i)) :: u32) = 256 * unat (byte i)" using unat_be_word [of "byte i" 0] by (simp add: be_word_def)
    then show ?thesis
      using "1.prems" 2 be_sum_rec [of byte len "i + 2"] by (simp add: unfold be_nat_def unat_word_ariths)
  next
    case 3
    then show ?thesis by (simp add: unfold)
  qed
qed

lemma ones_sum_step: "ones_sum (n mod 65536 + n div 65536) = ones_sum n"
proof (cases "n = 0")
  case False
  define q r where "q = n div 65536" and "r = n mod 65536"
  then have n: "n = 65536 * q + r" by simp
  have "r + q \<noteq> 0" using False n by auto
  then have "n - 1 = (r + q - 1) + 65535 * q" using n by simp
  then have "(n - 1) mod 65535 = (r + q - 1) mod 65535" by (metis mod_mult_self2)
  with False \<open>r + q \<noteq> 0\<close> show ?thesis by (simp add: ones_sum_def flip: q_def r_def)
qed simp

lemma fold_carries_nat: "unat (fold_carries acc) = ones_sum (unat acc)"
proof (induction acc rule: fold_carries.induct)
  case (1 acc)
  show ?case
  proof (cases "drop_bit 16 acc = 0")
    case True
    then have "unat acc div 65536 = 0" using unat_high_half [of acc] by simp
    then have "unat acc < 65536" by (simp add: div_eq_0_iff)
    with True show ?thesis by (simp add: fold_carries.simps [of acc] ones_sum_def)
  next
    case False
    with 1 show ?thesis by (simp add: fold_carries.simps [of acc] unat_fold_step ones_sum_step)
  qed
qed

lemma ones_sum_le: "ones_sum n \<le> 65535"
proof -
  have "(n - 1) mod 65535 < 65535" by (rule mod_less_divisor) simp
  then have "(n - 1) mod 65535 + 1 \<le> 65535" by linarith
  then show ?thesis unfolding ones_sum_def by (simp only: split: if_split) blast
qed

lemma unat_not_u16: "unat (NOT w :: u16) = 65535 - unat w"
proof -
  have "NOT w = -1 - w" by (simp add: not_eq_complement)
  moreover have "unat (-1 :: u16) = 65535" by (simp add: unsigned_minus_1_eq_mask mask_eq_exp_minus_1)
  moreover have "w \<le> -1" by simp
  ultimately show ?thesis by (simp add: unat_sub)
qed

text \<open>Up to 128 KiB the checksum is the complement of the one's-complement sum of the words.\<close>

lemma internet_checksum_value:
  assumes "len \<le> 131072"
  shows "unat (internet_checksum len byte) = 65535 - ones_sum (be_sum byte len 0)"
proof -
  have "be_sum byte len 0 \<le> 65535 * 65536"
    by (rule order_trans [OF be_sum_le]) (use assms in simp)
  then have "unat (fold_carries (sum_words byte len 0 0)) = ones_sum (be_sum byte len 0)"
    by (simp add: fold_carries_nat sum_words_nat)
  then have "unat (ucast (fold_carries (sum_words byte len 0 0)) :: u16) = ones_sum (be_sum byte len 0)"
    using ones_sum_le [of "be_sum byte len 0"] by (simp add: unsigned_ucast_eq take_bit_nat_eq_self)
  then show ?thesis
    by (simp add: internet_checksum_def unat_not_u16)
qed

lemma be_sum_cong: "(\<And>j. i \<le> j \<Longrightarrow> byte j = byte' j) \<Longrightarrow> be_sum byte len i = be_sum byte' len i"
  unfolding be_sum_def by (intro arg_cong [where f = sum_list] map_cong) (auto simp: be_nat_def)

text \<open>Replacing a zero word of the message adds the new word to the sum.\<close>

lemma be_sum_insert:
  assumes "k + 1 < len" and "even (k - i)" and "i \<le> k" and "byte k = 0" and "byte (k + 1) = 0"
  shows "be_sum (byte(k := a, k + 1 := b)) len i = be_sum byte len i + 256 * unat a + unat b"
  using assms
proof (induction "k - i" arbitrary: i rule: less_induct)
  case less
  let ?byte = "byte(k := a, k + 1 := b)"
  show ?case
  proof (cases "i = k")
    case True
    have "be_sum ?byte len (k + 2) = be_sum byte len (k + 2)" by (rule be_sum_cong) simp
    with True less.prems show ?thesis
      by (simp add: be_sum_rec [of byte len k] be_sum_rec [of "byte(k := a, Suc k := b)" len k] be_nat_def)
  next
    case False
    with less.prems have i: "i + 2 \<le> k" "even (k - (i + 2))" "i < len" by presburger+
    have "be_sum ?byte len (i + 2) = be_sum byte len (i + 2) + 256 * unat a + unat b"
      by (rule less.hyps) (use less.prems i in auto)
    moreover have "be_nat ?byte len i = be_nat byte len i" using i by (simp add: be_nat_def)
    ultimately show ?thesis
      using i by (simp add: be_sum_rec [of byte len i] be_sum_rec [of "byte(k := a, Suc k := b)" len i])
  qed
qed

lemma ones_sum_complement:
  assumes "s = 65535 - ones_sum n"
  shows "ones_sum (n + s) = 65535"
proof (cases "n = 0")
  case False
  define r where "r = (n - 1) mod 65535"
  have "r < 65535" by (simp add: r_def)
  moreover have "r \<le> n - 1" unfolding r_def by (rule mod_less_eq_dividend)
  ultimately have "n - 1 + (65535 - (r + 1)) + 1 = (n - 1 - r) + 65535" by arith
  moreover have "65535 dvd (n - 1 - r)" unfolding r_def by (rule dvd_minus_mod)
  ultimately have dvd: "65535 dvd n - 1 + (65535 - (r + 1)) + 1" by simp
  have "n - 1 + (65535 - (r + 1)) + 1 = n + s"
    using False unfolding assms ones_sum_def r_def [symmetric] by (simp only: if_False)
  with dvd have "65535 dvd n + s" by (simp only:)
  then obtain c where c: "n + s = 65535 * c" by (rule dvdE)
  with False have "c \<noteq> 0" by auto
  then have "n + s - 1 = 65534 + 65535 * (c - 1)" using c by (cases c) auto
  then have "(n + s - 1) mod 65535 = 65534" by (simp only: mod_mult_self2) simp
  with False show ?thesis by (simp add: ones_sum_def)
qed (simp add: assms ones_sum_def)

text \<open>
  C40. The receiver's test: for a message of at most 128 KiB, with the checksum stored big-endian in
  its zeroed, even-aligned field, a fresh checksum over the whole message is zero, for odd lengths too.
\<close>

theorem checksum_verifies:
  assumes "len \<le> 131072" and "even k" and "k + 1 < len" and "byte k = 0" and "byte (k + 1) = 0"
    and "c = internet_checksum len byte"
  shows "internet_checksum len (byte(k := ucast (drop_bit 8 c), k + 1 := ucast c)) = 0"
proof -
  let ?S = "be_sum byte len 0"
  have c: "unat c = 65535 - ones_sum ?S" using internet_checksum_value [OF assms(1)] assms(6) by simp
  have "256 * unat (ucast (drop_bit 8 c) :: u8) + unat (ucast c :: u8) = unat c"
  proof -
    have "unat (ucast c :: u8) = unat c mod 256" by (simp add: unsigned_ucast_eq take_bit_eq_mod)
    moreover have "unat (ucast (drop_bit 8 c) :: u8) = unat c div 256"
    proof -
      have "unat c < 65536" using unsigned_less [of c, where 'a = nat] by simp
      then have "unat c div 256 < 256" by (simp add: div_less_iff_less_mult)
      then show ?thesis by (simp add: drop_bit_eq_div unat_div unsigned_ucast_eq take_bit_nat_eq_self)
    qed
    ultimately show ?thesis by simp
  qed
  then have "be_sum (byte(k := ucast (drop_bit 8 c), k + 1 := ucast c)) len 0 = ?S + unat c"
    using be_sum_insert [OF assms(3), of 0 byte] assms(2,4,5) by simp
  then have "unat (internet_checksum len (byte(k := ucast (drop_bit 8 c), k + 1 := ucast c))) = 0"
    using internet_checksum_value [OF assms(1)] ones_sum_complement [OF c] by simp
  then show ?thesis by (simp add: unsigned_eq_0_iff)
qed

theorem checksum_verifies_witness:
  "internet_checksum 5 ((\<lambda>i. if i \<in> {2, 3} then 0 else 0xab)
     (2 := ucast (drop_bit 8 (internet_checksum 5 (\<lambda>i. if i \<in> {2, 3} then 0 else 0xab))),
      2 + 1 := ucast (internet_checksum 5 (\<lambda>i. if i \<in> {2, 3} then 0 else 0xab)))) = 0"
  by (rule checksum_verifies [OF _ _ _ _ _ refl]) simp_all

end
