(* ===== verification/Rust_Str.thy ===== *)
theory Rust_Str
  imports Dezh_Prelude
begin

text \<open>
  The part of Rust's \<open>str\<close> that manifest handling uses: strings as lists of Unicode scalar
  values, their UTF-8 bytes with \<open>core::str::from_utf8\<close>, and \<open>lines\<close>, \<open>trim\<close>, \<open>split_once\<close> and
  the prefix and suffix tests.
\<close>

section \<open>Scalar values and UTF-8\<close>

type_synonym str = "nat list"

definition lit :: "string \<Rightarrow> str" where "lit s = map of_char s"

definition scalar :: "nat \<Rightarrow> bool" where
  "scalar c \<longleftrightarrow> c < 0xD800 \<or> 0xE000 \<le> c \<and> c < 0x110000"

definition byte_of :: "nat \<Rightarrow> u8" where "byte_of k = of_nat k"

definition utf8_char :: "nat \<Rightarrow> u8 list" where
  "utf8_char c =
     (if c < 0x80 then [byte_of c]
      else if c < 0x800 then [byte_of (0xC0 + c div 64), byte_of (0x80 + c mod 64)]
      else if c < 0x10000 then [byte_of (0xE0 + c div 4096), byte_of (0x80 + c div 64 mod 64), byte_of (0x80 + c mod 64)]
      else [byte_of (0xF0 + c div 262144), byte_of (0x80 + c div 4096 mod 64), byte_of (0x80 + c div 64 mod 64), byte_of (0x80 + c mod 64)])"

definition as_bytes :: "str \<Rightarrow> u8 list" where
  "as_bytes s = concat (map utf8_char s)"

definition byte_in :: "nat \<Rightarrow> nat \<Rightarrow> u8 \<Rightarrow> bool" where
  "byte_in lo hi b \<longleftrightarrow> lo \<le> unat b \<and> unat b \<le> hi"

text \<open>One well-formed sequence at the front of the bytes (Unicode table 3-7).\<close>

fun utf8_next :: "u8 list \<Rightarrow> (nat \<times> u8 list) option" where
  "utf8_next [] = None"
| "utf8_next (b0 # bs) =
     (let n = unat b0 in
      if n < 0x80 then Some (n, bs)
      else if byte_in 0xC2 0xDF b0 then
        (case bs of b1 # r \<Rightarrow> if byte_in 0x80 0xBF b1 then Some ((n - 0xC0) * 64 + (unat b1 - 0x80), r) else None
         | _ \<Rightarrow> None)
      else if byte_in 0xE0 0xEF b0 then
        (case bs of b1 # b2 # r \<Rightarrow>
           if byte_in (if n = 0xE0 then 0xA0 else 0x80) (if n = 0xED then 0x9F else 0xBF) b1 \<and> byte_in 0x80 0xBF b2
           then Some ((n - 0xE0) * 4096 + (unat b1 - 0x80) * 64 + (unat b2 - 0x80), r) else None
         | _ \<Rightarrow> None)
      else if byte_in 0xF0 0xF4 b0 then
        (case bs of b1 # b2 # b3 # r \<Rightarrow>
           if byte_in (if n = 0xF0 then 0x90 else 0x80) (if n = 0xF4 then 0x8F else 0xBF) b1 \<and>
             byte_in 0x80 0xBF b2 \<and> byte_in 0x80 0xBF b3
           then Some ((n - 0xF0) * 262144 + (unat b1 - 0x80) * 4096 + (unat b2 - 0x80) * 64 + (unat b3 - 0x80), r) else None
         | _ \<Rightarrow> None)
      else None)"

lemma utf8_next_shorter: "utf8_next bs = Some (c, r) \<Longrightarrow> length r < length bs"
  by (cases bs) (auto simp: Let_def split: if_splits list.splits)

function from_utf8 :: "u8 list \<Rightarrow> str option" where
  "from_utf8 bs =
     (if bs = [] then Some []
      else case utf8_next bs of None \<Rightarrow> None | Some (c, r) \<Rightarrow> map_option ((#) c) (from_utf8 r))"
  by pat_completeness auto
termination
  by (relation "measure length") (auto dest: utf8_next_shorter)

declare from_utf8.simps [simp del]
declare utf8_next.simps(2) [simp del]

lemma unat_byte: "k < 256 \<Longrightarrow> unat (byte_of k) = k"
  unfolding byte_of_def by (rule unat_of_nat_small) simp

lemma byte_of_unat: "byte_of (unat b) = b"
  by (simp add: byte_of_def)

lemma utf8_next_char:
  assumes "scalar c"
  shows "utf8_next (utf8_char c @ r) = Some (c, r)"
proof -
  define w x y z where "w = c div 262144" and "x = c div 4096 mod 64" and "y = c div 64 mod 64" and "z = c mod 64"
  have quot: "c div 64 div 64 = c div 4096" "c div 4096 div 64 = c div 262144"
    by (simp_all flip: div_mult2_eq)
  have c: "c = 262144 * w + 4096 * x + 64 * y + z"
    using div_mult_mod_eq [of c 64] div_mult_mod_eq [of "c div 64" 64] div_mult_mod_eq [of "c div 4096" 64]
    unfolding w_def x_def y_def z_def quot by linarith
  have small: "x < 64" "y < 64" "z < 64" by (simp_all add: x_def y_def z_def)
  have "w \<le> 4" using assms c unfolding scalar_def by linarith
  consider "c < 0x80" | "0x80 \<le> c" "c < 0x800" | "0x800 \<le> c" "c < 0x10000" | "0x10000 \<le> c" by linarith
  then show ?thesis
  proof cases
    case 1
    then show ?thesis by (simp add: utf8_char_def utf8_next.simps(2) unat_byte)
  next
    case 2
    then have "w = 0" "x = 0" using c by simp_all
    then have "c div 64 = y" "c mod 64 = z" using c small by simp_all
    with 2 c small \<open>w = 0\<close> \<open>x = 0\<close> show ?thesis
      by (simp add: utf8_char_def utf8_next.simps(2) unat_byte byte_in_def Let_def)
  next
    case 3
    then have "w = 0" using c by simp
    then have d: "c div 4096 = x" "c div 64 mod 64 = y" "c mod 64 = z" using c small by (simp_all add: y_def z_def)
    have "x = 0 \<longrightarrow> 32 \<le> y" "x = 13 \<longrightarrow> y \<le> 31" using 3 c \<open>w = 0\<close> assms small by (auto simp: scalar_def)
    moreover have "x < 16" using 3 c \<open>w = 0\<close> by simp
    ultimately show ?thesis using 3 c small d
      by (simp add: utf8_char_def utf8_next.simps(2) unat_byte byte_in_def Let_def)
  next
    case 4
    have d: "c div 262144 = w" "c div 4096 mod 64 = x" "c div 64 mod 64 = y" "c mod 64 = z"
      by (simp_all add: w_def x_def y_def z_def)
    have "c < 0x110000" using 4 assms by (auto simp: scalar_def)
    then have "w = 0 \<longrightarrow> 16 \<le> x" "w = 4 \<longrightarrow> x \<le> 15" using 4 c small by auto
    with 4 c small d \<open>w \<le> 4\<close> show ?thesis
      by (simp add: utf8_char_def utf8_next.simps(2) unat_byte byte_in_def Let_def)
  qed
qed


lemma utf8_next_inverse:
  assumes "utf8_next bs = Some (c, r)"
  shows "scalar c \<and> bs = utf8_char c @ r"
proof -
  have split2: "c = 64 * p + q \<Longrightarrow> q < 64 \<Longrightarrow> c div 64 = p \<and> c mod 64 = q" for c p q :: nat by simp
  obtain b0 bs' where bs: "bs = b0 # bs'" using assms by (cases bs) auto
  note next_eq = assms [unfolded bs utf8_next.simps(2) Let_def byte_in_def]
  consider "unat b0 < 0x80" | "unat b0 \<ge> 0x80" "unat b0 \<le> 0xDF" | "unat b0 \<ge> 0xE0" "unat b0 \<le> 0xEF" | "unat b0 \<ge> 0xF0" by linarith
  then show ?thesis
  proof cases
    case 1
    with next_eq bs show ?thesis by (auto simp: scalar_def utf8_char_def byte_of_unat)
  next
    case 2
    with next_eq obtain b1 where b1: "bs' = b1 # r" "128 \<le> unat b1" "unat b1 \<le> 191" "194 \<le> unat b0"
      and c: "c = (unat b0 - 192) * 64 + (unat b1 - 128)"
      by (auto split: if_splits list.splits)
    have "c = 64 * (unat b0 - 192) + (unat b1 - 128)" using c by simp
    from split2 [OF this] b1 have "c div 64 = unat b0 - 192" "c mod 64 = unat b1 - 128" by simp_all
    moreover from b1 2 c have "0x80 \<le> c" "c < 0x800" by linarith+
    ultimately show ?thesis using b1 2 bs by (simp add: scalar_def utf8_char_def byte_of_unat)
  next
    case 3
    with next_eq obtain b1 b2 where b: "bs' = b1 # b2 # r" "128 \<le> unat b1" "unat b1 \<le> 191" "128 \<le> unat b2" "unat b2 \<le> 191"
        "unat b0 = 224 \<longrightarrow> 160 \<le> unat b1" "unat b0 = 237 \<longrightarrow> unat b1 \<le> 159"
      and c: "c = (unat b0 - 224) * 4096 + (unat b1 - 128) * 64 + (unat b2 - 128)"
      by (auto split: if_splits list.splits)
    have c': "c = 64 * (64 * (unat b0 - 224) + (unat b1 - 128)) + (unat b2 - 128)" using c by simp
    have m: "c div 64 = 64 * (unat b0 - 224) + (unat b1 - 128)" "c mod 64 = unat b2 - 128"
      using split2 [OF c'] b by simp_all
    have n: "c div 64 div 64 = unat b0 - 224" "c div 64 mod 64 = unat b1 - 128"
      using split2 [OF m(1)] b by simp_all
    then have "c div 4096 = unat b0 - 224" by (simp flip: div_mult2_eq)
    moreover from b 3 c have "0x800 \<le> c" "c < 0x10000" by linarith+
    moreover have "\<not> (0xD800 \<le> c \<and> c < 0xE000)"
      using b(2-7) 3 unfolding c by (cases "unat b0" "237 :: nat" rule: linorder_cases; linarith)
    ultimately show ?thesis using m(2) n(2) b 3 bs by (simp add: scalar_def utf8_char_def byte_of_unat) linarith
  next
    case 4
    with next_eq obtain b1 b2 b3 where b: "bs' = b1 # b2 # b3 # r" "128 \<le> unat b1" "unat b1 \<le> 191" "128 \<le> unat b2" "unat b2 \<le> 191"
        "128 \<le> unat b3" "unat b3 \<le> 191" "unat b0 = 240 \<longrightarrow> 144 \<le> unat b1" "unat b0 = 244 \<longrightarrow> unat b1 \<le> 143" "unat b0 \<le> 244"
      and c: "c = (unat b0 - 240) * 262144 + (unat b1 - 128) * 4096 + (unat b2 - 128) * 64 + (unat b3 - 128)"
      by (auto split: if_splits list.splits)
    have c': "c = 64 * (64 * (64 * (unat b0 - 240) + (unat b1 - 128)) + (unat b2 - 128)) + (unat b3 - 128)" using c by simp
    have m: "c div 64 = 64 * (64 * (unat b0 - 240) + (unat b1 - 128)) + (unat b2 - 128)" "c mod 64 = unat b3 - 128"
      using split2 [OF c'] b by simp_all
    have n: "c div 64 div 64 = 64 * (unat b0 - 240) + (unat b1 - 128)" "c div 64 mod 64 = unat b2 - 128"
      using split2 [OF m(1)] b by simp_all
    have k: "c div 64 div 64 div 64 = unat b0 - 240" "c div 64 div 64 mod 64 = unat b1 - 128"
      using split2 [OF n(1)] b by simp_all
    have "c div 262144 = unat b0 - 240" "c div 4096 mod 64 = unat b1 - 128"
      using k by (simp_all flip: div_mult2_eq)
    moreover from b 4 c have "0x10000 \<le> c" "c < 0x110000" by linarith+
    ultimately show ?thesis using m(2) n(2) b 4 bs by (simp add: scalar_def utf8_char_def byte_of_unat)
  qed
qed

lemma utf8_char_nonempty [simp]: "utf8_char c \<noteq> []"
  by (simp add: utf8_char_def)

definition valid_str :: "str \<Rightarrow> bool" where
  "valid_str s \<longleftrightarrow> list_all scalar s"

lemma from_utf8_as_bytes: "valid_str s \<Longrightarrow> from_utf8 (as_bytes s) = Some s"
proof (induction s)
  case (Cons c s)
  then show ?case
    by (subst from_utf8.simps) (simp add: as_bytes_def valid_str_def utf8_next_char)
qed (simp add: as_bytes_def from_utf8.simps)

lemma from_utf8_exact: "from_utf8 bs = Some s \<longleftrightarrow> bs = as_bytes s \<and> valid_str s"
proof
  show "from_utf8 bs = Some s \<Longrightarrow> bs = as_bytes s \<and> valid_str s"
  proof (induction bs arbitrary: s rule: from_utf8.induct)
    case (1 bs)
    show ?case
    proof (cases "bs = []")
      case True
      with 1(2) show ?thesis by (auto simp: from_utf8.simps as_bytes_def valid_str_def)
    next
      case False
      with 1(2) obtain c r s' where r: "utf8_next bs = Some (c, r)" "from_utf8 r = Some s'" "s = c # s'"
        by (subst (asm) from_utf8.simps) (auto split: option.splits)
      with 1(1) [OF False r(1) refl r(2)] utf8_next_inverse [OF r(1)] show ?thesis
        by (simp add: as_bytes_def valid_str_def)
    qed
  qed
qed (simp add: from_utf8_as_bytes)

section \<open>Searching and splitting\<close>

definition is_whitespace :: "nat \<Rightarrow> bool" where
  "is_whitespace c \<longleftrightarrow> 9 \<le> c \<and> c \<le> 13 \<or> 0x2000 \<le> c \<and> c \<le> 0x200A \<or>
     c \<in> {0x20, 0x85, 0xA0, 0x1680, 0x2028, 0x2029, 0x202F, 0x205F, 0x3000}"

definition trim :: "str \<Rightarrow> str" where "trim = trim_by is_whitespace"

definition split_once :: "nat \<Rightarrow> str \<Rightarrow> (str \<times> str) option" where
  "split_once c s = (if c \<in> set s then Some (takeWhile (\<lambda>x. x \<noteq> c) s, tl (dropWhile (\<lambda>x. x \<noteq> c) s)) else None)"

definition strip_prefix :: "nat \<Rightarrow> str \<Rightarrow> str option" where
  "strip_prefix c s = (case s of [] \<Rightarrow> None | x # xs \<Rightarrow> if x = c then Some xs else None)"

definition strip_suffix :: "nat \<Rightarrow> str \<Rightarrow> str option" where
  "strip_suffix c s = (if s \<noteq> [] \<and> last s = c then Some (butlast s) else None)"

lemma split_once_sound: "split_once c s = Some (a, b) \<Longrightarrow> s = a @ c # b \<and> c \<notin> set a"
proof -
  assume "split_once c s = Some (a, b)"
  then have c: "c \<in> set s" and a: "a = takeWhile (\<lambda>x. x \<noteq> c) s" and b: "b = tl (dropWhile (\<lambda>x. x \<noteq> c) s)"
    by (auto simp: split_once_def split: if_splits)
  from c have ne: "dropWhile (\<lambda>x. x \<noteq> c) s \<noteq> []" by (auto simp: dropWhile_eq_Nil_conv)
  then have "hd (dropWhile (\<lambda>x. x \<noteq> c) s) = c" using hd_dropWhile by blast
  with ne b have "dropWhile (\<lambda>x. x \<noteq> c) s = c # b" by (metis list.collapse)
  then show ?thesis using a takeWhile_dropWhile_id [of "\<lambda>x. x \<noteq> c" s] set_takeWhileD by fastforce
qed

lemma split_once_append: "c \<notin> set a \<Longrightarrow> split_once c (a @ c # b) = Some (a, b)"
  by (induction a) (auto simp: split_once_def split: if_splits)

lemma split_once_shorter: "split_once c s = Some (a, b) \<Longrightarrow> length b < length s"
  by (drule split_once_sound) auto

text \<open>
  \<open>str::lines\<close>: pieces that end with \<open>\n\<close> lose it and a carriage return before it; a last piece
  without \<open>\n\<close> is a line if it is not empty.
\<close>

function str_lines :: "str \<Rightarrow> str list" where
  "str_lines s =
     (if s = [] then []
      else case split_once 10 s of
          None \<Rightarrow> [s]
        | Some (l, rest) \<Rightarrow> (case strip_suffix 13 l of None \<Rightarrow> l | Some l' \<Rightarrow> l') # str_lines rest)"
  by pat_completeness auto
termination
  by (relation "measure length") (auto dest: split_once_shorter)

declare str_lines.simps [simp del]

end
