(* ===== verification/Dzp.thy ===== *)
theory Dzp
  imports Rust_Str
begin

text \<open>
  The package format of dezh-core/src/dzp.rs: header, CRC-32, packing and parsing, and the
  manifest look-ups. A manifest is a \<open>str\<close> of the string theory.
\<close>

section \<open>Format constants and errors\<close>

definition DZP_MAGIC :: "u8 list" where "DZP_MAGIC = [0x44, 0x5A, 0x50, 0x31]"
definition DZP_VERSION :: u16 where "DZP_VERSION = 1"
definition HEADER_LEN :: nat where "HEADER_LEN = 20"
definition KIND_DEZH_IR :: u16 where "KIND_DEZH_IR = 1"
definition KIND_ELF_RISCV64 :: u16 where "KIND_ELF_RISCV64 = 2"

datatype DzpError = DzpTooShort | DzpBadMagic | DzpBadVersion | DzpBadKind | DzpTruncated | DzpBadCrc | DzpManifestNotUtf8

record Package =
  pkg_kind :: u16
  pkg_manifest :: str
  pkg_payload :: "u8 list"

definition u16_at :: "u8 list \<Rightarrow> nat \<Rightarrow> u16" where "u16_at b off = from_le (slice off (off + 2) b)"
definition u32_at :: "u8 list \<Rightarrow> nat \<Rightarrow> u32" where "u32_at b off = from_le (slice off (off + 4) b)"

section \<open>CRC-32\<close>

definition CRC_POLY :: u32 where "CRC_POLY = 0xEDB88320"

definition crc_bit :: "u32 \<Rightarrow> u32" where
  "crc_bit crc = drop_bit 1 crc XOR (CRC_POLY AND (- (crc AND 1)))"

definition crc_byte :: "u32 \<Rightarrow> u8 \<Rightarrow> u32" where
  "crc_byte crc b = (crc_bit ^^ 8) (crc XOR ucast b)"

definition crc32 :: "u8 list list \<Rightarrow> u32" where
  "crc32 parts = NOT (foldl (foldl crc_byte) 0xFFFFFFFF parts)"

section \<open>Packing and parsing\<close>

text \<open>The bytes of a package, and \<open>pack\<close> writing them to the front of the caller's buffer.\<close>

definition dzp_header :: "u16 \<Rightarrow> u8 list \<Rightarrow> u8 list \<Rightarrow> u8 list" where
  "dzp_header kind m payload =
     DZP_MAGIC @ to_le 2 DZP_VERSION @ to_le 2 kind @ to_le 4 (of_nat (length m) :: u32) @
     to_le 4 (of_nat (length payload) :: u32) @ to_le 4 (crc32 [m, payload])"

definition dzp_bytes :: "u16 \<Rightarrow> str \<Rightarrow> u8 list \<Rightarrow> u8 list" where
  "dzp_bytes kind manifest payload =
     dzp_header kind (as_bytes manifest) payload @ as_bytes manifest @ payload"

definition pack :: "u16 \<Rightarrow> str \<Rightarrow> u8 list \<Rightarrow> u8 list \<Rightarrow> ('e, nat \<times> u8 list) outcome" where
  "pack kind manifest payload out =
     (let total = HEADER_LEN + length (as_bytes manifest) + length payload in
      if length out < total then Panic
      else Ok (total, splice out 0 (dzp_bytes kind manifest payload)))"

definition parse :: "u8 list \<Rightarrow> (DzpError, Package) outcome" where
  "parse bytes =
     (if length bytes < HEADER_LEN then Err DzpTooShort
      else if slice 0 4 bytes \<noteq> DZP_MAGIC then Err DzpBadMagic
      else if u16_at bytes 4 \<noteq> DZP_VERSION then Err DzpBadVersion
      else let kind = u16_at bytes 6 in
        if kind \<noteq> KIND_DEZH_IR \<and> kind \<noteq> KIND_ELF_RISCV64 then Err DzpBadKind
        else let mlen = unat (u32_at bytes 8); plen = unat (u32_at bytes 12); total = HEADER_LEN + mlen + plen in
          if total \<ge> 2 ^ 64 then Err DzpTruncated
          else if length bytes \<noteq> total then Err DzpTruncated
          else let manifest_bytes = slice HEADER_LEN (HEADER_LEN + mlen) bytes;
                   payload = drop (HEADER_LEN + mlen) bytes in
            if u32_at bytes 16 \<noteq> crc32 [manifest_bytes, payload] then Err DzpBadCrc
            else case from_utf8 manifest_bytes of
                None \<Rightarrow> Err DzpManifestNotUtf8
              | Some manifest \<Rightarrow> Ok \<lparr> pkg_kind = kind, pkg_manifest = manifest, pkg_payload = payload \<rparr>)"

section \<open>Manifest look-ups\<close>

text \<open>The value of the first line \<open>key = value\<close> that is not a comment, from the given lines on.\<close>

fun manifest_values :: "str \<Rightarrow> str list \<Rightarrow> str list" where
  "manifest_values key [] = []"
| "manifest_values key (line # lines) =
     (let line = trim line in
      if \<not> (line \<noteq> [] \<and> hd line = 35) then
        (case split_once 61 line of
           None \<Rightarrow> manifest_values key lines
         | Some (k, v) \<Rightarrow> if trim k \<noteq> key then manifest_values key lines else trim v # manifest_values key lines)
      else manifest_values key lines)"

definition manifest_str :: "str \<Rightarrow> str \<Rightarrow> str option" where
  "manifest_str manifest key =
     (case manifest_values key (str_lines manifest) of
        [] \<Rightarrow> None
      | v # _ \<Rightarrow> Option.bind (strip_prefix 34 v) (\<lambda>inner. map_option fst (split_once 34 inner)))"

text \<open>The iterator over the quoted items, run to its end.\<close>

function manifest_items :: "str \<Rightarrow> str list" where
  "manifest_items rest =
     (case split_once 34 rest of
        None \<Rightarrow> []
      | Some (_, after) \<Rightarrow> (case split_once 34 after of
            None \<Rightarrow> []
          | Some (item, rest') \<Rightarrow> item # manifest_items rest'))"
  by pat_completeness auto
termination
  by (relation "measure length") (auto dest!: split_once_shorter)

declare manifest_items.simps [simp del]

fun first_list :: "str list \<Rightarrow> str" where
  "first_list [] = []"
| "first_list (v # vs) =
     (case Option.bind (strip_prefix 91 v) (strip_suffix 93) of None \<Rightarrow> first_list vs | Some inner \<Rightarrow> inner)"

definition manifest_list :: "str \<Rightarrow> str \<Rightarrow> str list" where
  "manifest_list manifest key = manifest_items (first_list (manifest_values key (str_lines manifest)))"

section \<open>The checksum sees every changed byte\<close>

lemma crc_bit_inj: "crc_bit x = crc_bit y \<Longrightarrow> x = y"
proof -
  assume eq: "crc_bit x = crc_bit y"
  have neg: "- (w AND 1) = (if bit w 0 then - 1 else (0 :: u32))" for w :: u32
    by (auto simp: and_one_eq bit_0 even_iff_mod_2_eq_zero odd_iff_mod_2_eq_one)
  have crc: "crc_bit w = drop_bit 1 w XOR (if bit w 0 then CRC_POLY else 0)" for w
    by (simp add: crc_bit_def neg)
  have "bit (crc_bit w) 31 = bit w 0" for w
    unfolding crc using bit_imp_le_length [of w 32] by (auto simp: bit_simps CRC_POLY_def)
  then have low: "bit x 0 = bit y 0" using eq by metis
  have "a XOR CRC_POLY = b XOR CRC_POLY \<Longrightarrow> a = b" for a b
    by (auto simp: bit_eq_iff bit_xor_iff)
  with eq low have "drop_bit 1 x = drop_bit 1 y" unfolding crc by (auto split: if_splits)
  then have high: "bit x (Suc n) = bit y (Suc n)" for n
    by (metis bit_drop_bit_eq comp_def plus_1_eq_Suc)
  show "x = y"
  proof (rule bit_word_eqI)
    fix n show "bit x n = bit y n" using low high by (cases n) auto
  qed
qed

lemma crc_byte_inj: "crc_byte c b = crc_byte c' b \<longleftrightarrow> c = c'" "crc_byte c b = crc_byte c b' \<longleftrightarrow> b = b'"
proof -
  have inj: "(crc_bit ^^ n) x = (crc_bit ^^ n) y \<Longrightarrow> x = y" for n x y
    by (induction n) (auto dest: crc_bit_inj)
  have xor_right: "x XOR z = y XOR z \<Longrightarrow> x = y" for x y z :: u32
    by (auto simp: bit_eq_iff bit_xor_iff)
  show "crc_byte c b = crc_byte c' b \<longleftrightarrow> c = c'" by (auto simp: crc_byte_def dest!: inj xor_right)
  have "(ucast b :: u32) = ucast b' \<Longrightarrow> b = b'"
    by (rule bit_word_eqI) (auto simp: bit_eq_iff [where 'a = "32 word"] bit_simps)
  moreover have "c XOR x = c XOR y \<Longrightarrow> x = y" for x y by (metis xor_right xor.commute)
  ultimately show "crc_byte c b = crc_byte c b' \<longleftrightarrow> b = b'" unfolding crc_byte_def using inj by blast
qed

lemma foldl_crc_inj: "foldl crc_byte c bs = foldl crc_byte c' bs \<longleftrightarrow> c = c'"
  by (induction bs arbitrary: c c') (simp_all add: crc_byte_inj)

lemma foldl_crc_update:
  assumes "i < length bs" and "b \<noteq> bs ! i"
  shows "foldl crc_byte c (bs[i := b]) \<noteq> foldl crc_byte c bs"
proof -
  define pre post where "pre = take i bs" and "post = drop (Suc i) bs"
  have upd: "bs[i := b] = pre @ b # post" and orig: "bs = pre @ bs ! i # post"
    unfolding pre_def post_def using assms(1) by (simp_all only: upd_conv_take_nth_drop id_take_nth_drop [symmetric])
  have "foldl crc_byte c (pre @ x # post) = foldl crc_byte c (pre @ y # post) \<Longrightarrow> x = y" for x y
    by (simp add: foldl_crc_inj crc_byte_inj)
  then show ?thesis using assms(2) upd orig by metis
qed

lemma crc32_append: "crc32 [a, b] = NOT (foldl crc_byte 0xFFFFFFFF (a @ b))"
  by (simp add: crc32_def)

section \<open>Packing and parsing invert each other\<close>

lemma length_dzp_header [simp]: "length (dzp_header kind m p) = 20"
  by (simp add: dzp_header_def DZP_MAGIC_def)

lemma dzp_header_fields:
  "slice 0 4 (dzp_header kind m p @ rest) = DZP_MAGIC"
  "u16_at (dzp_header kind m p @ rest) 4 = DZP_VERSION"
  "u16_at (dzp_header kind m p @ rest) 6 = kind"
  "u32_at (dzp_header kind m p @ rest) 8 = of_nat (length m)"
  "u32_at (dzp_header kind m p @ rest) 12 = of_nat (length p)"
  "u32_at (dzp_header kind m p @ rest) 16 = crc32 [m, p]"
  by (simp_all add: dzp_header_def DZP_MAGIC_def u16_at_def u32_at_def slice_def from_le_to_le)

lemma to_le_fields:
  "off + 2 \<le> length b \<Longrightarrow> to_le 2 (u16_at b off) = slice off (off + 2) b"
  "off + 4 \<le> length b \<Longrightarrow> to_le 4 (u32_at b off) = slice off (off + 4) b"
  using to_le_from_le [of "slice off (off + 2) b", where 'a = 16] to_le_from_le [of "slice off (off + 4) b", where 'a = 32]
  by (simp_all add: u16_at_def u32_at_def)

lemma slice_join:
  assumes "a \<le> b" and "b \<le> c"
  shows "slice a b xs @ slice b c xs = slice a c xs"
proof -
  have "c - a = (b - a) + (c - b)" and "drop b xs = drop (b - a) (drop a xs)" using assms by simp_all
  then show ?thesis by (simp add: slice_def take_add)
qed

lemma header_slices:
  assumes "20 \<le> length b"
  shows "slice 0 4 b @ slice 4 6 b @ slice 6 8 b @ slice 8 12 b @ slice 12 16 b @ slice 16 20 b = take 20 b"
proof -
  have "slice 0 20 b = take 20 b" by (simp add: slice_def)
  then show ?thesis by (simp add: slice_join)
qed

definition package_ok :: "Package \<Rightarrow> bool" where
  "package_ok p \<longleftrightarrow> pkg_kind p \<in> {KIND_DEZH_IR, KIND_ELF_RISCV64} \<and> valid_str (pkg_manifest p) \<and>
     length (as_bytes (pkg_manifest p)) < 2 ^ 32 \<and> length (pkg_payload p) < 2 ^ 32"

lemma parse_dzp_bytes:
  assumes "package_ok p"
  shows "parse (dzp_bytes (pkg_kind p) (pkg_manifest p) (pkg_payload p)) = Ok p"
proof -
  let ?m = "as_bytes (pkg_manifest p)"
  have len: "unat (of_nat (length ?m) :: u32) = length ?m" "unat (of_nat (length (pkg_payload p)) :: u32) = length (pkg_payload p)"
    using assms by (simp_all add: package_ok_def unat_of_nat_small)
  have "from_utf8 ?m = Some (pkg_manifest p)" using assms by (simp add: package_ok_def from_utf8_as_bytes)
  moreover have "20 + length ?m + length (pkg_payload p) < 2 ^ 64" using assms by (simp add: package_ok_def)
  ultimately show ?thesis
    using assms unfolding parse_def dzp_bytes_def
    by (auto simp: Let_def dzp_header_fields len HEADER_LEN_def slice_skip package_ok_def)
qed

lemma parse_exact:
  assumes "parse b = Ok p"
  shows "b = dzp_bytes (pkg_kind p) (pkg_manifest p) (pkg_payload p) \<and> package_ok p"
proof -
  let ?mlen = "unat (u32_at b 8)" and ?plen = "unat (u32_at b 12)"
  let ?m = "slice 20 (20 + ?mlen) b" and ?p = "drop (20 + ?mlen) b"
  from assms have p: "20 \<le> length b" "slice 0 4 b = DZP_MAGIC" "u16_at b 4 = DZP_VERSION" "u16_at b 6 \<in> {KIND_DEZH_IR, KIND_ELF_RISCV64}"
    "length b = 20 + ?mlen + ?plen" "u32_at b 16 = crc32 [?m, ?p]" "from_utf8 ?m = Some (pkg_manifest p)"
    "pkg_kind p = u16_at b 6" "pkg_payload p = ?p"
    by (auto simp: parse_def HEADER_LEN_def Let_def split: if_splits option.splits)
  have m: "?m = as_bytes (pkg_manifest p)" "valid_str (pkg_manifest p)" using p(7) from_utf8_exact by simp_all
  have len: "length ?m = ?mlen" "length ?p = ?plen" using p(5) by simp_all
  have "dzp_header (u16_at b 6) ?m ?p = take 20 b"
    unfolding dzp_header_def len header_slices [OF p(1), symmetric]
    using p(1) by (simp add: p(2) p(3,6) [symmetric] to_le_fields)
  then have "dzp_bytes (pkg_kind p) (pkg_manifest p) (pkg_payload p) = take 20 b @ ?m @ ?p"
    by (simp add: dzp_bytes_def p(8,9) m(1) [symmetric])
  also have "\<dots> = take 20 b @ take ?mlen (drop 20 b) @ drop ?mlen (drop 20 b)" by (simp add: slice_def add.commute)
  also have "\<dots> = b" by (simp only: append_take_drop_id)
  finally show ?thesis
    using p(4,8,9) m len unat_u32_less [of "u32_at b 8"] unat_u32_less [of "u32_at b 12"] by (simp add: package_ok_def)
qed

lemma length_dzp_bytes: "length (dzp_bytes kind m payload) = HEADER_LEN + length (as_bytes m) + length payload"
  by (simp add: dzp_bytes_def HEADER_LEN_def)

section \<open>Properties\<close>

text \<open>
  C35. Packing and parsing are inverse: the parser accepts exactly the byte strings that packing
  a well-formed package gives, and returns that package; packing writes those bytes to the front
  of a buffer that holds them.
\<close>

theorem package_round_trip:
  "(parse b = Ok p \<longleftrightarrow> b = dzp_bytes (pkg_kind p) (pkg_manifest p) (pkg_payload p) \<and> package_ok p) \<and>
   pack kind m payload out = (if length out < length (dzp_bytes kind m payload) then Panic
     else Ok (length (dzp_bytes kind m payload), dzp_bytes kind m payload @ drop (length (dzp_bytes kind m payload)) out))"
proof -
  have "parse b = Ok p \<longleftrightarrow> b = dzp_bytes (pkg_kind p) (pkg_manifest p) (pkg_payload p) \<and> package_ok p"
    using parse_exact parse_dzp_bytes by blast
  then show ?thesis by (simp add: pack_def length_dzp_bytes splice_def Let_def)
qed

text \<open>
  C36. A package in which any one byte of the manifest or the payload has been changed, to any
  other value, is rejected as corrupt.
\<close>

theorem corrupted_byte_is_rejected:
  assumes "parse b = Ok p" and "20 \<le> i" and "i < length b" and "x \<noteq> b ! i"
  shows "parse (b[i := x]) = Err DzpBadCrc"
proof -
  let ?b = "b[i := x]" and ?mlen = "unat (u32_at b 8)"
  have head: "slice o1 o2 ?b = slice o1 o2 b" if "o2 \<le> 20" for o1 o2
    using that assms(2,3) unfolding slice_def by (intro nth_equalityI) (simp_all add: nth_list_update)
  then have fields: "u16_at ?b 4 = u16_at b 4" "u16_at ?b 6 = u16_at b 6" "u32_at ?b 8 = u32_at b 8"
      "u32_at ?b 12 = u32_at b 12" "u32_at ?b 16 = u32_at b 16" "slice 0 4 ?b = slice 0 4 b"
    by (simp_all add: u16_at_def u32_at_def)
  have body: "slice 20 (20 + n) c @ drop (20 + n) c = drop 20 c" for n and c :: "u8 list"
    by (metis add_diff_cancel_left' add.commute append_take_drop_id drop_drop slice_def)
  have "crc32 [slice 20 (20 + ?mlen) ?b, drop (20 + ?mlen) ?b] \<noteq> crc32 [slice 20 (20 + ?mlen) b, drop (20 + ?mlen) b]"
  proof -
    have "drop 20 ?b = (drop 20 b)[i - 20 := x]" using assms(2) by (simp add: drop_update_swap)
    moreover have "foldl crc_byte c ((drop 20 b)[i - 20 := x]) \<noteq> foldl crc_byte c (drop 20 b)" for c
      by (rule foldl_crc_update) (use assms(2-4) in auto)
    ultimately show ?thesis unfolding crc32_append body by simp
  qed
  then show ?thesis
    using assms(1) by (auto simp: parse_def HEADER_LEN_def fields Let_def split: if_splits option.splits)
qed

theorem corrupted_byte_is_rejected_witness:
  "parse ((dzp_bytes KIND_DEZH_IR (lit ''a'') [7, 0])[21 := 8]) = Err DzpBadCrc"
proof (rule corrupted_byte_is_rejected)
  show "parse (dzp_bytes KIND_DEZH_IR (lit ''a'') [7, 0]) =
    Ok \<lparr> pkg_kind = KIND_DEZH_IR, pkg_manifest = lit ''a'', pkg_payload = [7, 0] \<rparr>"
    using parse_dzp_bytes [of "\<lparr> pkg_kind = KIND_DEZH_IR, pkg_manifest = lit ''a'', pkg_payload = [7, 0] \<rparr>"]
    by (simp add: package_ok_def valid_str_def scalar_def lit_def as_bytes_def utf8_char_def)
qed (simp_all add: dzp_bytes_def dzp_header_def DZP_MAGIC_def lit_def as_bytes_def utf8_char_def nth_append)

end
