(* ===== verification/Sig.thy ===== *)
theory Sig
  imports Dzp Authority
begin

text \<open>
  Package signing (dezh-core/src/sig.rs): the signed context, the envelope that carries a signed
  package, and the attenuation of requested capabilities by the signer's ceiling. The Ed25519
  check of the \<open>ed25519-compact\<close> crate is the parameter \<open>ed\<close>, from key, message and signature.
\<close>

section \<open>The signed message\<close>

definition SIG_MAGIC :: "u8 list" where "SIG_MAGIC = [0x44, 0x5A, 0x53, 0x49, 0x47, 0x31]"
definition PK_LEN :: nat where "PK_LEN = 32"
definition SIG_LEN :: nat where "SIG_LEN = 64"
definition SIG_CONTEXT_LEN :: nat where "SIG_CONTEXT_LEN = 6 + 8"

text \<open>Writes the context to the front of the buffer and answers its length.\<close>

definition signed_context :: "u8 list \<Rightarrow> u64 \<Rightarrow> (nat \<times> u8 list) option" where
  "signed_context out counter =
     (if length out < SIG_CONTEXT_LEN then None
      else Some (SIG_CONTEXT_LEN, splice (splice out 0 SIG_MAGIC) 6 (to_le 8 counter)))"

type_synonym ed25519 = "u8 list \<Rightarrow> u8 list \<Rightarrow> u8 list \<Rightarrow> bool"

definition sig_verify :: "ed25519 \<Rightarrow> u8 list \<Rightarrow> u8 list \<Rightarrow> u8 list \<Rightarrow> bool" where
  "sig_verify ed pk sig msg = ed pk msg sig"

section \<open>The signer's ceiling\<close>

definition attenuate :: "u32 \<Rightarrow> u32 \<Rightarrow> u32" where
  "attenuate requested_caps signer_ceiling = requested_caps AND signer_ceiling"

definition beyond_ceiling :: "u32 \<Rightarrow> u32 \<Rightarrow> u32" where
  "beyond_ceiling requested_caps signer_ceiling = requested_caps AND NOT signer_ceiling"

interpretation publisher: reported_attenuation attenuate beyond_ceiling
proof
  show "bit (attenuate r c) n \<longleftrightarrow> bit r n \<and> bit c n" for r c n
    by (simp add: attenuate_def bit_and_iff)
  show "bit (beyond_ceiling r c) n \<longleftrightarrow> bit r n \<and> \<not> bit c n" for r c n
    using bit_imp_le_length [of r n] by (auto simp: beyond_ceiling_def bit_simps)
qed

section \<open>The envelope\<close>

definition ENV_MAGIC :: "u8 list" where "ENV_MAGIC = [0x44, 0x5A, 0x53, 0x50]"
definition ENV_VERSION :: u16 where "ENV_VERSION = 1"
definition ENV_HEADER_LEN :: nat where "ENV_HEADER_LEN = 116"

datatype EnvError = EnvTooShort | EnvBadMagic | EnvBadVersion | EnvTruncated

record SignedEnvelope =
  env_signer_pk :: "u8 list"
  env_signature :: "u8 list"
  env_counter :: u64
  env_inner_offset :: nat
  env_inner_len :: nat

definition is_signed :: "u8 list \<Rightarrow> bool" where
  "is_signed b \<longleftrightarrow> length b \<ge> 4 \<and> slice 0 4 b = ENV_MAGIC"

definition u64le :: "u8 list \<Rightarrow> nat \<Rightarrow> u64" where "u64le b off = from_le (slice off (off + 8) b)"

definition parse_envelope :: "u8 list \<Rightarrow> (EnvError, SignedEnvelope) outcome" where
  "parse_envelope b =
     (if length b < ENV_HEADER_LEN then Err EnvTooShort
      else if slice 0 4 b \<noteq> ENV_MAGIC then Err EnvBadMagic
      else if u16_at b 4 \<noteq> ENV_VERSION then Err EnvBadVersion
      else let inner_len = unat (u32_at b 112); total = ENV_HEADER_LEN + inner_len in
        if total \<ge> 2 ^ 64 then Err EnvTruncated
        else if length b \<noteq> total then Err EnvTruncated
        else Ok \<lparr> env_signer_pk = slice 8 40 b, env_signature = slice 40 104 b, env_counter = u64le b 104,
                   env_inner_offset = ENV_HEADER_LEN, env_inner_len = inner_len \<rparr>)"

definition env_bytes :: "u8 list \<Rightarrow> u8 list \<Rightarrow> u8 list \<Rightarrow> u64 \<Rightarrow> u8 list \<Rightarrow> u8 list" where
  "env_bytes flags pk sig counter inner =
     ENV_MAGIC @ to_le 2 ENV_VERSION @ flags @ pk @ sig @ to_le 8 counter @ to_le 4 (of_nat (length inner) :: u32) @ inner"

text \<open>The arguments \<open>pk\<close> and \<open>sig\<close> are arrays of 32 and 64 bytes.\<close>

definition pack_envelope :: "u8 list \<Rightarrow> u8 list \<Rightarrow> u8 list \<Rightarrow> u64 \<Rightarrow> u8 list \<Rightarrow> (nat \<times> u8 list) option" where
  "pack_envelope out pk sig counter inner =
     (let total = ENV_HEADER_LEN + length inner in
      if length out < total then None
      else Some (total, splice out 0 (env_bytes (to_le 2 (0 :: u16)) pk sig counter inner)))"

text \<open>The package inside.\<close>

definition env_inner :: "u8 list \<Rightarrow> SignedEnvelope \<Rightarrow> u8 list" where
  "env_inner b e = slice (env_inner_offset e) (env_inner_offset e + env_inner_len e) b"

section \<open>Parsing what was packed\<close>

definition envelope_of :: "u8 list \<Rightarrow> u8 list \<Rightarrow> u64 \<Rightarrow> u8 list \<Rightarrow> SignedEnvelope" where
  "envelope_of pk sig counter inner = \<lparr> env_signer_pk = pk, env_signature = sig, env_counter = counter,
     env_inner_offset = 116, env_inner_len = length inner \<rparr>"

lemma length_env_bytes:
  "length flags = 2 \<Longrightarrow> length pk = 32 \<Longrightarrow> length sig = 64 \<Longrightarrow> length (env_bytes flags pk sig counter inner) = 116 + length inner"
  by (simp add: env_bytes_def ENV_MAGIC_def)

lemma parse_env_bytes:
  assumes "length flags = 2" and "length pk = 32" and "length sig = 64" and "length inner < 2 ^ 32"
  shows "parse_envelope (env_bytes flags pk sig counter inner) = Ok (envelope_of pk sig counter inner)"
    and "env_inner (env_bytes flags pk sig counter inner) (envelope_of pk sig counter inner) = inner"
proof -
  let ?b = "env_bytes flags pk sig counter inner"
  have len: "unat (of_nat (length inner) :: u32) = length inner" using assms(4) by (simp add: unat_of_nat_small)
  have "slice 0 4 ?b = ENV_MAGIC" "u16_at ?b 4 = ENV_VERSION" "slice 8 40 ?b = pk" "slice 40 104 ?b = sig"
    "u64le ?b 104 = counter" "u32_at ?b 112 = of_nat (length inner)" "slice 116 (116 + length inner) ?b = inner"
    using assms(1-3)
    by (simp_all add: env_bytes_def ENV_MAGIC_def u16_at_def u32_at_def u64le_def slice_skip slice_def from_le_to_le)
  then show "parse_envelope ?b = Ok (envelope_of pk sig counter inner)" and "env_inner ?b (envelope_of pk sig counter inner) = inner"
    using assms by (simp_all add: parse_envelope_def ENV_HEADER_LEN_def length_env_bytes len envelope_of_def env_inner_def Let_def)
qed

end
