(* ===== verification/Mcap.thy ===== *)
theory Mcap
  imports Dzp Dezh_IR
begin

text \<open>
  Manifest capabilities (dezh-core/src/mcap.rs): from the \<open>caps\<close> list of a manifest to the
  capability word of the task and the capabilities of the bytecode host.
\<close>

section \<open>The vocabulary\<close>

definition MCAP_PRINT :: u32 where "MCAP_PRINT = push_bit 0 1"
definition MCAP_IPC :: u32 where "MCAP_IPC = push_bit 1 1"
definition MCAP_UPTIME :: u32 where "MCAP_UPTIME = push_bit 2 1"
definition MCAP_CAIRN_READ :: u32 where "MCAP_CAIRN_READ = push_bit 3 1"
definition MCAP_CAIRN_WRITE :: u32 where "MCAP_CAIRN_WRITE = push_bit 4 1"

lemmas mcap_defs = MCAP_PRINT_def MCAP_IPC_def MCAP_UPTIME_def MCAP_CAIRN_READ_def MCAP_CAIRN_WRITE_def

definition MCAP_TABLE :: "(str \<times> u32) list" where
  "MCAP_TABLE = [(lit ''print'', MCAP_PRINT), (lit ''ipc'', MCAP_IPC), (lit ''uptime'', MCAP_UPTIME),
     (lit ''cairn-read'', MCAP_CAIRN_READ), (lit ''cairn-write'', MCAP_CAIRN_WRITE)]"

definition MCAP_ALL :: u32 where
  "MCAP_ALL = MCAP_PRINT OR MCAP_IPC OR MCAP_UPTIME OR MCAP_CAIRN_READ OR MCAP_CAIRN_WRITE"

definition TASK_PRINT :: u64 where "TASK_PRINT = push_bit 0 1"
definition TASK_TIME :: u64 where "TASK_TIME = push_bit 1 1"
definition TASK_IPC :: u64 where "TASK_IPC = push_bit 2 1"

definition NS_BASE :: nat where "NS_BASE = 8"

definition CAIRN_NS_NAMES :: "str list" where
  "CAIRN_NS_NAMES = map lit [''note'', ''lab'', ''calc'', ''vault'', ''agent'']"

definition cairn_ns_id :: "str \<Rightarrow> nat option" where
  "cairn_ns_id name =
     (let i = length (takeWhile (\<lambda>n. n \<noteq> name) CAIRN_NS_NAMES) in
      if i < length CAIRN_NS_NAMES then Some i else None)"

definition task_ns_cap :: "nat \<Rightarrow> u64" where "task_ns_cap ns = push_bit (NS_BASE + ns) 1"

section \<open>From the manifest to authority\<close>

definition mcap_bit :: "str \<Rightarrow> u32 option" where
  "mcap_bit cap = map_option snd (find (\<lambda>(n, _). n = cap) MCAP_TABLE)"

primrec mcap_scan :: "str list \<Rightarrow> u32 \<Rightarrow> (string, u32) outcome" where
  "mcap_scan [] acc = Ok acc"
| "mcap_scan (cap # caps) acc =
     (case mcap_bit cap of
        Some b \<Rightarrow> mcap_scan caps (acc OR b)
      | None \<Rightarrow> Err ''unknown capability in manifest'')"

definition parse_mcaps :: "str \<Rightarrow> (string, u32) outcome" where
  "parse_mcaps manifest = mcap_scan (manifest_list manifest (lit ''caps'')) 0"

primrec mcap_render :: "(str \<times> u32) list \<Rightarrow> u32 \<Rightarrow> bool \<Rightarrow> str" where
  "mcap_render [] caps first = (if first then lit ''(none)'' else [])"
| "mcap_render (entry # table) caps first =
     (if caps AND snd entry \<noteq> 0
      then (if first then [] else lit '' '') @ fst entry @ mcap_render table caps False
      else mcap_render table caps first)"

definition mcap_names :: "u32 \<Rightarrow> str" where
  "mcap_names caps = mcap_render MCAP_TABLE caps True"

definition ir_caps_from :: "u32 \<Rightarrow> u32" where
  "ir_caps_from mcaps =
     (let c = 0;
          c = (if mcaps AND MCAP_PRINT \<noteq> 0 then c OR CAP_PRINT else c);
          c = (if mcaps AND MCAP_CAIRN_READ \<noteq> 0 then c OR CAP_READ else c) in
      if mcaps AND MCAP_CAIRN_WRITE \<noteq> 0 then c OR CAP_WRITE else c)"

definition task_caps_from :: "u32 \<Rightarrow> str \<Rightarrow> u64" where
  "task_caps_from mcaps name =
     (let c = 0;
          c = (if mcaps AND MCAP_PRINT \<noteq> 0 then c OR TASK_PRINT else c);
          c = (if mcaps AND MCAP_IPC \<noteq> 0 then c OR TASK_IPC else c);
          c = (if mcaps AND MCAP_UPTIME \<noteq> 0 then c OR TASK_TIME else c) in
      if mcaps AND (MCAP_CAIRN_READ OR MCAP_CAIRN_WRITE) \<noteq> 0
      then case cairn_ns_id name of Some ns \<Rightarrow> c OR task_ns_cap ns | None \<Rightarrow> c
      else c)"

definition app_cairn_ns :: "u32 \<Rightarrow> str \<Rightarrow> nat option" where
  "app_cairn_ns mcaps name =
     (if mcaps AND (MCAP_CAIRN_READ OR MCAP_CAIRN_WRITE) = 0 then None else cairn_ns_id name)"

definition cap_delta :: "u32 \<Rightarrow> u32 \<Rightarrow> u32 \<times> u32 \<times> u32" where
  "cap_delta old new = (new AND NOT old, old AND NOT new, old AND new)"

section \<open>What is granted\<close>

definition asks :: "str \<Rightarrow> string \<Rightarrow> bool" where
  "asks manifest cap \<longleftrightarrow> lit cap \<in> set (manifest_list manifest (lit ''caps''))"

lemma lit_inject [simp]: "lit s = lit t \<longleftrightarrow> s = t"
  by (simp add: lit_def inj_map_eq_map inj_def)

lemma bit_single: "bit (push_bit k 1 :: 'a::len word) n \<longleftrightarrow> n = k \<and> k < LENGTH('a)"
  by (auto simp: bit_exp_iff)

lemma cap_bits:
  "bit MCAP_PRINT n \<longleftrightarrow> n = 0" "bit MCAP_IPC n \<longleftrightarrow> n = 1" "bit MCAP_UPTIME n \<longleftrightarrow> n = 2"
  "bit MCAP_CAIRN_READ n \<longleftrightarrow> n = 3" "bit MCAP_CAIRN_WRITE n \<longleftrightarrow> n = 4"
  "bit TASK_PRINT n \<longleftrightarrow> n = 0" "bit TASK_TIME n \<longleftrightarrow> n = 1" "bit TASK_IPC n \<longleftrightarrow> n = 2"
  "bit (task_ns_cap ns) n \<longleftrightarrow> n = 8 + ns \<and> ns < 56"
  unfolding mcap_defs TASK_PRINT_def TASK_TIME_def TASK_IPC_def task_ns_cap_def NS_BASE_def bit_single by auto

lemma ir_cap_bits: "bit CAP_PRINT n \<longleftrightarrow> n = 0" "bit CAP_WRITE n \<longleftrightarrow> n = 1" "bit CAP_READ n \<longleftrightarrow> n = 2"
  using bit_single [of 0 n, where 'a = 32] bit_single [of 1 n, where 'a = 32] bit_single [of 2 n, where 'a = 32]
  by (simp_all add: CAP_PRINT_def CAP_WRITE_def CAP_READ_def)

lemma mcap_bit_iff:
  "(\<exists>b. mcap_bit cap = Some b \<and> bit b n) \<longleftrightarrow>
     cap = lit ''print'' \<and> n = 0 \<or> cap = lit ''ipc'' \<and> n = 1 \<or> cap = lit ''uptime'' \<and> n = 2 \<or>
     cap = lit ''cairn-read'' \<and> n = 3 \<or> cap = lit ''cairn-write'' \<and> n = 4"
  by (auto simp: mcap_bit_def MCAP_TABLE_def cap_bits)

lemma mcap_scan_Ok:
  "mcap_scan caps acc = Ok set' \<Longrightarrow> bit set' n \<longleftrightarrow> bit acc n \<or> (\<exists>c \<in> set caps. \<exists>b. mcap_bit c = Some b \<and> bit b n)"
  by (induction caps arbitrary: acc) (auto simp: bit_or_iff split: option.splits)

lemma parse_mcaps_bits:
  assumes "parse_mcaps manifest = Ok mcaps"
  shows "bit mcaps n \<longleftrightarrow> n = 0 \<and> asks manifest ''print'' \<or> n = 1 \<and> asks manifest ''ipc'' \<or> n = 2 \<and> asks manifest ''uptime'' \<or>
    n = 3 \<and> asks manifest ''cairn-read'' \<or> n = 4 \<and> asks manifest ''cairn-write''"
  using mcap_scan_Ok [OF assms [unfolded parse_mcaps_def], of n] unfolding mcap_bit_iff asks_def bit_0_eq bot_fun_def bot_bool_def
  by blast

lemma mcap_tests:
  "mcaps AND MCAP_PRINT \<noteq> 0 \<longleftrightarrow> bit mcaps 0" "mcaps AND MCAP_IPC \<noteq> 0 \<longleftrightarrow> bit mcaps 1"
  "mcaps AND MCAP_UPTIME \<noteq> 0 \<longleftrightarrow> bit mcaps 2" "mcaps AND MCAP_CAIRN_READ \<noteq> 0 \<longleftrightarrow> bit mcaps 3"
  "mcaps AND MCAP_CAIRN_WRITE \<noteq> 0 \<longleftrightarrow> bit mcaps 4"
  unfolding mcap_defs by (rule and_single_bit_ne_zero; simp)+

lemma mcap_cairn_test: "mcaps AND (MCAP_CAIRN_READ OR MCAP_CAIRN_WRITE) \<noteq> 0 \<longleftrightarrow> bit mcaps 3 \<or> bit mcaps 4"
proof -
  have "mcaps AND (MCAP_CAIRN_READ OR MCAP_CAIRN_WRITE) \<noteq> 0 \<longleftrightarrow> mcaps AND MCAP_CAIRN_READ \<noteq> 0 \<or> mcaps AND MCAP_CAIRN_WRITE \<noteq> 0"
    by (auto simp: word_and_eq_zero_iff bit_or_iff)
  then show ?thesis by (simp add: mcap_tests)
qed

lemma cairn_ns_id_less: "cairn_ns_id name = Some ns \<Longrightarrow> ns < 5 \<and> CAIRN_NS_NAMES ! ns = name"
  unfolding cairn_ns_id_def Let_def
  by (auto simp: CAIRN_NS_NAMES_def split: if_splits) 

lemma bit_granted: "bit (if p then c OR k else c) n \<longleftrightarrow> bit c n \<or> p \<and> bit k n"
  by (simp add: bit_or_iff)

lemma task_caps_bits:
  "bit (task_caps_from mcaps name) n \<longleftrightarrow>
     n = 0 \<and> bit mcaps 0 \<or> n = 2 \<and> bit mcaps 1 \<or> n = 1 \<and> bit mcaps 2 \<or>
     (\<exists>ns. n = 8 + ns \<and> cairn_ns_id name = Some ns \<and> (bit mcaps 3 \<or> bit mcaps 4))"
proof (cases "cairn_ns_id name")
  case None
  show ?thesis
    unfolding task_caps_from_def Let_def None option.case if_cancel bit_granted mcap_tests cap_bits bit_0_eq bot_fun_def bot_bool_def
    by blast
next
  case (Some ns)
  then have "ns < 56" using cairn_ns_id_less by fastforce
  then show ?thesis
    unfolding task_caps_from_def Let_def Some option.case bit_granted mcap_tests mcap_cairn_test cap_bits bit_0_eq bot_fun_def bot_bool_def
    by blast
qed

lemma ir_caps_bits:
  "bit (ir_caps_from mcaps) n \<longleftrightarrow> n = 0 \<and> bit mcaps 0 \<or> n = 1 \<and> bit mcaps 4 \<or> n = 2 \<and> bit mcaps 3"
  unfolding ir_caps_from_def Let_def bit_granted mcap_tests ir_cap_bits bit_0_eq bot_fun_def bot_bool_def by blast

section \<open>Properties\<close>

text \<open>
  C37. The authority of an installed app is exactly what its manifest lists: the print, time and
  message bits of its capability word, its bytecode capabilities, and the namespace bit of the
  namespace that bears its own name; a name with no namespace gets none.
\<close>

theorem granted_authority_exact:
  assumes "parse_mcaps manifest = Ok mcaps"
  shows "(bit (task_caps_from mcaps name) n \<longleftrightarrow>
      n = 0 \<and> asks manifest ''print'' \<or> n = 1 \<and> asks manifest ''uptime'' \<or> n = 2 \<and> asks manifest ''ipc'' \<or>
      (\<exists>ns. n = 8 + ns \<and> cairn_ns_id name = Some ns \<and> (asks manifest ''cairn-read'' \<or> asks manifest ''cairn-write''))) \<and>
    (bit (ir_caps_from mcaps) n \<longleftrightarrow>
      n = 0 \<and> asks manifest ''print'' \<or> n = 1 \<and> asks manifest ''cairn-write'' \<or> n = 2 \<and> asks manifest ''cairn-read'')"
  unfolding task_caps_bits ir_caps_bits parse_mcaps_bits [OF assms] by simp blast

definition sample_manifest :: str where
  "sample_manifest = lit ''name = '' @ [34] @ lit ''note'' @ [34, 10] @ lit ''caps = ['' @ [34] @ lit ''print'' @ [34] @
     lit '', '' @ [34] @ lit ''cairn-write'' @ [34] @ lit '']'' @ [10]"

lemma sample_caps: "manifest_list sample_manifest (lit ''caps'') = [lit ''print'', lit ''cairn-write'']"
  by (simp add: manifest_list_def sample_manifest_def lit_def str_lines.simps split_once_def strip_suffix_def strip_prefix_def
      trim_def trim_by_def is_whitespace_def manifest_items.simps)

theorem granted_authority_exact_witness:
  "parse_mcaps sample_manifest = Ok 0x11 \<and> bit (task_caps_from 0x11 (lit ''note'')) 8 \<and> \<not> bit (task_caps_from 0x11 (lit ''note'')) 9"
proof -
  have caps: "parse_mcaps sample_manifest = Ok 0x11"
    unfolding parse_mcaps_def sample_caps by (simp add: mcap_bit_def MCAP_TABLE_def mcap_defs)
  have "cairn_ns_id (lit ''note'') = Some 0" by (simp add: cairn_ns_id_def CAIRN_NS_NAMES_def)
  with granted_authority_exact [OF caps, of "lit ''note''" 8] granted_authority_exact [OF caps, of "lit ''note''" 9] caps
  show ?thesis by (simp add: asks_def sample_caps)
qed

end
