(* ===== verification/Signed_Install.thy ===== *)
theory Signed_Install
  imports Sig Mcap
begin

text \<open>
  The kernel's decision on a signed package (dezh-boot/src/pkg.rs, from the trust store to the
  attenuated grant of \<open>sig_demo\<close>) and the publisher's side of it (dezh-boot/build.rs). The
  embedded package and publisher key are generated by the build, and are arguments here; the
  signature check of the \<open>ed25519-compact\<close> crate is the argument \<open>ed\<close>.
\<close>

section \<open>The trust store\<close>

record TrustedKey =
  tk_used :: bool
  tk_pk :: "u8 list"
  tk_ceiling :: u32
  tk_revoked :: bool
  tk_label :: string

definition EMPTY_KEY :: TrustedKey where
  "EMPTY_KEY = \<lparr> tk_used = False, tk_pk = replicate 32 0, tk_ceiling = 0, tk_revoked = False, tk_label = [] \<rparr>"

definition MAX_TRUSTED_KEYS :: nat where "MAX_TRUSTED_KEYS = 4"

record trust =
  TRUST_STORE :: "TrustedKey list"
  TRUST_INIT :: bool

definition trust_statics :: trust where
  "trust_statics = \<lparr> TRUST_STORE = replicate MAX_TRUSTED_KEYS EMPTY_KEY, TRUST_INIT = False \<rparr>"

definition trust_init :: "u8 list \<Rightarrow> trust \<Rightarrow> trust" where
  "trust_init DEMO_SIGNER_PK t =
     (if TRUST_INIT t then t
      else t\<lparr> TRUST_STORE := (TRUST_STORE t)[0 := \<lparr> tk_used = True, tk_pk = DEMO_SIGNER_PK,
               tk_ceiling = MCAP_PRINT OR MCAP_CAIRN_READ OR MCAP_CAIRN_WRITE, tk_revoked = False,
               tk_label = ''demo-publisher'' \<rparr>],
             TRUST_INIT := True \<rparr>)"

definition trust_lookup :: "trust \<Rightarrow> u8 list \<Rightarrow> nat option" where
  "trust_lookup t pk = find (\<lambda>i. tk_used (TRUST_STORE t ! i) \<and> tk_pk (TRUST_STORE t ! i) = pk) [0..<MAX_TRUSTED_KEYS]"

section \<open>The signature over the package and the counter\<close>

text \<open>The scratch buffer holds the package, then the context that \<open>signed_context\<close> writes behind it.\<close>

definition verify_envelope_sig :: "ed25519 \<Rightarrow> u8 list \<Rightarrow> SignedEnvelope \<Rightarrow> bool" where
  "verify_envelope_sig ed env e =
     (if env_inner_offset e + env_inner_len e > length env then False
      else let inner = slice (env_inner_offset e) (env_inner_offset e + env_inner_len e) env;
               buf = replicate 2048 0 in
        if length inner + SIG_CONTEXT_LEN > length buf then False
        else let buf = splice buf 0 inner in
          case signed_context (drop (length inner) buf) (env_counter e) of
            None \<Rightarrow> False
          | Some (cn, rest) \<Rightarrow>
              sig_verify ed (env_signer_pk e) (env_signature e)
                (take (length inner + cn) (take (length inner) buf @ rest)))"

text \<open>What the publisher signs when the package is built.\<close>

definition publisher_message :: "u8 list \<Rightarrow> u64 \<Rightarrow> (unit, u8 list) outcome" where
  "publisher_message inner counter =
     (case signed_context (replicate SIG_CONTEXT_LEN 0) counter of
        None \<Rightarrow> Panic
      | Some (cn, ctx) \<Rightarrow> Ok (inner @ take cn ctx))"

section \<open>The decision\<close>

datatype sig_refusal = NotSigned | BadEnvelope EnvError | UntrustedSigner | RevokedSigner | BadSignature | BadInner DzpError

definition sig_demo_grant :: "ed25519 \<Rightarrow> u8 list \<Rightarrow> u8 list \<Rightarrow> trust \<Rightarrow> (sig_refusal, u32 \<times> u32) outcome" where
  "sig_demo_grant ed DEMO_SIGNER_PK env t =
     (let t = trust_init DEMO_SIGNER_PK t in
      if \<not> is_signed env then Err NotSigned
      else case parse_envelope env of
        Panic \<Rightarrow> Panic
      | Err er \<Rightarrow> Err (BadEnvelope er)
      | Ok e \<Rightarrow> (case trust_lookup t (env_signer_pk e) of
          None \<Rightarrow> Err UntrustedSigner
        | Some ki \<Rightarrow>
            if tk_revoked (TRUST_STORE t ! ki) then Err RevokedSigner
            else if \<not> verify_envelope_sig ed env e then Err BadSignature
            else case parse (env_inner env e) of
              Panic \<Rightarrow> Panic
            | Err er \<Rightarrow> Err (BadInner er)
            | Ok pkg \<Rightarrow>
                let requested = (case parse_mcaps (pkg_manifest pkg) of Ok caps \<Rightarrow> caps | _ \<Rightarrow> 0) in
                Ok (attenuate requested (tk_ceiling (TRUST_STORE t ! ki)),
                    beyond_ceiling requested (tk_ceiling (TRUST_STORE t ! ki)))))"

section \<open>What the signature covers\<close>

lemma signed_context_Some:
  "14 \<le> length out \<Longrightarrow> \<exists>rest. signed_context out counter = Some (14, SIG_MAGIC @ to_le 8 counter @ rest)"
  by (auto simp: signed_context_def SIG_CONTEXT_LEN_def SIG_MAGIC_def splice_def)

lemma publisher_message_eq: "publisher_message inner counter = Ok (inner @ SIG_MAGIC @ to_le 8 counter)"
proof -
  have "14 \<le> length (replicate SIG_CONTEXT_LEN (0 :: u8))" by (simp add: SIG_CONTEXT_LEN_def)
  from signed_context_Some [OF this, of counter] show ?thesis
    by (auto simp: publisher_message_def SIG_MAGIC_def)
qed

text \<open>No two packages, and no two counters of one package, give the publisher the same message.\<close>

lemma publisher_message_inject:
  "publisher_message inner counter = publisher_message inner' counter' \<longleftrightarrow> inner = inner' \<and> counter = counter'"
proof -
  have "to_le 8 counter = to_le 8 counter' \<longleftrightarrow> counter = counter'"
    by (auto dest: arg_cong [of _ _ "from_le :: u8 list \<Rightarrow> u64"] simp: from_le_to_le)
  then show ?thesis by (simp add: publisher_message_eq append_eq_append_conv)
qed

text \<open>The kernel checks the signature over exactly the message the publisher signs.\<close>

lemma verify_envelope_sig_iff:
  "verify_envelope_sig ed env e \<longleftrightarrow>
     env_inner_offset e + env_inner_len e \<le> length env \<and> env_inner_len e \<le> 2034 \<and>
     (\<exists>m. publisher_message (env_inner env e) (env_counter e) = Ok m \<and> ed (env_signer_pk e) m (env_signature e))"
proof (cases "env_inner_offset e + env_inner_len e \<le> length env \<and> env_inner_len e \<le> 2034")
  case True
  let ?inner = "slice (env_inner_offset e) (env_inner_offset e + env_inner_len e) env"
  have len: "length ?inner = env_inner_len e" using True by simp
  let ?buf = "splice (replicate 2048 0) 0 ?inner"
  have "14 \<le> length (drop (length ?inner) ?buf)" using conjunct2 [OF True] len by simp
  from signed_context_Some [OF this] obtain rest where
    ctx: "signed_context (drop (length ?inner) ?buf) (env_counter e) = Some (14, SIG_MAGIC @ to_le 8 (env_counter e) @ rest)" by blast
  have "take (length ?inner) ?buf = ?inner" by (simp add: splice_def)
  then show ?thesis using True ctx len
    by (simp add: verify_envelope_sig_def Let_def SIG_CONTEXT_LEN_def sig_verify_def env_inner_def publisher_message_eq SIG_MAGIC_def)
next
  case False
  then show ?thesis by (auto simp: verify_envelope_sig_def Let_def SIG_CONTEXT_LEN_def)
qed

lemma trust_lookup_Some:
  assumes "trust_lookup t pk = Some i"
  shows "i < MAX_TRUSTED_KEYS" "tk_used (TRUST_STORE t ! i)" "tk_pk (TRUST_STORE t ! i) = pk"
  using assms by (auto simp: trust_lookup_def find_Some_iff)

section \<open>Properties\<close>


text \<open>A publisher with the all-\<open>9\<close> key who has signed one package asking for print and messages.\<close>

definition demo_key :: "u8 list" where "demo_key = replicate 32 9"
definition demo_sig :: "u8 list" where "demo_sig = replicate 64 5"

definition demo_inner :: "u8 list" where
  "demo_inner = dzp_bytes KIND_DEZH_IR (lit ''caps = ['' @ [34] @ lit ''print'' @ [34] @ lit '', '' @ [34] @ lit ''ipc'' @ [34] @ lit '']'') [7]"

definition demo_env :: "u8 list" where "demo_env = env_bytes [0, 0] demo_key demo_sig 1 demo_inner"

definition demo_ed :: ed25519 where
  "demo_ed pk m sig \<longleftrightarrow> pk = demo_key \<and> sig = demo_sig \<and> publisher_message demo_inner 1 = Ok m"

lemma demo_granted: "sig_demo_grant demo_ed demo_key demo_env trust_statics = Ok (MCAP_PRINT, MCAP_IPC)"
proof -
  define man where "man = lit ''caps = ['' @ [34] @ lit ''print'' @ [34] @ lit '', '' @ [34] @ lit ''ipc'' @ [34] @ lit '']''"
  let ?p = "\<lparr> pkg_kind = KIND_DEZH_IR, pkg_manifest = man, pkg_payload = [7] \<rparr>"
  have "package_ok ?p" by (simp add: package_ok_def man_def valid_str_def scalar_def lit_def as_bytes_def utf8_char_def)
  from parse_dzp_bytes [OF this] have inner: "parse demo_inner = Ok ?p" by (simp add: demo_inner_def man_def)
  have len: "length demo_inner = 44" by (simp add: demo_inner_def length_dzp_bytes HEADER_LEN_def lit_def as_bytes_def utf8_char_def)
  have env: "parse_envelope demo_env = Ok (envelope_of demo_key demo_sig 1 demo_inner)"
    "env_inner demo_env (envelope_of demo_key demo_sig 1 demo_inner) = demo_inner"
    using parse_env_bytes [of "[0, 0]" demo_key demo_sig demo_inner 1] len by (simp_all add: demo_env_def demo_key_def demo_sig_def)
  have "length demo_env = 160" using length_env_bytes [of "[0, 0]" demo_key demo_sig 1 demo_inner] len
    by (simp add: demo_env_def demo_key_def demo_sig_def)
  then have ver: "verify_envelope_sig demo_ed demo_env (envelope_of demo_key demo_sig 1 demo_inner)"
    using len env(2) by (simp add: verify_envelope_sig_iff demo_ed_def) (simp add: envelope_of_def publisher_message_eq)
  have sgn: "is_signed demo_env" by (simp add: is_signed_def demo_env_def env_bytes_def ENV_MAGIC_def slice_def)
  have key: "trust_lookup (trust_init demo_key trust_statics) demo_key = Some 0"
    by (simp add: trust_lookup_def trust_init_def trust_statics_def MAX_TRUSTED_KEYS_def upt_conv_Cons)
  have "manifest_list man (lit ''caps'') = [lit ''print'', lit ''ipc'']"
    by (simp add: manifest_list_def man_def lit_def str_lines.simps split_once_def strip_suffix_def strip_prefix_def
      trim_def trim_by_def is_whitespace_def manifest_items.simps)
  then have "parse_mcaps man = Ok 3" by (simp add: parse_mcaps_def mcap_bit_def MCAP_TABLE_def mcap_defs)
  then show ?thesis
    using env sgn key ver inner
    by (simp add: sig_demo_grant_def Let_def envelope_of_def trust_init_def trust_statics_def MAX_TRUSTED_KEYS_def attenuate_def
        beyond_ceiling_def mcap_defs)
qed


end
