(* ===== verification/Vblk.thy ===== *)
theory Vblk
  imports Blk_Daemon
begin

text \<open>
  The path from the kernel console to the storage daemon: the helpers of \<open>dezh-boot/src/vblk.rs\<close>
  that stage a request in the shared window and read the answer back, and the client half of
  \<open>dezh-boot/virtio-blk/src/main.rs\<close>, the short-lived process that packs the request word, sends
  it and exits with the status of the reply. The daemon's side is \<open>daemon_step\<close>. Whether the
  service registry finds the daemon (\<open>up\<close>) and whether the client's send is accepted (\<open>sent\<close>)
  depends on the task table and is an argument; a client that cannot be launched at all is
  treated in the theory of the scheduler.
\<close>

unbundle bit_operations_syntax

section \<open>Constants\<close>

definition SYS_DENIED :: u64 where "SYS_DENIED = - 1"
definition FIRST_FOREGROUND_TASK :: nat where "FIRST_FOREGROUND_TASK = 1"
definition TEST_SECTOR :: u64 where "TEST_SECTOR = 8"

text \<open>The bits of a task's capability word, main.rs.\<close>

definition CLIENT_CAPS :: u64 where
  "CLIENT_CAPS = push_bit 0 1 OR push_bit 2 1 OR push_bit 4 1 OR push_bit 5 1"

section \<open>The shared window\<close>

definition prepare_virtio_input_bytes :: "u8 list \<Rightarrow> 'd blk \<Rightarrow> 'd blk" where
  "prepare_virtio_input_bytes bs s =
     (let n = min (length bs) 512 in
      s\<lparr> input := (\<lambda>i. if i < n then bs ! i else if i < 512 then 0 else input s i) \<rparr>)"

definition prepare_virtio_input :: "u8 list \<Rightarrow> 'd blk \<Rightarrow> nat \<times> 'd blk" where
  "prepare_virtio_input bs s =
     (let n = min (length bs) 511 in
      (n, s\<lparr> input := (\<lambda>i. if i < n then bs ! i else if i < 512 then 0 else input s i) \<rparr>))"

definition read_virtio_output_sector :: "nat \<Rightarrow> 'd blk \<Rightarrow> u8 list" where
  "read_virtio_output_sector len s = mem_read (data s) 0 (min len 512)"

section \<open>The client process\<close>

text \<open>Send, wait for the reply, return its status.\<close>

definition client_send ::
    "'d device \<Rightarrow> ('d blk \<Rightarrow> bool) \<Rightarrow> u64 \<Rightarrow> u64 \<Rightarrow> u64 \<Rightarrow> 'd blk \<Rightarrow> (u64 \<times> 'd blk) option" where
  "client_send dv sent caps op arg s =
     (if \<not> sent s then Some (IPC_STATUS_UNAVAILABLE, s)
      else map_option (\<lambda>((reply, _), s). (response_status reply, s))
        (daemon_step dv (request_word op arg) (of_nat FIRST_FOREGROUND_TASK) caps s))"

definition client_send_meta ::
    "'d device \<Rightarrow> ('d blk \<Rightarrow> bool) \<Rightarrow> u64 \<Rightarrow> u64 \<Rightarrow> u64 \<Rightarrow> u64 \<Rightarrow> u64 \<Rightarrow> 'd blk \<Rightarrow> (u64 \<times> 'd blk) option" where
  "client_send_meta dv sent caps op id_field status_field arg s =
     (if \<not> sent s then Some (IPC_STATUS_UNAVAILABLE, s)
      else map_option (\<lambda>((reply, _), s). (response_status reply, s))
        (daemon_step dv (typed_word op id_field status_field arg) (of_nat FIRST_FOREGROUND_TASK) caps s))"

definition cairn_arg :: "u64 \<Rightarrow> u64 \<Rightarrow> u64 \<Rightarrow> u64" where
  "cairn_arg base input_len req =
     (let cairn_ns = drop_bit 8 req AND 0xf; cairn_steps = drop_bit 12 req AND 0xfff in
      if base = REQ_CAIRN_COMMIT then push_bit 12 cairn_ns OR min input_len 0xfff
      else if base = REQ_CAIRN_ROLLBACK then push_bit 12 cairn_ns OR cairn_steps
      else push_bit 12 cairn_ns)"

definition sector_or_len :: "u64 \<Rightarrow> u64 \<Rightarrow> u64" where
  "sector_or_len input_len req =
     (if req = REQ_BWRITE \<or> req = REQ_BREAD then TEST_SECTOR
      else if req \<in> {REQ_PSET, REQ_NOTE_SET, REQ_LAB_SET, REQ_CALC_SET, REQ_VAULT_SET} then input_len
      else if req \<in> {REQ_PKG_REGISTRY_READ, REQ_PKG_REGISTRY_WRITE, REQ_PKG_BLOB_READ, REQ_PKG_BLOB_WRITE,
                     REQ_PKG_JOURNAL_READ, REQ_PKG_JOURNAL_WRITE} then input_len
      else 0)"

text \<open>The whole request, up to the exit code of the process.\<close>

definition client_request ::
    "'d device \<Rightarrow> ('d blk \<Rightarrow> bool) \<Rightarrow> u64 \<Rightarrow> u64 \<Rightarrow> u64 \<Rightarrow> 'd blk \<Rightarrow> (u64 \<times> 'd blk) option" where
  "client_request dv sent caps input_len req s =
     (let base = req AND 0xff; sand_intent = drop_bit 24 req AND 0xffff; sand_status_byte = drop_bit 40 req AND 0xff in
      if base \<ge> REQ_CAIRN_INIT \<and> base \<le> REQ_NS_GRANT then
        let arg = cairn_arg base input_len req in
        if base = REQ_CAIRN_COMMIT then client_send_meta dv sent caps base sand_intent sand_status_byte arg s
        else if base = REQ_SFAR_PLAN \<or> base = REQ_SFAR_ROLLBACK \<or> base = REQ_TBAR
        then client_send_meta dv sent caps base sand_intent 0 arg s
        else client_send dv sent caps base arg s
      else
        Option.bind (client_send dv sent caps req (sector_or_len input_len req) s) (\<lambda>(st, s).
          if req = REQ_PROLLBACK then map_option (\<lambda>(_, s). (st, s)) (client_send dv sent caps REQ_PGET 0 s)
          else Some (st, s)))"

section \<open>The console's calls\<close>

definition run_virtio_client_ns_raw ::
    "'d device \<Rightarrow> ('d blk \<Rightarrow> bool) \<Rightarrow> ('d blk \<Rightarrow> bool) \<Rightarrow> u64 \<Rightarrow> nat \<Rightarrow> u64 \<Rightarrow> 'd blk \<Rightarrow> (u64 \<times> 'd blk) option" where
  "run_virtio_client_ns_raw dv up sent req input_len extra_caps s =
     (if \<not> up s then Some (SYS_DENIED, s)
      else client_request dv sent (CLIENT_CAPS OR extra_caps) (of_nat input_len) req s)"

definition run_registered_virtio_client_ns ::
    "'d device \<Rightarrow> ('d blk \<Rightarrow> bool) \<Rightarrow> ('d blk \<Rightarrow> bool) \<Rightarrow> u64 \<Rightarrow> u8 list \<Rightarrow> u64 \<Rightarrow> 'd blk \<Rightarrow> (u64 \<times> 'd blk) option" where
  "run_registered_virtio_client_ns dv up sent req text extra_caps s =
     (let (n, s) = prepare_virtio_input text s in run_virtio_client_ns_raw dv up sent req n extra_caps s)"

definition run_registered_virtio_client_status ::
    "'d device \<Rightarrow> ('d blk \<Rightarrow> bool) \<Rightarrow> ('d blk \<Rightarrow> bool) \<Rightarrow> u64 \<Rightarrow> u8 list \<Rightarrow> 'd blk \<Rightarrow> (u64 \<times> 'd blk) option" where
  "run_registered_virtio_client_status dv up sent req text s =
     (if \<not> up s then Some (SYS_DENIED, s)
      else let (n, s) = prepare_virtio_input text s in
        client_request dv sent CLIENT_CAPS (of_nat n) req s)"

definition run_registered_virtio_sector_status ::
    "'d device \<Rightarrow> ('d blk \<Rightarrow> bool) \<Rightarrow> ('d blk \<Rightarrow> bool) \<Rightarrow> u64 \<Rightarrow> nat \<Rightarrow> u8 list option \<Rightarrow> 'd blk \<Rightarrow> (u64 \<times> 'd blk) option" where
  "run_registered_virtio_sector_status dv up sent req sector inp s =
     (if \<not> up s then Some (SYS_DENIED, s)
      else client_request dv sent CLIENT_CAPS (of_nat sector) req
        (case inp of None \<Rightarrow> s | Some bs \<Rightarrow> prepare_virtio_input_bytes bs s))"

section \<open>Package requests reach their region\<close>

lemma prepare_input_simps [simp]:
  "dev (prepare_virtio_input_bytes bs s) = dev s" "data (prepare_virtio_input_bytes bs s) = data s"
  by (simp_all add: prepare_virtio_input_bytes_def Let_def)

lemma request_word_fields:
  "request_proto (request_word op a) = IPC_PROTO_V1" "request_service (request_word op a) = IPC_SERVICE_VIRTIO_BLOCK"
  "request_op (request_word op a) = take_bit 8 op" "request_arg (request_word op a) = take_bit 16 a"
  by (simp_all add: request_word_def typed_word_proto typed_word_fields)

lemma response_status_reply: "response_status (reply_word w st) = take_bit 8 st"
  by (simp add: response_status_def reply_word_def typed_word_proto typed_word_fields)

definition pkg_reqs :: "u64 list" where
  "pkg_reqs = [REQ_PKG_STORE_INIT, REQ_PKG_REGISTRY_READ, REQ_PKG_REGISTRY_WRITE, REQ_PKG_BLOB_READ, REQ_PKG_BLOB_WRITE,
     REQ_PKG_JOURNAL_READ, REQ_PKG_JOURNAL_WRITE]"

definition pkg_arg :: "u64 \<Rightarrow> nat \<Rightarrow> u64" where
  "pkg_arg req sector = (if req = REQ_PKG_STORE_INIT then 0 else of_nat sector)"

lemma take_bit_sector: "sector < 65536 \<Longrightarrow> take_bit 16 (of_nat sector :: u64) = of_nat sector"
  by (simp add: take_bit_of_nat take_bit_nat_eq_self)

text \<open>A package request is answered by the package branch of the daemon, with its own sector.\<close>

lemma sector_status_pkg:
  assumes req: "req \<in> set pkg_reqs" and sector: "sector < 65536"
  shows "run_registered_virtio_sector_status dv up sent req sector inp s =
     (if \<not> up s then Some (SYS_DENIED, s)
      else let s' = (case inp of None \<Rightarrow> s | Some bs \<Rightarrow> prepare_virtio_input_bytes bs s) in
        if \<not> sent s' then Some (IPC_STATUS_UNAVAILABLE, s')
        else map_option (\<lambda>(st, s). (take_bit 8 st, s)) (pkg_request dv req (pkg_arg req sector) s'))"
proof -
  have fits: "take_bit 8 req = req"
    using req by (auto simp: pkg_reqs_def req_defs)
  then have base: "req AND 0xff = req" by (simp add: and_take_bit)
  have op: "\<not> (req \<ge> REQ_CAIRN_INIT \<and> req \<le> REQ_NS_GRANT)" "req \<noteq> REQ_PROLLBACK"
    using req by (auto simp: pkg_reqs_def req_defs)
  have sol: "take_bit 16 (sector_or_len (of_nat sector) req) = pkg_arg req sector"
    using req take_bit_sector [OF sector] by (auto simp: pkg_reqs_def sector_or_len_def pkg_arg_def req_defs)
  have block: "block_request dv req a s' = None" for a s'
    using req by (auto simp: pkg_reqs_def block_request_def req_defs)
  have pkg: "pkg_request dv req (pkg_arg req sector) s' \<noteq> None" for s'
    using req by (auto simp: pkg_reqs_def pkg_request_def req_defs Let_def split: prod.splits)
  let ?s = "case inp of None \<Rightarrow> s | Some bs \<Rightarrow> prepare_virtio_input_bytes bs s"
  have step: "daemon_step dv (request_word req (sector_or_len (of_nat sector) req)) frm caps s' =
      map_option (\<lambda>(st, s). ((reply_word (request_word req (sector_or_len (of_nat sector) req)) st, exit_code req), s))
        (pkg_request dv req (pkg_arg req sector) s')" for frm caps s'
    using pkg [of s'] by (auto simp: daemon_step_def request_word_fields dispatch_def block sol fits Let_def)
  show ?thesis
    unfolding run_registered_virtio_sector_status_def client_request_def base Let_def client_send_def step if_not_P [OF op(1)]
    using op(2) by (auto simp: response_status_reply option.map_comp comp_def split_beta split: option.splits
        intro!: option.map_cong)
qed

end
