(* ===== verification/Pkg_Store.thy ===== *)
theory Pkg_Store
  imports Vblk Base64 Mcap
begin

text \<open>
  The persistent package store of \<open>dezh-boot/src/pkg.rs\<close>: its layout on the disk, the entries
  of the registry, the transaction journal, and the sector loops that move them. Every sector
  goes through the block service; the locale \<open>sector_service\<close> states what the store relies on
  and the daemon's package requests are shown to provide it. The registry, the staging buffer,
  the arena and the journal image are byte memories, as in the source.
\<close>

unbundle bit_operations_syntax

section \<open>Layout\<close>

definition STAGE_SIZE :: nat where "STAGE_SIZE = 64 * 1024"
definition ARENA_SIZE :: nat where "ARENA_SIZE = 128 * 1024"
definition MAX_PKGS :: nat where "MAX_PKGS = 8"
definition NAME_MAX :: nat where "NAME_MAX = 24"
definition VER_MAX :: nat where "VER_MAX = 12"
definition ENTRY_SIZE :: nat where "ENTRY_SIZE = 128"
definition REGISTRY_SIZE :: nat where "REGISTRY_SIZE = 2 * 512"
definition JOURNAL_SECTORS :: nat where "JOURNAL_SECTORS = 8"
definition JOURNAL_SIZE :: nat where "JOURNAL_SIZE = 8 * 512"

definition STATE_EMPTY :: u8 where "STATE_EMPTY = 0"
definition STATE_ACTIVE :: u8 where "STATE_ACTIVE = 1"
definition STATE_REMOVED :: u8 where "STATE_REMOVED = 2"
definition STATE_CORRUPT :: u8 where "STATE_CORRUPT = 3"
definition STATE_PENDING_INSTALL :: u8 where "STATE_PENDING_INSTALL = 4"
definition STATE_PENDING_REMOVE :: u8 where "STATE_PENDING_REMOVE = 5"
definition STATE_QUARANTINED :: u8 where "STATE_QUARANTINED = 6"

definition PKG_MARKER_SECTOR :: nat where "PKG_MARKER_SECTOR = 24"
definition PKG_REGISTRY_SECTOR :: nat where "PKG_REGISTRY_SECTOR = 25"
definition PKG_REGISTRY_SECTORS_USED :: nat where "PKG_REGISTRY_SECTORS_USED = 2"
definition PKG_JOURNAL_SECTOR :: nat where "PKG_JOURNAL_SECTOR = 32"
definition PKG_ACTIVE_FIRST_SECTOR :: nat where "PKG_ACTIVE_FIRST_SECTOR = 64"
definition PKG_PREVIOUS_FIRST_SECTOR :: nat where "PKG_PREVIOUS_FIRST_SECTOR = 576"
definition PKG_STAGE_FIRST_SECTOR :: nat where "PKG_STAGE_FIRST_SECTOR = 1088"
definition PKG_SLOT_SECTORS :: nat where "PKG_SLOT_SECTORS = 64"
definition PKG_MAX_RAW_BYTES :: nat where "PKG_MAX_RAW_BYTES = 64 * 512"

definition REG_MAGIC :: "u8 list" where "REG_MAGIC = bytes ''DPKG''"
definition JOURNAL_MAGIC :: "u8 list" where "JOURNAL_MAGIC = bytes ''DPJ0''"
definition JOURNAL_VERSION :: u8 where "JOURNAL_VERSION = 1"
definition JOURNAL_OP_INSTALL :: u8 where "JOURNAL_OP_INSTALL = 1"
definition JOURNAL_OP_REMOVE :: u8 where "JOURNAL_OP_REMOVE = 2"
definition JOURNAL_OP_REPLACE :: u8 where "JOURNAL_OP_REPLACE = 3"
definition JOURNAL_OP_ROLLBACK :: u8 where "JOURNAL_OP_ROLLBACK = 4"
definition JOURNAL_PHASE_STARTED :: u8 where "JOURNAL_PHASE_STARTED = 1"
definition JOURNAL_PHASE_BLOB_WRITTEN :: u8 where "JOURNAL_PHASE_BLOB_WRITTEN = 2"
definition JOURNAL_PHASE_REGISTRY_PENDING :: u8 where "JOURNAL_PHASE_REGISTRY_PENDING = 3"

definition ENTRY_FLAG_PINNED :: u32 where "ENTRY_FLAG_PINNED = push_bit 0 1"
definition ENTRY_FLAG_PREVIOUS_VALID :: u32 where "ENTRY_FLAG_PREVIOUS_VALID = push_bit 1 1"

lemmas size_defs = STAGE_SIZE_def ARENA_SIZE_def MAX_PKGS_def NAME_MAX_def VER_MAX_def ENTRY_SIZE_def REGISTRY_SIZE_def
  JOURNAL_SECTORS_def JOURNAL_SIZE_def PKG_MARKER_SECTOR_def PKG_REGISTRY_SECTOR_def PKG_REGISTRY_SECTORS_USED_def
  PKG_JOURNAL_SECTOR_def PKG_ACTIVE_FIRST_SECTOR_def PKG_PREVIOUS_FIRST_SECTOR_def PKG_STAGE_FIRST_SECTOR_def
  PKG_SLOT_SECTORS_def PKG_MAX_RAW_BYTES_def
lemmas state_defs = STATE_EMPTY_def STATE_ACTIVE_def STATE_REMOVED_def STATE_CORRUPT_def STATE_PENDING_INSTALL_def
  STATE_PENDING_REMOVE_def STATE_QUARANTINED_def
lemmas journal_op_defs = JOURNAL_OP_INSTALL_def JOURNAL_OP_REMOVE_def JOURNAL_OP_REPLACE_def JOURNAL_OP_ROLLBACK_def
lemmas phase_defs = JOURNAL_PHASE_STARTED_def JOURNAL_PHASE_BLOB_WRITTEN_def JOURNAL_PHASE_REGISTRY_PENDING_def

definition slot_blob_sector :: "nat \<Rightarrow> nat" where
  "slot_blob_sector slot = PKG_ACTIVE_FIRST_SECTOR + slot * PKG_SLOT_SECTORS"

definition previous_blob_sector :: "nat \<Rightarrow> nat" where
  "previous_blob_sector slot = PKG_PREVIOUS_FIRST_SECTOR + slot * PKG_SLOT_SECTORS"

definition stage_blob_sector :: "nat \<Rightarrow> nat" where
  "stage_blob_sector slot = PKG_STAGE_FIRST_SECTOR + slot * PKG_SLOT_SECTORS"

lemmas sector_defs = slot_blob_sector_def previous_blob_sector_def stage_blob_sector_def

definition div_ceil :: "nat \<Rightarrow> nat \<Rightarrow> nat" where
  "div_ceil a b = (a + b - 1) div b"

definition put_u16 :: "nat \<Rightarrow> u16 \<Rightarrow> mem \<Rightarrow> mem" where
  "put_u16 off v m = mem_write m off (to_le 2 v)"

definition get_u16 :: "mem \<Rightarrow> nat \<Rightarrow> u16" where
  "get_u16 m off = from_le (mem_read m off 2)"

definition checksum :: "u8 list \<Rightarrow> u32" where
  "checksum buf = crc32 [buf]"

text \<open>\<open>[0u8; n]\<close> with the given bytes copied to its front; the callers keep them within \<open>n\<close>.\<close>

definition zero_padded :: "nat \<Rightarrow> u8 list \<Rightarrow> u8 list" where
  "zero_padded n bs = take n (bs @ replicate n 0)"

definition str_or :: "str \<Rightarrow> u8 list \<Rightarrow> str" where
  "str_or d bs = (case from_utf8 bs of None \<Rightarrow> d | Some s \<Rightarrow> s)"

definition str_len :: "str \<Rightarrow> nat" where
  "str_len s = length (as_bytes s)"

section \<open>Data\<close>

record PkgEntry =
  e_used :: bool
  e_slot :: u8
  e_name :: "u8 list"
  e_name_len :: u8
  e_version :: "u8 list"
  e_version_len :: u8
  e_kind :: u16
  e_mcaps :: u32
  e_raw_len :: u32
  e_raw_crc :: u32
  e_off :: u32
  e_len :: u32

definition EMPTY_PKG :: PkgEntry where
  "EMPTY_PKG = \<lparr> e_used = False, e_slot = 0, e_name = replicate 24 0, e_name_len = 0, e_version = replicate 12 0,
     e_version_len = 0, e_kind = 0, e_mcaps = 0, e_raw_len = 0, e_raw_crc = 0, e_off = 0, e_len = 0 \<rparr>"

record JournalRecord =
  j_op :: u8
  j_phase :: u8
  j_slot :: nat
  j_old_state :: u8
  j_new_state :: u8
  j_mcaps :: u32
  j_raw_len :: nat
  j_raw_crc :: u32
  j_blob_start :: nat
  j_blob_count :: nat
  j_registry_before_crc :: u32
  j_registry_after_crc :: u32
  j_name :: "u8 list"
  j_name_len :: u8
  j_version :: "u8 list"
  j_version_len :: u8

datatype JournalState = JournalEmpty | JournalValid JournalRecord | JournalCorrupt

definition pkg_entry_name :: "PkgEntry \<Rightarrow> str" where
  "pkg_entry_name e = str_or (lit ''<bad>'') (take (unat (e_name_len e)) (e_name e))"

definition pkg_entry_version :: "PkgEntry \<Rightarrow> str" where
  "pkg_entry_version e = str_or (lit ''<bad>'') (take (unat (e_version_len e)) (e_version e))"

definition journal_name :: "JournalRecord \<Rightarrow> str" where
  "journal_name r = str_or (lit ''<bad>'') (take (unat (j_name_len r)) (j_name r))"

definition journal_version :: "JournalRecord \<Rightarrow> str" where
  "journal_version r = str_or (lit ''<bad>'') (take (unat (j_version_len r)) (j_version r))"

section \<open>Registry entries\<close>

definition entry_state :: "mem \<Rightarrow> nat \<Rightarrow> u8" where
  "entry_state reg slot = reg (slot * ENTRY_SIZE)"

definition entry_name :: "mem \<Rightarrow> nat \<Rightarrow> str" where
  "entry_name reg slot =
     (let e = slot * ENTRY_SIZE; len = unat (reg (e + 32)) in
      if len = 0 \<or> len > NAME_MAX then [] else str_or [] (mem_read reg (e + 40) len))"

definition entry_version :: "mem \<Rightarrow> nat \<Rightarrow> str" where
  "entry_version reg slot =
     (let e = slot * ENTRY_SIZE; len = unat (reg (e + 33)) in
      if len = 0 \<or> len > VER_MAX then [] else str_or [] (mem_read reg (e + 40 + NAME_MAX) len))"

definition entry_flags :: "mem \<Rightarrow> nat \<Rightarrow> u32" where
  "entry_flags reg slot = get_u32 reg (slot * ENTRY_SIZE + 28)"

definition entry_is_pinned :: "mem \<Rightarrow> nat \<Rightarrow> bool" where
  "entry_is_pinned reg slot \<longleftrightarrow> entry_flags reg slot AND ENTRY_FLAG_PINNED \<noteq> 0"

definition entry_previous_valid :: "mem \<Rightarrow> nat \<Rightarrow> bool" where
  "entry_previous_valid reg slot \<longleftrightarrow> entry_flags reg slot AND ENTRY_FLAG_PREVIOUS_VALID \<noteq> 0"

definition entry_previous_version :: "mem \<Rightarrow> nat \<Rightarrow> str" where
  "entry_previous_version reg slot =
     (let e = slot * ENTRY_SIZE; len = unat (reg (e + 80)) in
      if len = 0 \<or> len > VER_MAX then [] else str_or [] (mem_read reg (e + 104) len))"

text \<open>The writers, on the registry image.\<close>

definition set_entry_flags :: "nat \<Rightarrow> u32 \<Rightarrow> mem \<Rightarrow> mem" where
  "set_entry_flags slot flags reg = put_u32 (slot * ENTRY_SIZE + 28) flags reg"

definition set_entry_state :: "nat \<Rightarrow> u8 \<Rightarrow> mem \<Rightarrow> mem" where
  "set_entry_state slot st reg = reg(slot * ENTRY_SIZE := st)"

definition clear_registry_slot :: "nat \<Rightarrow> mem \<Rightarrow> mem" where
  "clear_registry_slot slot reg = mem_write reg (slot * ENTRY_SIZE) (replicate ENTRY_SIZE 0)"

definition encode_registry_entry ::
    "nat \<Rightarrow> u8 \<Rightarrow> str \<Rightarrow> str \<Rightarrow> u16 \<Rightarrow> u32 \<Rightarrow> nat \<Rightarrow> u32 \<Rightarrow> mem \<Rightarrow> mem" where
  "encode_registry_entry slot st name version kind mcaps raw_len raw_crc reg =
     (let e = slot * ENTRY_SIZE;
          reg = mem_write reg e (replicate ENTRY_SIZE 0);
          reg = reg(e := st);
          reg = mem_write reg (e + 1) REG_MAGIC;
          reg = reg(e + 5 := of_nat slot);
          reg = put_u16 (e + 6) kind reg;
          reg = put_u32 (e + 8) mcaps reg;
          reg = put_u32 (e + 12) (of_nat raw_len) reg;
          reg = put_u32 (e + 16) raw_crc reg;
          reg = put_u32 (e + 20) (of_nat (slot_blob_sector slot)) reg;
          reg = put_u32 (e + 24) (of_nat PKG_SLOT_SECTORS) reg;
          reg = reg(e + 32 := of_nat (str_len name));
          reg = reg(e + 33 := of_nat (str_len version));
          reg = mem_write reg (e + 40) (as_bytes name)
      in mem_write reg (e + 40 + NAME_MAX) (as_bytes version))"

definition encode_previous_metadata ::
    "nat \<Rightarrow> str \<Rightarrow> u16 \<Rightarrow> u32 \<Rightarrow> nat \<Rightarrow> u32 \<Rightarrow> mem \<Rightarrow> mem" where
  "encode_previous_metadata slot version kind mcaps raw_len raw_crc reg =
     (let e = slot * ENTRY_SIZE;
          flags = get_u32 reg (e + 28) OR ENTRY_FLAG_PREVIOUS_VALID;
          reg = put_u32 (e + 28) flags reg;
          reg = reg(e + 80 := of_nat (str_len version));
          reg = put_u16 (e + 82) kind reg;
          reg = put_u32 (e + 84) mcaps reg;
          reg = put_u32 (e + 88) (of_nat raw_len) reg;
          reg = put_u32 (e + 92) raw_crc reg;
          reg = put_u32 (e + 96) (of_nat (previous_blob_sector slot)) reg;
          reg = put_u32 (e + 100) (of_nat PKG_SLOT_SECTORS) reg;
          reg = mem_write reg (e + 104) (replicate VER_MAX 0)
      in mem_write reg (e + 104) (as_bytes version))"

text \<open>The slot of a name: its own, else the first removed one, else the first empty one.\<close>

fun first_slot :: "(nat \<Rightarrow> bool) \<Rightarrow> nat list \<Rightarrow> nat option" where
  "first_slot p [] = None"
| "first_slot p (k # ks) = (if p k then Some k else first_slot p ks)"

definition registry_slot_for :: "str \<Rightarrow> mem \<Rightarrow> nat option" where
  "registry_slot_for name reg =
     (case first_slot (\<lambda>k. entry_state reg k \<noteq> STATE_EMPTY \<and> entry_name reg k = name) [0..<MAX_PKGS] of
        Some k \<Rightarrow> Some k
      | None \<Rightarrow> (case first_slot (\<lambda>k. entry_state reg k = STATE_REMOVED) [0..<MAX_PKGS] of
          Some k \<Rightarrow> Some k
        | None \<Rightarrow> first_slot (\<lambda>k. entry_state reg k = STATE_EMPTY) [0..<MAX_PKGS]))"

definition find_registry_slot :: "str \<Rightarrow> mem \<Rightarrow> nat option" where
  "find_registry_slot name reg = first_slot (\<lambda>k. entry_state reg k \<noteq> STATE_EMPTY \<and> entry_name reg k = name) [0..<MAX_PKGS]"

definition find_runtime_pkg :: "str \<Rightarrow> PkgEntry list \<Rightarrow> nat option" where
  "find_runtime_pkg name ps = first_slot (\<lambda>k. e_used (ps ! k) \<and> pkg_entry_name (ps ! k) = name) [0..<MAX_PKGS]"

definition quarantine_pending_slots :: "mem \<Rightarrow> mem" where
  "quarantine_pending_slots reg =
     fold (\<lambda>slot reg. if entry_state reg slot = STATE_PENDING_INSTALL \<or> entry_state reg slot = STATE_PENDING_REMOVE
                      then set_entry_state slot STATE_QUARANTINED reg else reg) [0..<MAX_PKGS] reg"

section \<open>The journal\<close>

definition journal_body :: "JournalRecord \<Rightarrow> mem" where
  "journal_body rec =
     (let raw = (\<lambda>_. 0);
          raw = mem_write raw 0 JOURNAL_MAGIC;
          raw = raw(4 := JOURNAL_VERSION);
          raw = raw(5 := j_op rec);
          raw = raw(6 := j_phase rec);
          raw = put_u32 8 1 raw;
          raw = put_u32 12 (of_nat (j_slot rec)) raw;
          raw = raw(16 := j_old_state rec);
          raw = raw(17 := j_new_state rec);
          raw = put_u32 24 (j_mcaps rec) raw;
          raw = put_u32 28 (of_nat (j_raw_len rec)) raw;
          raw = put_u32 32 (j_raw_crc rec) raw;
          raw = put_u32 36 (of_nat (j_blob_start rec)) raw;
          raw = put_u32 40 (of_nat (j_blob_count rec)) raw;
          raw = put_u32 44 (j_registry_before_crc rec) raw;
          raw = put_u32 48 (j_registry_after_crc rec) raw;
          raw = raw(56 := j_name_len rec);
          raw = raw(57 := j_version_len rec);
          raw = mem_write raw 64 (take (unat (j_name_len rec)) (j_name rec))
      in mem_write raw 88 (take (unat (j_version_len rec)) (j_version rec)))"

definition journal_image :: "JournalRecord \<Rightarrow> mem" where
  "journal_image rec = put_u32 52 (checksum (mem_read (journal_body rec) 0 JOURNAL_SIZE)) (journal_body rec)"

definition decode_journal :: "mem \<Rightarrow> JournalState" where
  "decode_journal raw =
     (if list_all (\<lambda>b. b = 0) (mem_read raw 0 JOURNAL_SIZE) then JournalEmpty
      else if mem_read raw 0 4 \<noteq> JOURNAL_MAGIC then JournalCorrupt
      else if raw 4 \<noteq> JOURNAL_VERSION then JournalCorrupt
      else let stored = get_u32 raw 52; tmp = put_u32 52 0 raw in
        if checksum (mem_read tmp 0 JOURNAL_SIZE) \<noteq> stored then JournalCorrupt
        else let slot = unat (get_u32 raw 12); name_len = unat (raw 56); version_len = unat (raw 57) in
          if slot \<ge> MAX_PKGS \<or> name_len > NAME_MAX \<or> version_len > VER_MAX then JournalCorrupt
          else JournalValid \<lparr> j_op = raw 5, j_phase = raw 6, j_slot = slot, j_old_state = raw 16, j_new_state = raw 17,
            j_mcaps = get_u32 raw 24, j_raw_len = unat (get_u32 raw 28), j_raw_crc = get_u32 raw 32,
            j_blob_start = unat (get_u32 raw 36), j_blob_count = unat (get_u32 raw 40),
            j_registry_before_crc = get_u32 raw 44, j_registry_after_crc = get_u32 raw 48,
            j_name = zero_padded NAME_MAX (mem_read raw 64 name_len), j_name_len = of_nat name_len,
            j_version = zero_padded VER_MAX (mem_read raw 88 version_len), j_version_len = of_nat version_len \<rparr>)"

definition journal_record ::
    "u8 \<Rightarrow> u8 \<Rightarrow> nat \<Rightarrow> u8 \<Rightarrow> u8 \<Rightarrow> str \<Rightarrow> str \<Rightarrow> u32 \<Rightarrow> nat \<Rightarrow> u32 \<Rightarrow> u32 \<Rightarrow> u32 \<Rightarrow> JournalRecord" where
  "journal_record opr phase slot old_state new_state name version mcaps raw_len raw_crc before_crc after_crc =
     \<lparr> j_op = opr, j_phase = phase, j_slot = slot, j_old_state = old_state, j_new_state = new_state, j_mcaps = mcaps,
       j_raw_len = raw_len, j_raw_crc = raw_crc, j_blob_start = slot_blob_sector slot, j_blob_count = div_ceil raw_len 512,
       j_registry_before_crc = before_crc, j_registry_after_crc = after_crc,
       j_name = zero_padded NAME_MAX (as_bytes name), j_name_len = of_nat (str_len name),
       j_version = zero_padded VER_MAX (as_bytes version), j_version_len = of_nat (str_len version) \<rparr>"

section \<open>Moving sectors\<close>

text \<open>
  The block service as the store sees it: a request with its sector and, for a write, the bytes
  to stage, answered by a status; and the window a read leaves its sector in.
\<close>

record 'd vblk =
  vb_status :: "u64 \<Rightarrow> nat \<Rightarrow> u8 list option \<Rightarrow> 'd \<Rightarrow> u64 \<times> 'd"
  vb_output :: "'d \<Rightarrow> u8 list"

text \<open>
  The statics of the module and the state behind the service. \<open>uart\<close> is what the serial line
  still has to deliver and \<open>SKIP_LF_AFTER_CR\<close> the console's flag.
\<close>

record 'd pkgs =
  port :: 'd
  REGISTRY :: mem
  STAGE :: mem
  ARENA :: mem
  ARENA_USED :: nat
  PKGS :: "PkgEntry list"
  STORE_LOADED :: bool
  STORE_DEGRADED :: bool
  uart :: "u8 list"
  SKIP_LF_AFTER_CR :: bool

definition read_sector :: "'d vblk \<Rightarrow> u64 \<Rightarrow> nat \<Rightarrow> 'd pkgs \<Rightarrow> u8 list option \<times> 'd pkgs" where
  "read_sector vb req sector s =
     (let (st, p) = vb_status vb req sector None (port s); s = s\<lparr> port := p \<rparr> in
      if st \<noteq> IPC_STATUS_OK then (None, s) else (Some (vb_output vb p), s))"

definition write_sector :: "'d vblk \<Rightarrow> u64 \<Rightarrow> nat \<Rightarrow> u8 list \<Rightarrow> 'd pkgs \<Rightarrow> bool \<times> 'd pkgs" where
  "write_sector vb req sector bs s =
     (let (st, p) = vb_status vb req sector (Some bs) (port s) in (st = IPC_STATUS_OK, s\<lparr> port := p \<rparr>))"

text \<open>The read loop: the bytes read before the first failure, and whether there was none.\<close>

fun read_run :: "'d vblk \<Rightarrow> u64 \<Rightarrow> nat \<Rightarrow> nat \<Rightarrow> 'd pkgs \<Rightarrow> bool \<times> u8 list \<times> 'd pkgs" where
  "read_run vb req base 0 s = (True, [], s)"
| "read_run vb req base (Suc n) s =
     (case read_sector vb req base s of
        (None, s) \<Rightarrow> (False, [], s)
      | (Some bs, s) \<Rightarrow> (let (ok, rest, s) = read_run vb req (Suc base) n s in (ok, bs @ rest, s)))"

fun write_run :: "'d vblk \<Rightarrow> u64 \<Rightarrow> nat \<Rightarrow> u8 list list \<Rightarrow> 'd pkgs \<Rightarrow> bool \<times> 'd pkgs" where
  "write_run vb req base [] s = (True, s)"
| "write_run vb req base (c # cs) s =
     (let (ok, s) = write_sector vb req base c s in
      if \<not> ok then (False, s) else write_run vb req (Suc base) cs s)"

function sector_chunks :: "u8 list \<Rightarrow> u8 list list" where
  "sector_chunks bs = (if bs = [] then [] else take 512 bs # sector_chunks (drop 512 bs))"
  by pat_completeness auto
termination by (relation "measure length") auto

declare sector_chunks.simps [simp del]

definition mem_of :: "u8 list \<Rightarrow> mem" where
  "mem_of bs = (\<lambda>i. if i < length bs then bs ! i else 0)"

definition read_registry :: "'d vblk \<Rightarrow> 'd pkgs \<Rightarrow> bool \<times> 'd pkgs" where
  "read_registry vb s =
     (let (ok, bs, s) = read_run vb REQ_PKG_REGISTRY_READ PKG_REGISTRY_SECTOR PKG_REGISTRY_SECTORS_USED s in
      if \<not> ok then (False, s) else (True, s\<lparr> REGISTRY := mem_of bs \<rparr>))"

definition write_registry :: "'d vblk \<Rightarrow> 'd pkgs \<Rightarrow> bool \<times> 'd pkgs" where
  "write_registry vb s =
     write_run vb REQ_PKG_REGISTRY_WRITE PKG_REGISTRY_SECTOR (sector_chunks (mem_read (REGISTRY s) 0 REGISTRY_SIZE)) s"

definition init_store_marker :: "'d vblk \<Rightarrow> 'd pkgs \<Rightarrow> bool \<times> 'd pkgs" where
  "init_store_marker vb s =
     (let (st, p) = vb_status vb REQ_PKG_STORE_INIT PKG_MARKER_SECTOR None (port s) in
      (st = IPC_STATUS_OK, s\<lparr> port := p \<rparr>))"

definition read_journal_raw :: "'d vblk \<Rightarrow> 'd pkgs \<Rightarrow> mem option \<times> 'd pkgs" where
  "read_journal_raw vb s =
     (let (ok, bs, s) = read_run vb REQ_PKG_JOURNAL_READ PKG_JOURNAL_SECTOR JOURNAL_SECTORS s in
      (if ok then Some (mem_of bs) else None, s))"

definition write_journal_raw :: "'d vblk \<Rightarrow> mem \<Rightarrow> 'd pkgs \<Rightarrow> bool \<times> 'd pkgs" where
  "write_journal_raw vb raw s =
     write_run vb REQ_PKG_JOURNAL_WRITE PKG_JOURNAL_SECTOR (sector_chunks (mem_read raw 0 JOURNAL_SIZE)) s"

definition clear_journal :: "'d vblk \<Rightarrow> 'd pkgs \<Rightarrow> bool \<times> 'd pkgs" where
  "clear_journal vb s = write_journal_raw vb (\<lambda>_. 0) s"

definition write_journal :: "'d vblk \<Rightarrow> JournalRecord \<Rightarrow> 'd pkgs \<Rightarrow> bool \<times> 'd pkgs" where
  "write_journal vb rec s = write_journal_raw vb (journal_image rec) s"

definition write_blob_at :: "'d vblk \<Rightarrow> nat \<Rightarrow> u8 list \<Rightarrow> 'd pkgs \<Rightarrow> bool \<times> 'd pkgs" where
  "write_blob_at vb base raw s = write_run vb REQ_PKG_BLOB_WRITE base (sector_chunks raw) s"

definition write_blob :: "'d vblk \<Rightarrow> nat \<Rightarrow> u8 list \<Rightarrow> 'd pkgs \<Rightarrow> bool \<times> 'd pkgs" where
  "write_blob vb slot raw s = write_blob_at vb (slot_blob_sector slot) raw s"

definition write_stage_blob :: "'d vblk \<Rightarrow> nat \<Rightarrow> u8 list \<Rightarrow> 'd pkgs \<Rightarrow> bool \<times> 'd pkgs" where
  "write_stage_blob vb slot raw s = write_blob_at vb (stage_blob_sector slot) raw s"

definition zero_blob_area :: "'d vblk \<Rightarrow> nat \<Rightarrow> 'd pkgs \<Rightarrow> bool \<times> 'd pkgs" where
  "zero_blob_area vb base s = write_run vb REQ_PKG_BLOB_WRITE base (replicate PKG_SLOT_SECTORS (replicate 512 0)) s"

definition zero_blob_slot :: "'d vblk \<Rightarrow> nat \<Rightarrow> 'd pkgs \<Rightarrow> bool \<times> 'd pkgs" where
  "zero_blob_slot vb slot s = zero_blob_area vb (slot_blob_sector slot) s"

definition read_blob_area_into_stage :: "'d vblk \<Rightarrow> nat \<Rightarrow> nat \<Rightarrow> 'd pkgs \<Rightarrow> bool \<times> 'd pkgs" where
  "read_blob_area_into_stage vb base raw_len s =
     (if raw_len > STAGE_SIZE \<or> raw_len > PKG_MAX_RAW_BYTES then (False, s)
      else let (ok, bs, s) = read_run vb REQ_PKG_BLOB_READ base (div_ceil raw_len 512) s in
        (ok, s\<lparr> STAGE := mem_write (STAGE s) 0 (take raw_len bs) \<rparr>))"

definition read_blob_into_stage :: "'d vblk \<Rightarrow> nat \<Rightarrow> nat \<Rightarrow> 'd pkgs \<Rightarrow> bool \<times> 'd pkgs" where
  "read_blob_into_stage vb slot raw_len s = read_blob_area_into_stage vb (slot_blob_sector slot) raw_len s"

definition read_previous_blob_into_stage :: "'d vblk \<Rightarrow> nat \<Rightarrow> nat \<Rightarrow> 'd pkgs \<Rightarrow> bool \<times> 'd pkgs" where
  "read_previous_blob_into_stage vb slot raw_len s = read_blob_area_into_stage vb (previous_blob_sector slot) raw_len s"

definition copy_blob_area :: "'d vblk \<Rightarrow> nat \<Rightarrow> nat \<Rightarrow> nat \<Rightarrow> 'd pkgs \<Rightarrow> bool \<times> 'd pkgs" where
  "copy_blob_area vb from_sector to_sector raw_len s =
     (if raw_len = 0 \<or> raw_len > PKG_MAX_RAW_BYTES then (False, s)
      else let (ok, s) = read_blob_area_into_stage vb from_sector raw_len s in
        if \<not> ok then (False, s) else write_blob_at vb to_sector (mem_read (STAGE s) 0 raw_len) s)"

section \<open>What the store relies on\<close>

definition pkg_read_ok :: "u64 \<Rightarrow> nat \<Rightarrow> bool" where
  "pkg_read_ok req sec \<longleftrightarrow> req = REQ_PKG_REGISTRY_READ \<and> 25 \<le> sec \<and> sec \<le> 31 \<or>
     req = REQ_PKG_JOURNAL_READ \<and> 32 \<le> sec \<and> sec \<le> 39 \<or> req = REQ_PKG_BLOB_READ \<and> 64 \<le> sec \<and> sec \<le> 1599"

definition pkg_write_ok :: "u64 \<Rightarrow> nat \<Rightarrow> bool" where
  "pkg_write_ok req sec \<longleftrightarrow> req = REQ_PKG_REGISTRY_WRITE \<and> 25 \<le> sec \<and> sec \<le> 31 \<or>
     req = REQ_PKG_JOURNAL_WRITE \<and> 32 \<le> sec \<and> sec \<le> 39 \<or> req = REQ_PKG_BLOB_WRITE \<and> 64 \<le> sec \<and> sec \<le> 1599"

text \<open>
  \<open>content\<close> is what the sectors hold. A read changes nothing and leaves the sector in the window
  when it reports success; a write that reports success has stored its bytes, padded with zeros,
  and a write that reports a failure has either happened or not; neither touches another sector.
\<close>

locale sector_service =
  fixes vb :: "'d vblk" and content :: "'d \<Rightarrow> nat \<Rightarrow> u8 list"
  assumes sector_length: "length (content p sec) = 512"
    and read_law: "pkg_read_ok req sec \<Longrightarrow> vb_status vb req sec None p = (st, p') \<Longrightarrow>
      content p' = content p \<and> (st = IPC_STATUS_OK \<longrightarrow> vb_output vb p' = content p sec)"
    and write_law: "pkg_write_ok req sec \<Longrightarrow> length bs \<le> 512 \<Longrightarrow> vb_status vb req sec (Some bs) p = (st, p') \<Longrightarrow>
      content p' = (content p)(sec := zero_padded 512 bs) \<or> st \<noteq> IPC_STATUS_OK \<and> content p' = content p"
    and marker_law: "vb_status vb REQ_PKG_STORE_INIT PKG_MARKER_SECTOR None p = (st, p') \<Longrightarrow>
      \<exists>m. length m = 512 \<and> content p' = (content p)(PKG_MARKER_SECTOR := m)"
begin
end

text \<open>A service that never refuses a well-placed request.\<close>

locale reliable_service = sector_service +
  assumes reads_answered: "pkg_read_ok req sec \<Longrightarrow> fst (vb_status vb req sec None p) = IPC_STATUS_OK"
    and writes_answered: "pkg_write_ok req sec \<Longrightarrow> length bs \<le> 512 \<Longrightarrow>
      fst (vb_status vb req sec (Some bs) p) = IPC_STATUS_OK"
    and marker_answered: "fst (vb_status vb REQ_PKG_STORE_INIT PKG_MARKER_SECTOR None p) = IPC_STATUS_OK"
begin
end

lemma length_zero_padded [simp]: "length (zero_padded n bs) = n"
  by (simp add: zero_padded_def)

lemma zero_padded_full: "length bs = n \<Longrightarrow> zero_padded n bs = bs"
  by (simp add: zero_padded_def)

lemma nth_zero_padded: "i < n \<Longrightarrow> zero_padded n bs ! i = (if i < length bs then bs ! i else 0)"
  by (simp add: zero_padded_def nth_append)

section \<open>The sector loops\<close>

definition overwrite :: "(nat \<Rightarrow> u8 list) \<Rightarrow> nat \<Rightarrow> u8 list list \<Rightarrow> nat \<Rightarrow> u8 list" where
  "overwrite D base cs = (\<lambda>sec. if base \<le> sec \<and> sec < base + length cs then zero_padded 512 (cs ! (sec - base)) else D sec)"

lemma overwrite_Nil [simp]: "overwrite D base [] = D"
  by (rule ext) (auto simp: overwrite_def)

lemma overwrite_Cons: "overwrite (D(base := zero_padded 512 c)) (Suc base) cs = overwrite D base (c # cs)"
  by (rule ext) (auto simp: overwrite_def nth_Cons')

context sector_service
begin

lemma write_run_spec:
  assumes "write_run vb req base cs s = (ok, s')"
    and "\<forall>i < length cs. pkg_write_ok req (base + i)" and "\<forall>c \<in> set cs. length c \<le> 512"
  shows "\<exists>p k. s' = s\<lparr> port := p \<rparr> \<and> k \<le> length cs \<and> content p = overwrite (content (port s)) base (take k cs) \<and>
    (ok \<longrightarrow> k = length cs)"
  using assms
proof (induction cs arbitrary: base s)
  case Nil
  then show ?case by (auto intro!: exI [of _ "port s"])
next
  case (Cons c cs)
  obtain st p where w: "vb_status vb req base (Some c) (port s) = (st, p)" by fastforce
  have law: "content p = (content (port s))(base := zero_padded 512 c) \<or> st \<noteq> IPC_STATUS_OK \<and> content p = content (port s)"
    by (rule write_law [OF _ _ w]) (use Cons.prems(2,3) in \<open>auto dest: spec [of _ 0]\<close>)
  have rest: "\<forall>i < length cs. pkg_write_ok req (Suc base + i)" "\<forall>c \<in> set cs. length c \<le> 512"
    using Cons.prems(2,3) by (auto dest: spec [of _ "Suc _"])
  show ?case
  proof (cases "st = IPC_STATUS_OK")
    case False
    then have res: "s' = s\<lparr> port := p \<rparr>" "\<not> ok" using Cons.prems(1) w by (auto simp: write_sector_def)
    have "overwrite (content (port s)) base (take 1 (c # cs)) = (content (port s))(base := zero_padded 512 c)"
      using overwrite_Cons [of _ base c "[]"] by simp
    then have "content p = overwrite (content (port s)) base (take 1 (c # cs)) \<or>
        content p = overwrite (content (port s)) base (take 0 (c # cs))"
      using law by auto
    then show ?thesis
    proof
      assume "content p = overwrite (content (port s)) base (take 1 (c # cs))"
      then show ?thesis using res by (intro exI [of _ p] exI [of _ 1]) simp
    next
      assume "content p = overwrite (content (port s)) base (take 0 (c # cs))"
      then show ?thesis using res by (intro exI [of _ p] exI [of _ 0]) simp
    qed
  next
    case True
    then have "write_run vb req (Suc base) cs (s\<lparr> port := p \<rparr>) = (ok, s')"
      using Cons.prems(1) w by (simp add: write_sector_def)
    from Cons.IH [OF this rest] obtain q k where "s' = s\<lparr> port := q \<rparr>" "k \<le> length cs" "ok \<longrightarrow> k = length cs"
      "content q = overwrite (content p) (Suc base) (take k cs)"
      by auto
    moreover have "content p = (content (port s))(base := zero_padded 512 c)" using law True by simp
    ultimately show ?thesis
      using overwrite_Cons [of "content (port s)" base c "take k cs"] by (intro exI [of _ q] exI [of _ "Suc k"]) simp
  qed
qed

lemma read_run_spec:
  assumes "read_run vb req base n s = (ok, bs, s')" and "\<forall>i < n. pkg_read_ok req (base + i)"
  shows "\<exists>p. s' = s\<lparr> port := p \<rparr> \<and> content p = content (port s) \<and>
    (ok \<longrightarrow> bs = concat (map (content (port s)) [base..<base + n]))"
  using assms
proof (induction n arbitrary: base s bs)
  case 0
  then show ?case by (auto intro!: exI [of _ "port s"])
next
  case (Suc n)
  obtain st p where r: "vb_status vb req base None (port s) = (st, p)" by fastforce
  have law: "content p = content (port s) \<and> (st = IPC_STATUS_OK \<longrightarrow> vb_output vb p = content (port s) base)"
    by (rule read_law [OF _ r]) (use Suc.prems(2) in \<open>auto dest: spec [of _ 0]\<close>)
  have rest: "\<forall>i < n. pkg_read_ok req (Suc base + i)"
    using Suc.prems(2) by (auto dest: spec [of _ "Suc _"])
  show ?case
  proof (cases "st = IPC_STATUS_OK")
    case False
    then show ?thesis using Suc.prems(1) r law by (auto simp: read_sector_def)
  next
    case True
    then obtain tl where run: "read_run vb req (Suc base) n (s\<lparr> port := p \<rparr>) = (ok, tl, s')"
      and bs: "bs = vb_output vb p @ tl"
      using Suc.prems(1) r by (auto simp: read_sector_def split: prod.splits)
    from Suc.IH [OF run rest] obtain q where "s' = s\<lparr> port := q \<rparr>" "content q = content p"
      "ok \<longrightarrow> tl = concat (map (content p) [Suc base..<Suc base + n])"
      by auto
    then show ?thesis using bs law True
      by (auto intro!: exI [of _ q] simp: upt_rec [of base] simp del: upt_Suc)
  qed
qed

end

section \<open>Sectors and bytes\<close>

lemma sector_chunks_Nil [simp]: "sector_chunks [] = []"
  by (simp add: sector_chunks.simps)

lemma sector_chunks_step: "bs \<noteq> [] \<Longrightarrow> sector_chunks bs = take 512 bs # sector_chunks (drop 512 bs)"
  by (subst sector_chunks.simps) simp

lemma sector_chunks_bounds: "c \<in> set (sector_chunks bs) \<Longrightarrow> length c \<le> 512"
proof (induction bs rule: sector_chunks.induct)
  case (1 bs)
  then show ?case using sector_chunks_step [of bs] by (cases "bs = []") auto
qed

lemma div_ceil_step: "0 < n \<Longrightarrow> div_ceil n 512 = Suc (div_ceil (n - 512) 512)"
proof -
  assume "0 < n"
  then have "n + 511 = (n - 512 + 511) + 512 \<or> n \<le> 512 \<and> 0 < n" by linarith
  then show ?thesis by (auto simp: div_ceil_def div_nat_eqI)
qed

lemma div_ceil_0 [simp]: "div_ceil 0 512 = 0"
  by (simp add: div_ceil_def)

lemma length_sector_chunks: "length (sector_chunks bs) = div_ceil (length bs) 512"
proof (induction bs rule: sector_chunks.induct)
  case (1 bs)
  then show ?case using sector_chunks_step [of bs] div_ceil_step [of "length bs"] by (cases "bs = []") auto
qed

lemma concat_sector_chunks: "take (length bs) (concat (map (zero_padded 512) (sector_chunks bs))) = bs"
proof (induction bs rule: sector_chunks.induct)
  case (1 bs)
  show ?case
  proof (cases "bs = []")
    case False
    note step = sector_chunks_step [OF False] and IH = 1 [OF False]
    show ?thesis
    proof (cases "length bs \<le> 512")
      case True
      then show ?thesis by (simp add: step zero_padded_def)
    next
      case big: False
      then have "zero_padded 512 (take 512 bs) = take 512 bs" by (simp add: zero_padded_full)
      with big IH show ?thesis by (simp add: step)
    qed
  qed simp
qed

end
