(* ===== verification/Pkg_Disk.thy ===== *)
theory Pkg_Disk
  imports Pkg_Store
begin

text \<open>
  What the package store's loops do to the disk, in terms of three views of it: the registry,
  the journal and a blob area. Each effect lemma says which states of the disk a loop can stop
  in, whatever requests fail: the registry and the journal change in one step, because only one
  of their sectors differs, and a blob area may be left half written.
\<close>

unbundle bit_operations_syntax

type_synonym disk = "nat \<Rightarrow> u8 list"

section \<open>Views\<close>

definition reg_of :: "disk \<Rightarrow> mem" where
  "reg_of D = mem_of (D 25 @ D 26)"

definition journal_of :: "disk \<Rightarrow> mem" where
  "journal_of D = mem_of (concat (map D [32..<40]))"

definition blob_of :: "disk \<Rightarrow> nat \<Rightarrow> nat \<Rightarrow> u8 list" where
  "blob_of D base n = take n (concat (map D [base..<base + div_ceil n 512]))"

definition set_reg :: "mem \<Rightarrow> disk \<Rightarrow> disk" where
  "set_reg m D = D(25 := mem_read m 0 512, 26 := mem_read m 512 512)"

definition set_journal :: "mem \<Rightarrow> disk \<Rightarrow> disk" where
  "set_journal m D = D(32 := mem_read m 0 512)"

definition disk_ok :: "disk \<Rightarrow> bool" where
  "disk_ok D \<longleftrightarrow> (\<forall>sec. length (D sec) = 512)"

text \<open>Only the first journal sector is ever used.\<close>

definition journal_tail_zero :: "disk \<Rightarrow> bool" where
  "journal_tail_zero D \<longleftrightarrow> (\<forall>sec. 33 \<le> sec \<and> sec < 40 \<longrightarrow> D sec = replicate 512 0)"

definition blob_area :: "nat \<Rightarrow> nat set" where
  "blob_area base = {base..<base + 64}"

lemma disk_ok_set [simp]: "disk_ok D \<Longrightarrow> disk_ok (set_reg m D)" "disk_ok D \<Longrightarrow> disk_ok (set_journal m D)"
  by (simp_all add: disk_ok_def set_reg_def set_journal_def)

lemma mem_of_read: "mem_of (mem_read m 0 n) = (\<lambda>i. if i < n then m i else 0)"
  by (auto simp: mem_of_def)

lemma mem_read_append: "mem_read m a b @ mem_read m (a + b) c = mem_read m a (b + c)"
  by (rule nth_equalityI) (auto simp: nth_append)

lemma mem_read_mem_of: "length bs = n \<Longrightarrow> mem_read (mem_of bs) 0 n = bs"
  by (rule nth_equalityI) (auto simp: mem_of_def)

lemma reg_of_set_reg [simp]: "reg_of (set_reg m D) = (\<lambda>i. if i < 1024 then m i else 0)"
  using mem_read_append [of m 0 512 512] by (simp add: reg_of_def set_reg_def mem_of_read)

lemma reg_of_set_journal [simp]: "reg_of (set_journal m D) = reg_of D"
  by (simp add: reg_of_def set_journal_def)

lemma journal_of_set_reg [simp]: "journal_of (set_reg m D) = journal_of D"
  by (simp add: journal_of_def set_reg_def upt_rec)

lemma reg_of_outside: "disk_ok D \<Longrightarrow> 1024 \<le> i \<Longrightarrow> reg_of D i = 0"
  by (simp add: reg_of_def mem_of_def disk_ok_def)

lemma set_reg_same: "disk_ok D \<Longrightarrow> (\<And>i. i < 1024 \<Longrightarrow> m i = reg_of D i) \<Longrightarrow> set_reg m D = D"
  by (auto simp: set_reg_def reg_of_def mem_of_def disk_ok_def nth_append fun_eq_iff intro!: nth_equalityI)

lemma reg_of_cong: "D 25 = D' 25 \<Longrightarrow> D 26 = D' 26 \<Longrightarrow> reg_of D = reg_of D'"
  by (simp add: reg_of_def)

lemma journal_of_cong: "(\<And>sec. 32 \<le> sec \<Longrightarrow> sec < 40 \<Longrightarrow> D sec = D' sec) \<Longrightarrow> journal_of D = journal_of D'"
  unfolding journal_of_def by (intro arg_cong [of _ _ mem_of] arg_cong [of _ _ concat] map_cong) auto

lemma blob_of_cong:
  "(\<And>sec. base \<le> sec \<Longrightarrow> sec < base + div_ceil n 512 \<Longrightarrow> D sec = D' sec) \<Longrightarrow> blob_of D base n = blob_of D' base n"
  unfolding blob_of_def by (intro arg_cong [of _ _ "take n"] arg_cong [of _ _ concat] map_cong) auto

lemma div_ceil_slot: "n \<le> PKG_MAX_RAW_BYTES \<Longrightarrow> div_ceil n 512 \<le> 64"
  by (simp add: div_ceil_def PKG_MAX_RAW_BYTES_def div_le_mono [of _ "64 * 512 + 511" 512, simplified])

lemma length_blob_of: "disk_ok D \<Longrightarrow> length (blob_of D base n) = n"
proof -
  assume "disk_ok D"
  then have "length (concat (map D [a..<a + k])) = k * 512" for a k
    by (induction k) (auto simp: disk_ok_def)
  moreover have "n \<le> div_ceil n 512 * 512" unfolding div_ceil_def by (simp add: div_mult_mod_eq [symmetric])
  ultimately show ?thesis by (simp add: blob_of_def)
qed

section \<open>The journal image survives the disk\<close>

lemma journal_of_set_journal:
  assumes "journal_tail_zero D" and "\<And>i. 512 \<le> i \<Longrightarrow> m i = 0"
  shows "journal_of (set_journal m D) = m"
proof -
  have "[32..<40] = [32, 33, 34, 35, 36, 37, 38, 39 :: nat]" by (simp add: upt_rec)
  then have "concat (map (set_journal m D) [32..<40]) = mem_read m 0 512 @ replicate 3584 0"
    using assms(1) by (simp add: set_journal_def journal_tail_zero_def replicate_add [symmetric])
  then show ?thesis using assms(2) by (auto simp: journal_of_def mem_of_def nth_append fun_eq_iff)
qed

lemma decode_journal_zero [simp]: "decode_journal (\<lambda>_. 0) = JournalEmpty"
  by (auto simp: decode_journal_def list_all_iff mem_read_def)

lemma get_put_u16_other: "off + 2 \<le> off' \<or> off' + 4 \<le> off \<Longrightarrow> get_u32 (put_u16 off v m) off' = get_u32 m off'"
  by (simp add: get_u32_def put_u16_def mem_read_write_other)

definition journal_fits :: "JournalRecord \<Rightarrow> bool" where
  "journal_fits r \<longleftrightarrow> j_slot r < MAX_PKGS \<and> unat (j_name_len r) \<le> NAME_MAX \<and> unat (j_version_len r) \<le> VER_MAX \<and>
     j_raw_len r < 2 ^ 32 \<and> j_blob_start r < 2 ^ 32 \<and> j_blob_count r < 2 ^ 32 \<and>
     (\<exists>n. j_name r = zero_padded NAME_MAX n \<and> length n = unat (j_name_len r)) \<and>
     (\<exists>v. j_version r = zero_padded VER_MAX v \<and> length v = unat (j_version_len r))"

lemma take_zero_padded: "length bs \<le> n \<Longrightarrow> take (length bs) (zero_padded n bs) = bs"
  by (simp add: zero_padded_def)

lemma length_magics [simp]: "length JOURNAL_MAGIC = 4" "length REG_MAGIC = 4"
  by (simp_all add: JOURNAL_MAGIC_def REG_MAGIC_def)

lemma journal_body_simps:
  assumes "journal_fits r"
  shows "journal_body r 4 = JOURNAL_VERSION" "journal_body r 5 = j_op r" "journal_body r 6 = j_phase r"
    "journal_body r 16 = j_old_state r" "journal_body r 17 = j_new_state r"
    "journal_body r 56 = j_name_len r" "journal_body r 57 = j_version_len r"
    "get_u32 (journal_body r) 12 = of_nat (j_slot r)" "get_u32 (journal_body r) 24 = j_mcaps r"
    "get_u32 (journal_body r) 28 = of_nat (j_raw_len r)" "get_u32 (journal_body r) 32 = j_raw_crc r"
    "get_u32 (journal_body r) 36 = of_nat (j_blob_start r)" "get_u32 (journal_body r) 40 = of_nat (j_blob_count r)"
    "get_u32 (journal_body r) 44 = j_registry_before_crc r" "get_u32 (journal_body r) 48 = j_registry_after_crc r"
    "get_u32 (journal_body r) 52 = 0"
  unfolding journal_body_def Let_def
  by (simp_all add: mem_write_outside get_u32_zero)

lemma journal_body_magic: "mem_read (journal_body r) 0 4 = JOURNAL_MAGIC"
  unfolding journal_body_def Let_def by (intro nth_equalityI) (auto simp: mem_write_outside put_u32_outside mem_write_def)

lemma journal_body_text:
  assumes "journal_fits r"
  shows "zero_padded NAME_MAX (mem_read (journal_body r) 64 (unat (j_name_len r))) = j_name r"
    "zero_padded VER_MAX (mem_read (journal_body r) 88 (unat (j_version_len r))) = j_version r"
proof -
  obtain n v where n: "j_name r = zero_padded NAME_MAX n" "length n = unat (j_name_len r)" "length n \<le> 24"
    and v: "j_version r = zero_padded VER_MAX v" "length v = unat (j_version_len r)" "length v \<le> 12"
    using assms by (auto simp: journal_fits_def size_defs)
  have "mem_read (journal_body r) 64 (length n) = n" "mem_read (journal_body r) 88 (length v) = v"
    using n v take_zero_padded [of n 24] take_zero_padded [of v 12] unfolding journal_body_def Let_def
    by (simp_all add: mem_read_write_same mem_read_write_other size_defs)
  then show "zero_padded NAME_MAX (mem_read (journal_body r) 64 (unat (j_name_len r))) = j_name r"
    "zero_padded VER_MAX (mem_read (journal_body r) 88 (unat (j_version_len r))) = j_version r"
    using n v by simp_all
qed

lemma journal_image_tail:
  assumes "journal_fits r" and "512 \<le> i"
  shows "journal_image r i = 0"
proof -
  have "unat (j_name_len r) \<le> 24" "unat (j_version_len r) \<le> 12"
    using assms(1) by (auto simp: journal_fits_def size_defs)
  then show ?thesis using assms(2) unfolding journal_image_def journal_body_def Let_def
    by (simp add: mem_write_outside JOURNAL_MAGIC_def)
qed

text \<open>Reading back a record that was written gives that record.\<close>

lemma decode_journal_image:
  assumes fits: "journal_fits r"
  shows "decode_journal (journal_image r) = JournalValid r"
proof -
  let ?b = "journal_body r" and ?i = "journal_image r"
  have keep: "?i k = ?b k" if "k < 52 \<or> 56 \<le> k" for k using that by (simp add: journal_image_def)
  have word: "get_u32 ?i k = get_u32 ?b k" if "k + 4 \<le> 52" for k using that by (simp add: journal_image_def)
  have magic: "mem_read ?i 0 4 = JOURNAL_MAGIC"
    using journal_body_magic by (simp add: journal_image_def)
  have "?i 0 \<noteq> 0" using magic by (auto simp: mem_read_def JOURNAL_MAGIC_def bytes_def upt_rec)
  then have nonzero: "\<not> list_all (\<lambda>b. b = 0) (mem_read ?i 0 JOURNAL_SIZE)"
    by (auto simp: list_all_iff mem_read_def JOURNAL_SIZE_def intro!: bexI [of _ 0])
  have "put_u32 52 0 ?i = put_u32 52 0 ?b"
    by (rule ext) (simp add: journal_image_def put_u32_def mem_write_def)
  then have tmp: "put_u32 52 0 ?i = ?b" using journal_body_simps(16) [OF fits] put_get_u32 [of 52 ?b] by simp
  have strs: "mem_read ?i 64 n = mem_read ?b 64 n" "mem_read ?i 88 n = mem_read ?b 88 n" for n
    by (auto simp: mem_read_def keep)
  have nums: "unat (of_nat (j_slot r) :: u32) = j_slot r" "unat (of_nat (j_raw_len r) :: u32) = j_raw_len r"
    "unat (of_nat (j_blob_start r) :: u32) = j_blob_start r" "unat (of_nat (j_blob_count r) :: u32) = j_blob_count r"
    using fits by (auto simp: journal_fits_def size_defs intro!: unat_of_nat_small)
  have crc: "get_u32 ?i 52 = checksum (mem_read ?b 0 JOURNAL_SIZE)" by (simp add: journal_image_def)
  have "decode_journal ?i = JournalValid \<lparr> j_op = j_op r, j_phase = j_phase r, j_slot = j_slot r, j_old_state = j_old_state r,
      j_new_state = j_new_state r, j_mcaps = j_mcaps r, j_raw_len = j_raw_len r, j_raw_crc = j_raw_crc r,
      j_blob_start = j_blob_start r, j_blob_count = j_blob_count r, j_registry_before_crc = j_registry_before_crc r,
      j_registry_after_crc = j_registry_after_crc r, j_name = j_name r, j_name_len = j_name_len r, j_version = j_version r,
      j_version_len = j_version_len r \<rparr>"
    using fits journal_body_text [OF fits] unfolding decode_journal_def Let_def
    by (simp add: nonzero magic tmp crc keep word strs journal_body_simps [OF fits] nums journal_fits_def)
  then show ?thesis by simp
qed

section \<open>Effects\<close>

lemma sector_chunks_cat:
  "length a = 512 \<Longrightarrow> sector_chunks (a @ bs) = a # sector_chunks bs"
  using sector_chunks_step [of "a @ bs"] by (cases a) auto

lemma registry_chunks: "sector_chunks (mem_read m 0 REGISTRY_SIZE) = [mem_read m 0 512, mem_read m 512 512]"
  using mem_read_append [of m 0 512 512] sector_chunks_cat [of "mem_read m 0 512" "mem_read m 512 512"]
    sector_chunks_cat [of "mem_read m 512 512" "[]"]
  by (simp add: REGISTRY_SIZE_def)

lemma journal_chunks:
  assumes "\<And>i. 512 \<le> i \<Longrightarrow> m i = 0"
  shows "sector_chunks (mem_read m 0 JOURNAL_SIZE) = mem_read m 0 512 # replicate 7 (replicate 512 0)"
proof -
  have zeros: "sector_chunks (replicate (n * 512) 0) = replicate n (replicate 512 0)" for n
    by (induction n) (simp_all add: replicate_add sector_chunks_cat)
  have "mem_read m 512 3584 = replicate (7 * 512) 0"
    by (rule nth_equalityI) (auto simp: assms)
  then show ?thesis
    using mem_read_append [of m 0 512 3584] sector_chunks_cat [of "mem_read m 0 512" "mem_read m 512 3584"] zeros [of 7]
    by (simp add: JOURNAL_SIZE_def)
qed

context sector_service
begin

lemma disk_ok_content [simp]: "disk_ok (content p)"
  by (simp add: disk_ok_def sector_length)

lemma write_registry_effect:
  assumes run: "write_registry vb s = (ok, s')" and slot: "slot < 8"
    and agree: "\<And>i. i < 1024 \<Longrightarrow> i div 128 \<noteq> slot \<Longrightarrow> REGISTRY s i = reg_of (content (port s)) i"
  shows "\<exists>p. s' = s\<lparr> port := p \<rparr> \<and> (content p = content (port s) \<or> content p = set_reg (REGISTRY s) (content (port s))) \<and>
    (ok \<longrightarrow> content p = set_reg (REGISTRY s) (content (port s)))"
proof -
  let ?D = "content (port s)" and ?a = "mem_read (REGISTRY s) 0 512" and ?b = "mem_read (REGISTRY s) 512 512"
  have "\<forall>i < length [?a, ?b]. pkg_write_ok REQ_PKG_REGISTRY_WRITE (25 + i)" "\<forall>c \<in> set [?a, ?b]. length c \<le> 512"
    by (auto simp: pkg_write_ok_def)
  from write_run_spec [OF run [unfolded write_registry_def registry_chunks PKG_REGISTRY_SECTOR_def] this]
  obtain p k where s': "s' = s\<lparr> port := p \<rparr>" and k': "k \<le> length [?a, ?b]" "ok \<longrightarrow> k = length [?a, ?b]"
    and p: "content p = overwrite ?D 25 (take k [?a, ?b])" by blast
  have k: "k \<le> 2" "ok \<longrightarrow> k = 2" using k' by simp_all
  have len: "length (?D sec) = 512" for sec by (rule sector_length)
  have part: "slot \<ge> 4 \<Longrightarrow> ?a = ?D 25" "slot < 4 \<Longrightarrow> ?b = ?D 26"
    using agree len by (auto intro!: nth_equalityI simp: reg_of_def mem_of_def nth_append)
  have "overwrite ?D 25 [?a] = ?D(25 := ?a)" "overwrite ?D 25 [?a, ?b] = set_reg (REGISTRY s) ?D"
    using overwrite_Cons [of ?D 25 ?a "[]"] overwrite_Cons [of ?D 25 ?a "[?b]"] overwrite_Cons [of "?D(25 := ?a)" 26 ?b "[]"]
    by (simp_all add: zero_padded_full set_reg_def)
  moreover have "?D(25 := ?a) = (if slot \<ge> 4 then ?D else set_reg (REGISTRY s) ?D)"
    using part by (auto simp: set_reg_def)
  moreover have "k = 0 \<or> k = 1 \<or> k = 2" using k by auto
  ultimately show ?thesis using s' p k by (intro exI [of _ p]) (auto split: if_splits)
qed

lemma write_journal_raw_effect:
  assumes run: "write_journal_raw vb m s = (ok, s')" and tail: "journal_tail_zero (content (port s))"
    and m: "\<And>i. 512 \<le> i \<Longrightarrow> m i = 0"
  shows "\<exists>p. s' = s\<lparr> port := p \<rparr> \<and> (content p = content (port s) \<or> content p = set_journal m (content (port s))) \<and>
    (ok \<longrightarrow> content p = set_journal m (content (port s)))"
proof -
  let ?D = "content (port s)" and ?a = "mem_read m 0 512" and ?z = "replicate 7 (replicate 512 (0 :: u8))"
  have chunks: "sector_chunks (mem_read m 0 JOURNAL_SIZE) = ?a # ?z" using m by (rule journal_chunks)
  have "\<forall>i < length (?a # ?z). pkg_write_ok REQ_PKG_JOURNAL_WRITE (32 + i)" "\<forall>c \<in> set (?a # ?z). length c \<le> 512"
    by (auto simp: pkg_write_ok_def)
  from write_run_spec [OF run [unfolded write_journal_raw_def chunks PKG_JOURNAL_SECTOR_def] this]
  obtain p k where s': "s' = s\<lparr> port := p \<rparr>" and k': "k \<le> length (?a # ?z)" "ok \<longrightarrow> k = length (?a # ?z)"
    and p: "content p = overwrite ?D 32 (take k (?a # ?z))" by blast
  have k: "k \<le> 8" "ok \<longrightarrow> k = 8" using k' by simp_all
  have "overwrite ?D 32 (take (Suc n) (?a # ?z)) = set_journal m ?D" if "n \<le> 7" for n
  proof (rule ext)
    fix sec
    show "overwrite ?D 32 (take (Suc n) (?a # ?z)) sec = set_journal m ?D sec"
      using tail that by (auto simp: overwrite_def set_journal_def journal_tail_zero_def zero_padded_full nth_Cons' min_def)
  qed
  then have "k = 0 \<and> content p = ?D \<or> k \<noteq> 0 \<and> content p = set_journal m ?D"
    using p k by (cases k) auto
  then show ?thesis using s' k by (intro exI [of _ p]) auto
qed

lemma write_blob_at_effect:
  assumes run: "write_blob_at vb base raw s = (ok, s')" and base: "64 \<le> base" "base + div_ceil (length raw) 512 \<le> 1600"
  shows "\<exists>p. s' = s\<lparr> port := p \<rparr> \<and>
    (\<forall>sec. sec < base \<or> base + div_ceil (length raw) 512 \<le> sec \<longrightarrow> content p sec = content (port s) sec) \<and>
    (ok \<longrightarrow> blob_of (content p) base (length raw) = raw)"
proof -
  let ?D = "content (port s)" and ?n = "div_ceil (length raw) 512"
  have len: "length (sector_chunks raw) = ?n" by (rule length_sector_chunks)
  have "\<forall>i < length (sector_chunks raw). pkg_write_ok REQ_PKG_BLOB_WRITE (base + i)"
    using base len by (auto simp: pkg_write_ok_def)
  with write_run_spec [OF run [unfolded write_blob_at_def]] sector_chunks_bounds
  obtain p k where s': "s' = s\<lparr> port := p \<rparr>" and k: "k \<le> ?n" "ok \<longrightarrow> k = ?n"
    and p: "content p = overwrite ?D base (take k (sector_chunks raw))" using len by metis
  have out: "\<forall>sec. sec < base \<or> base + ?n \<le> sec \<longrightarrow> content p sec = ?D sec"
    using k len unfolding p overwrite_def by auto
  have "map (content p) [base..<base + ?n] = map (zero_padded 512) (sector_chunks raw)" if ok
    using k len that unfolding p overwrite_def by (auto intro!: nth_equalityI)
  then have "ok \<longrightarrow> blob_of (content p) base (length raw) = raw"
    using concat_sector_chunks [of raw] by (simp add: blob_of_def)
  with s' out show ?thesis by blast
qed

lemma zero_blob_area_effect:
  assumes run: "zero_blob_area vb base s = (ok, s')" and base: "64 \<le> base" "base + 64 \<le> 1600"
  shows "\<exists>p. s' = s\<lparr> port := p \<rparr> \<and> (\<forall>sec. sec < base \<or> base + 64 \<le> sec \<longrightarrow> content p sec = content (port s) sec)"
proof -
  have "\<forall>i < length (replicate 64 (replicate 512 (0 :: u8))). pkg_write_ok REQ_PKG_BLOB_WRITE (base + i)"
    "\<forall>c \<in> set (replicate 64 (replicate 512 (0 :: u8))). length c \<le> 512"
    using base by (auto simp: pkg_write_ok_def)
  from write_run_spec [OF run [unfolded zero_blob_area_def PKG_SLOT_SECTORS_def] this]
  obtain p k where "s' = s\<lparr> port := p \<rparr>" "k \<le> length (replicate 64 (replicate 512 (0 :: u8)))"
    "content p = overwrite (content (port s)) base (take k (replicate 64 (replicate 512 0)))" by blast
  then show ?thesis by (intro exI [of _ p]) (auto simp: overwrite_def)
qed

lemma init_store_marker_effect:
  assumes "init_store_marker vb s = (ok, s')"
  shows "\<exists>p m. s' = s\<lparr> port := p \<rparr> \<and> length m = 512 \<and> content p = (content (port s))(24 := m)"
  using assms marker_law by (fastforce simp: init_store_marker_def PKG_MARKER_SECTOR_def split: prod.splits)

lemma read_registry_effect:
  assumes "read_registry vb s = (ok, s')"
  shows "\<exists>p. content p = content (port s) \<and>
    s' = (if ok then s\<lparr> port := p, REGISTRY := reg_of (content (port s)) \<rparr> else s\<lparr> port := p \<rparr>)"
proof -
  obtain ok' bs q where run: "read_run vb REQ_PKG_REGISTRY_READ 25 2 s = (ok', bs, q)" by (metis prod_cases3)
  have "\<forall>i < 2. pkg_read_ok REQ_PKG_REGISTRY_READ (25 + i)" by (auto simp: pkg_read_ok_def)
  from read_run_spec [OF run this] obtain p where "q = s\<lparr> port := p \<rparr>" "content p = content (port s)"
    "ok' \<longrightarrow> bs = content (port s) 25 @ content (port s) 26" by (auto simp: upt_rec)
  with assms run show ?thesis
    by (intro exI [of _ p]) (auto simp: read_registry_def size_defs reg_of_def split: if_splits)
qed

lemma read_journal_effect:
  assumes "read_journal_raw vb s = (m, s')"
  shows "\<exists>p. s' = s\<lparr> port := p \<rparr> \<and> content p = content (port s) \<and> (m = None \<or> m = Some (journal_of (content (port s))))"
proof -
  obtain ok bs q where run: "read_run vb REQ_PKG_JOURNAL_READ 32 8 s = (ok, bs, q)" by (metis prod_cases3)
  have "\<forall>i < 8. pkg_read_ok REQ_PKG_JOURNAL_READ (32 + i)" by (auto simp: pkg_read_ok_def)
  from read_run_spec [OF run this] obtain p where "q = s\<lparr> port := p \<rparr>" "content p = content (port s)"
    "ok \<longrightarrow> bs = concat (map (content (port s)) [32..<40])" by auto
  with assms run show ?thesis by (auto simp: read_journal_raw_def size_defs journal_of_def split: if_splits)
qed

lemma read_blob_effect:
  assumes run: "read_blob_area_into_stage vb base n s = (ok, s')" and base: "64 \<le> base" "base + 64 \<le> 1600"
  shows "\<exists>p st. s' = s\<lparr> port := p, STAGE := st \<rparr> \<and> content p = content (port s) \<and>
    (ok \<longrightarrow> n \<le> PKG_MAX_RAW_BYTES \<and> mem_read st 0 n = blob_of (content (port s)) base n)"
proof (cases "n > STAGE_SIZE \<or> n > PKG_MAX_RAW_BYTES")
  case True
  then show ?thesis using run
    by (intro exI [of _ "port s"] exI [of _ "STAGE s"]) (auto simp: read_blob_area_into_stage_def)
next
  case False
  obtain ok' bs q where rd: "read_run vb REQ_PKG_BLOB_READ base (div_ceil n 512) s = (ok', bs, q)" by (metis prod_cases3)
  have "div_ceil n 512 \<le> 64" using False by (simp add: div_ceil_slot)
  then have "\<forall>i < div_ceil n 512. pkg_read_ok REQ_PKG_BLOB_READ (base + i)" using base by (auto simp: pkg_read_ok_def)
  from read_run_spec [OF rd this] obtain p where q: "q = s\<lparr> port := p \<rparr>" "content p = content (port s)"
    "ok' \<longrightarrow> take n bs = blob_of (content (port s)) base n" by (auto simp: blob_of_def)
  have "length (blob_of (content (port s)) base n) = n" by (simp add: length_blob_of)
  with q False run rd show ?thesis
    by (intro exI [of _ p] exI [of _ "mem_write (STAGE s) 0 (take n bs)"])
      (auto simp: read_blob_area_into_stage_def mem_read_write_same)
qed

end

end
