(* ===== verification/Pkg.thy ===== *)
theory Pkg
  imports Pkg_Disk
begin

text \<open>
  The package commands of \<open>dezh-boot/src/pkg.rs\<close> over the store: recovery from the journal,
  loading, the upload protocol, install, remove, update, rollback, pinning, garbage collection
  and the fault injector. A command returns what it reports on the console as a \<open>PkgReply\<close> and
  the new state; printing and audit records are left out. A step that fails ends its command
  where the source returns.
\<close>

unbundle bit_operations_syntax

section \<open>Results\<close>

datatype PkgReply =
    Unavailable | Waiting | UploadFailed | TooLarge | BadPackage DzpError | NoName | BadLength | UnknownCap | BadPayload
  | RegistryFull | SlotBlocked u8 | AlreadyInstalled | AlreadyActive | JournalFailed | BlobFailed | VerifyFailed
  | PendingFailed | CommitFailed | ArenaFull | Installed nat
  | NoSuchPackage | NotActive u8 | RemovedPkg | Recovered | RecoverFailed | Verified | VerifyError
  | Usage | PinnedPkg | NameMismatch | ReviewRequired u32 | PreserveFailed | PromoteFailed | Updated u32 u32 u32
  | NoPrevious | PreviousBad | RestoreFailed | Restored | PinSet | GcRefused | GcPlan nat nat | GcNothing | GcFailed
  | GcDone nat nat | FaultInjected | FaultFailed
  | RunDenied | RunEntry nat u32

text \<open>One step of a command: its failure is the command's reply.\<close>

definition attempt :: "bool \<times> 's \<Rightarrow> 'r \<Rightarrow> ('s \<Rightarrow> 'r \<times> 's) \<Rightarrow> 'r \<times> 's" where
  "attempt m r k = (case m of (ok, s) \<Rightarrow> if ok then k s else (r, s))"

definition both :: "('s \<Rightarrow> bool \<times> 's) \<Rightarrow> ('s \<Rightarrow> bool \<times> 's) \<Rightarrow> 's \<Rightarrow> bool \<times> 's" where
  "both f g s = (case f s of (ok, s) \<Rightarrow> if ok then g s else (False, s))"

section \<open>Runtime state\<close>

definition clear_runtime_registry :: "'d pkgs \<Rightarrow> 'd pkgs" where
  "clear_runtime_registry s = s\<lparr> PKGS := replicate MAX_PKGS EMPTY_PKG, ARENA_USED := 0 \<rparr>"

definition invalidate_loaded :: "'d pkgs \<Rightarrow> 'd pkgs" where
  "invalidate_loaded s = s\<lparr> STORE_LOADED := False \<rparr>"

definition set_degraded :: "bool \<Rightarrow> 'd pkgs \<Rightarrow> 'd pkgs" where
  "set_degraded v s =
     (if v then clear_runtime_registry (s\<lparr> STORE_DEGRADED := True, STORE_LOADED := False \<rparr>)
      else s\<lparr> STORE_DEGRADED := False \<rparr>)"

definition pkg_boot :: "'d \<Rightarrow> u8 list \<Rightarrow> 'd pkgs" where
  "pkg_boot p inp = \<lparr> port = p, REGISTRY = (\<lambda>_. 0), STAGE = (\<lambda>_. 0), ARENA = (\<lambda>_. 0), ARENA_USED = 0,
     PKGS = replicate MAX_PKGS EMPTY_PKG, STORE_LOADED = False, STORE_DEGRADED = False, uart = inp,
     SKIP_LF_AFTER_CR = False \<rparr>"

definition update_registry :: "(mem \<Rightarrow> mem) \<Rightarrow> 'd pkgs \<Rightarrow> 'd pkgs" where
  "update_registry f s = s\<lparr> REGISTRY := f (REGISTRY s) \<rparr>"

definition registry_checksum :: "'d pkgs \<Rightarrow> u32" where
  "registry_checksum s = checksum (mem_read (REGISTRY s) 0 REGISTRY_SIZE)"

section \<open>Checking a package\<close>

definition ELF_MAGIC :: "u8 list" where "ELF_MAGIC = 0x7f # bytes ''ELF''"

definition verify_payload :: "Package \<Rightarrow> bool" where
  "verify_payload pkg =
     (if pkg_kind pkg = KIND_DEZH_IR then verify (pkg_payload pkg) = Ok ()
      else if pkg_kind pkg = KIND_ELF_RISCV64 then
        length (pkg_payload pkg) > 20 \<and> slice 0 4 (pkg_payload pkg) = ELF_MAGIC \<and> u16_at (pkg_payload pkg) 18 = 243
      else False)"

definition manifest_version :: "str \<Rightarrow> str" where
  "manifest_version m = (case manifest_str m (lit ''version'') of None \<Rightarrow> lit ''0.0.0'' | Some v \<Rightarrow> v)"

text \<open>The checks a blob read back from the disk goes through, in the order of the source.\<close>

definition checked_package :: "u8 list \<Rightarrow> (Package \<times> str \<times> str \<times> u32) option" where
  "checked_package bs =
     (case parse bs of
        Ok pkg \<Rightarrow>
          if \<not> verify_payload pkg then None
          else (case manifest_str (pkg_manifest pkg) (lit ''name'') of
              None \<Rightarrow> None
            | Some name \<Rightarrow> (case parse_mcaps (pkg_manifest pkg) of
                Ok mcaps \<Rightarrow> Some (pkg, name, manifest_version (pkg_manifest pkg), mcaps)
              | _ \<Rightarrow> None))
      | _ \<Rightarrow> None)"

definition verify_blob_record_at :: "'d vblk \<Rightarrow> nat \<Rightarrow> JournalRecord \<Rightarrow> 'd pkgs \<Rightarrow> bool \<times> 'd pkgs" where
  "verify_blob_record_at vb base rec s =
     (if j_raw_len rec = 0 \<or> j_raw_len rec > PKG_MAX_RAW_BYTES \<or> j_blob_count rec \<noteq> div_ceil (j_raw_len rec) 512
      then (False, s)
      else let (ok, s) = read_blob_area_into_stage vb base (j_raw_len rec) s in
        if \<not> ok then (False, s)
        else let bs = mem_read (STAGE s) 0 (j_raw_len rec) in
          if checksum bs \<noteq> j_raw_crc rec then (False, s)
          else (case checked_package bs of
              None \<Rightarrow> (False, s)
            | Some (_, name, version, mcaps) \<Rightarrow>
                (name = journal_name rec \<and> version = journal_version rec \<and> mcaps = j_mcaps rec, s)))"

definition verify_slot_blob :: "'d vblk \<Rightarrow> JournalRecord \<Rightarrow> 'd pkgs \<Rightarrow> bool \<times> 'd pkgs" where
  "verify_slot_blob vb rec s = verify_blob_record_at vb (slot_blob_sector (j_slot rec)) rec s"

definition verify_stage_blob :: "'d vblk \<Rightarrow> JournalRecord \<Rightarrow> 'd pkgs \<Rightarrow> bool \<times> 'd pkgs" where
  "verify_stage_blob vb rec s = verify_blob_record_at vb (stage_blob_sector (j_slot rec)) rec s"

definition install_runtime_entry ::
    "nat \<Rightarrow> str \<Rightarrow> str \<Rightarrow> u16 \<Rightarrow> u32 \<Rightarrow> nat \<Rightarrow> u32 \<Rightarrow> u8 list \<Rightarrow> 'd pkgs \<Rightarrow> bool \<times> 'd pkgs" where
  "install_runtime_entry slot name version kind mcaps raw_len raw_crc payload s =
     (if \<not> ARENA_USED s + length payload \<le> ARENA_SIZE then (False, s)
      else let e = \<lparr> e_used = True, e_slot = of_nat slot, e_name = zero_padded NAME_MAX (as_bytes name),
                     e_name_len = of_nat (str_len name), e_version = zero_padded VER_MAX (as_bytes version),
                     e_version_len = of_nat (str_len version), e_kind = kind, e_mcaps = mcaps, e_raw_len = of_nat raw_len,
                     e_raw_crc = raw_crc, e_off = of_nat (ARENA_USED s), e_len = of_nat (length payload) \<rparr> in
        (True, s\<lparr> ARENA := mem_write (ARENA s) (ARENA_USED s) payload, PKGS := (PKGS s)[slot := e],
                  ARENA_USED := ARENA_USED s + length payload \<rparr>))"

definition entry_payload :: "'d pkgs \<Rightarrow> PkgEntry \<Rightarrow> u8 list" where
  "entry_payload s e = mem_read (ARENA s) (unat (e_off e)) (unat (e_len e))"

section \<open>Recovery\<close>

text \<open>The three writes that close a transaction.\<close>

definition commit_store :: "'d vblk \<Rightarrow> 'd pkgs \<Rightarrow> bool \<times> 'd pkgs" where
  "commit_store vb = both (write_registry vb) (both (init_store_marker vb) (clear_journal vb))"

definition mark_corrupt :: "'d vblk \<Rightarrow> nat \<Rightarrow> 'd pkgs \<Rightarrow> 'd pkgs" where
  "mark_corrupt vb slot s =
     (if REGISTRY s (slot * ENTRY_SIZE) = STATE_ACTIVE
      then snd (write_registry vb (update_registry (set_entry_state slot STATE_CORRUPT) s)) else s)"

definition rollback_slot_to_old_state :: "JournalRecord \<Rightarrow> mem \<Rightarrow> mem" where
  "rollback_slot_to_old_state rec =
     (if j_old_state rec = STATE_EMPTY then clear_registry_slot (j_slot rec) else set_entry_state (j_slot rec) (j_old_state rec))"

definition replay_pending :: "'d vblk \<Rightarrow> JournalRecord \<Rightarrow> 'd pkgs \<Rightarrow> 'd pkgs" where
  "replay_pending vb rec s =
     (let st = entry_state (REGISTRY s) (j_slot rec);
          (promoted, s) = (if j_op rec = JOURNAL_OP_REPLACE \<and> st = STATE_PENDING_INSTALL
             then both (verify_stage_blob vb rec)
                    (copy_blob_area vb (stage_blob_sector (j_slot rec)) (slot_blob_sector (j_slot rec)) (j_raw_len rec)) s
             else (False, s)) in
      if promoted then update_registry (set_entry_state (j_slot rec) STATE_ACTIVE) s
      else let (installed, s) = (if j_op rec = JOURNAL_OP_INSTALL \<and> st = STATE_PENDING_INSTALL
             then verify_slot_blob vb rec s else (False, s)) in
        update_registry (set_entry_state (j_slot rec) (if installed then STATE_ACTIVE else STATE_QUARANTINED)) s)"

definition replay_rollback :: "'d vblk \<Rightarrow> JournalRecord \<Rightarrow> 'd pkgs \<Rightarrow> bool \<times> 'd pkgs" where
  "replay_rollback vb rec s =
     (if j_phase rec \<noteq> JOURNAL_PHASE_REGISTRY_PENDING then (False, s)
      else let (ok, s) = read_previous_blob_into_stage vb (j_slot rec) (j_raw_len rec) s in
        if \<not> ok \<or> checksum (mem_read (STAGE s) 0 (j_raw_len rec)) \<noteq> j_raw_crc rec then (False, s)
        else let (ok, s) = write_blob_at vb (slot_blob_sector (j_slot rec)) (mem_read (STAGE s) 0 (j_raw_len rec)) s in
          if \<not> ok then (False, s) else (True, update_registry (set_entry_state (j_slot rec) STATE_ACTIVE) s))"

definition replay_journal :: "'d vblk \<Rightarrow> JournalRecord \<Rightarrow> 'd pkgs \<Rightarrow> bool \<times> 'd pkgs" where
  "replay_journal vb rec s =
     (if j_op rec = JOURNAL_OP_INSTALL \<or> j_op rec = JOURNAL_OP_REPLACE then
        if j_phase rec = JOURNAL_PHASE_STARTED \<or> j_phase rec = JOURNAL_PHASE_BLOB_WRITTEN
        then (True, update_registry (rollback_slot_to_old_state rec) s)
        else if j_phase rec = JOURNAL_PHASE_REGISTRY_PENDING then (True, replay_pending vb rec s)
        else (False, set_degraded True s)
      else if j_op rec = JOURNAL_OP_ROLLBACK then
        let (ok, s) = replay_rollback vb rec s in if ok then (True, s) else (False, set_degraded True s)
      else if j_op rec = JOURNAL_OP_REMOVE then (True, update_registry (set_entry_state (j_slot rec) STATE_REMOVED) s)
      else (False, set_degraded True s))"

definition recover_from_journal :: "'d vblk \<Rightarrow> bool \<Rightarrow> 'd pkgs \<Rightarrow> bool \<times> 'd pkgs" where
  "recover_from_journal vb manual s =
     (let (raw, s) = read_journal_raw vb s in
      case raw of
        None \<Rightarrow> (False, set_degraded True s)
      | Some raw \<Rightarrow> (case decode_journal raw of
            JournalEmpty \<Rightarrow> (True, set_degraded False s)
          | JournalCorrupt \<Rightarrow>
              if \<not> manual then (False, set_degraded True s)
              else let (ok, s) = commit_store vb (update_registry quarantine_pending_slots s) in
                if ok then (True, invalidate_loaded (set_degraded False s)) else (False, set_degraded True s)
          | JournalValid rec \<Rightarrow>
              let (ok, s) = both (replay_journal vb rec) (commit_store vb) s in
              if ok then (True, invalidate_loaded (set_degraded False s)) else (False, set_degraded True s)))"

section \<open>Loading\<close>

definition load_slot :: "'d vblk \<Rightarrow> nat \<Rightarrow> 'd pkgs \<Rightarrow> 'd pkgs" where
  "load_slot vb slot s =
     (let reg = REGISTRY s; e = slot * ENTRY_SIZE in
      if reg e \<noteq> STATE_ACTIVE then s
      else if mem_read reg (e + 1) 4 \<noteq> REG_MAGIC then mark_corrupt vb slot s
      else let raw_len = unat (get_u32 reg (e + 12)); raw_crc = get_u32 reg (e + 16) in
        if raw_len = 0 \<or> raw_len > PKG_MAX_RAW_BYTES then mark_corrupt vb slot s
        else let (ok, s) = read_blob_into_stage vb slot raw_len s in
          if \<not> ok then mark_corrupt vb slot s
          else let bs = mem_read (STAGE s) 0 raw_len in
            if checksum bs \<noteq> raw_crc then mark_corrupt vb slot s
            else (case checked_package bs of
                None \<Rightarrow> mark_corrupt vb slot s
              | Some (pkg, name, version, mcaps) \<Rightarrow>
                  if str_len name > NAME_MAX \<or> str_len version > VER_MAX then mark_corrupt vb slot s
                  else let (ok, s) = install_runtime_entry slot name version (pkg_kind pkg) mcaps raw_len raw_crc
                             (pkg_payload pkg) s in
                    if ok then s else mark_corrupt vb slot s))"

definition ensure_loaded :: "'d vblk \<Rightarrow> 'd pkgs \<Rightarrow> bool \<times> 'd pkgs" where
  "ensure_loaded vb s =
     (if STORE_LOADED s \<and> \<not> STORE_DEGRADED s then (True, s)
      else both (read_registry vb) (both (recover_from_journal vb False) (both (read_registry vb)
        (\<lambda>s. (True, (fold (load_slot vb) [0..<MAX_PKGS] (clear_runtime_registry s))\<lparr> STORE_LOADED := True \<rparr>)))) s)"

section \<open>The upload protocol\<close>

definition ascii_graphic :: "u8 \<Rightarrow> bool" where
  "ascii_graphic c \<longleftrightarrow> 33 \<le> c \<and> c \<le> 126"

text \<open>One line of at most \<open>cap\<close> bytes; \<open>None\<close> while the line has not ended.\<close>

fun read_raw_line :: "nat \<Rightarrow> u8 list \<Rightarrow> bool \<Rightarrow> u8 list \<Rightarrow> (u8 list \<times> bool \<times> u8 list) option" where
  "read_raw_line cap acc skip [] = None"
| "read_raw_line cap acc skip (c # cs) =
     (if c = 10 then if skip then read_raw_line cap acc False cs else Some (acc, False, cs)
      else if c = 13 then Some (acc, True, cs)
      else if ascii_graphic c \<and> length acc < cap then read_raw_line cap (acc @ [c]) False cs
      else read_raw_line cap acc False cs)"

lemma read_raw_line_shorter: "read_raw_line cap acc skip cs = Some (l, sk, rest) \<Longrightarrow> length rest < length cs"
  by (induction cs arbitrary: acc skip) (force split: if_splits)+

text \<open>The result: still waiting, given up, or the number of bytes staged.\<close>

datatype upload = UploadWaiting | UploadAborted | Staged nat

function receive_lines :: "nat \<Rightarrow> 'd pkgs \<Rightarrow> upload \<times> 'd pkgs" where
  "receive_lines got s =
     (case read_raw_line 120 [] (SKIP_LF_AFTER_CR s) (uart s) of
        None \<Rightarrow> (UploadWaiting, s)
      | Some (line, skip, rest) \<Rightarrow>
          let s = s\<lparr> uart := rest, SKIP_LF_AFTER_CR := skip \<rparr> in
          if line = bytes ''.'' then (Staged got, s)
          else if line = bytes ''!'' then (UploadAborted, s)
          else if line = [] then receive_lines got s
          else (case b64_decode line (STAGE_SIZE - got) of
              None \<Rightarrow> (UploadAborted, s)
            | Some out \<Rightarrow> receive_lines (got + length out) (s\<lparr> STAGE := mem_write (STAGE s) got out \<rparr>)))"
  by pat_completeness auto
termination
  by (relation "measure (\<lambda>(_, s). length (uart s))") (auto dest!: read_raw_line_shorter)

declare receive_lines.simps [simp del]

definition receive_raw_into_stage :: "'d pkgs \<Rightarrow> upload \<times> 'd pkgs" where
  "receive_raw_into_stage s = receive_lines 0 s"

section \<open>Install\<close>

text \<open>The checks of an upload, with the reply of the first that fails; \<open>parse\<close> never panics.\<close>

definition admit_package :: "u8 list \<Rightarrow> PkgReply + Package \<times> str \<times> str \<times> u32" where
  "admit_package bs =
     (case parse bs of
        Err e \<Rightarrow> Inl (BadPackage e)
      | Panic \<Rightarrow> Inl (BadPackage DzpTooShort)
      | Ok pkg \<Rightarrow> (case manifest_str (pkg_manifest pkg) (lit ''name'') of
            None \<Rightarrow> Inl NoName
          | Some name \<Rightarrow> let version = manifest_version (pkg_manifest pkg) in
              if name = [] \<or> str_len name > NAME_MAX \<or> str_len version > VER_MAX then Inl BadLength
              else (case parse_mcaps (pkg_manifest pkg) of
                  Ok mcaps \<Rightarrow> if \<not> verify_payload pkg then Inl BadPayload else Inr (pkg, name, version, mcaps)
                | _ \<Rightarrow> Inl UnknownCap)))"

text \<open>The slot an upload goes to.\<close>

definition install_slot :: "mem \<Rightarrow> str \<Rightarrow> str \<Rightarrow> u32 \<Rightarrow> PkgReply + nat" where
  "install_slot reg name version raw_crc =
     (case registry_slot_for name reg of
        None \<Rightarrow> Inl RegistryFull
      | Some slot \<Rightarrow> let old_state = entry_state reg slot in
          if old_state = STATE_CORRUPT \<or> old_state = STATE_QUARANTINED then Inl (SlotBlocked old_state)
          else if old_state = STATE_ACTIVE \<and> entry_version reg slot = version \<and>
              get_u32 reg (slot * ENTRY_SIZE + 16) = raw_crc then Inl AlreadyInstalled
          else if old_state = STATE_ACTIVE then Inl AlreadyActive
          else Inr slot)"

text \<open>
  The transaction, in two parts: the blob goes to its slot and is read back, then the entry goes
  to the registry, first pending and then active. The read-back leaves in the staging buffer the
  bytes it was written from, so that the name, the version and the payload, slices of that
  buffer in the source, keep their values.
\<close>

definition install_commit ::
    "'d vblk \<Rightarrow> nat \<Rightarrow> Package \<Rightarrow> str \<Rightarrow> str \<Rightarrow> u32 \<Rightarrow> u8 list \<Rightarrow> JournalRecord \<Rightarrow> 'd pkgs \<Rightarrow> PkgReply \<times> 'd pkgs" where
  "install_commit vb slot pkg name version mcaps bs rec s =
     (let raw_crc = checksum bs;
          s = update_registry (encode_registry_entry slot STATE_PENDING_INSTALL name version (pkg_kind pkg) mcaps (length bs) raw_crc) s;
          rec = rec\<lparr> j_phase := JOURNAL_PHASE_REGISTRY_PENDING, j_registry_after_crc := registry_checksum s \<rparr> in
      attempt (both (write_journal vb rec) (write_registry vb) s) PendingFailed (\<lambda>s.
      attempt (commit_store vb (update_registry (set_entry_state slot STATE_ACTIVE) s)) CommitFailed (\<lambda>s.
      let (ok, s) = install_runtime_entry slot name version (pkg_kind pkg) mcaps (length bs) raw_crc (pkg_payload pkg)
            (s\<lparr> PKGS := (PKGS s)[slot := EMPTY_PKG] \<rparr>) in
      (if ok then Installed slot else ArenaFull, invalidate_loaded s))))"

definition install_tx ::
    "'d vblk \<Rightarrow> nat \<Rightarrow> Package \<Rightarrow> str \<Rightarrow> str \<Rightarrow> u32 \<Rightarrow> u8 list \<Rightarrow> 'd pkgs \<Rightarrow> PkgReply \<times> 'd pkgs" where
  "install_tx vb slot pkg name version mcaps bs s =
     (let old_state = entry_state (REGISTRY s) slot;
          rec = journal_record JOURNAL_OP_INSTALL JOURNAL_PHASE_STARTED slot old_state STATE_ACTIVE name version mcaps
            (length bs) (checksum bs) (registry_checksum s) 0 in
      attempt (write_journal vb rec s) JournalFailed (\<lambda>s.
      attempt (write_blob vb slot bs s) BlobFailed (\<lambda>s.
      let rec = rec\<lparr> j_phase := JOURNAL_PHASE_BLOB_WRITTEN \<rparr> in
      attempt (write_journal vb rec s) JournalFailed (\<lambda>s.
      attempt (verify_slot_blob vb rec s) VerifyFailed (install_commit vb slot pkg name version mcaps bs rec)))))"

definition pkg_recv :: "'d vblk \<Rightarrow> 'd pkgs \<Rightarrow> PkgReply \<times> 'd pkgs" where
  "pkg_recv vb s =
     attempt (ensure_loaded vb s) Unavailable (\<lambda>s.
       case receive_raw_into_stage s of
         (UploadWaiting, s) \<Rightarrow> (Waiting, s)
       | (UploadAborted, s) \<Rightarrow> (UploadFailed, s)
       | (Staged got, s) \<Rightarrow>
           if got = 0 \<or> got > PKG_MAX_RAW_BYTES then (TooLarge, s)
           else let bs = mem_read (STAGE s) 0 got in
             (case admit_package bs of
                Inl r \<Rightarrow> (r, s)
              | Inr (pkg, name, version, mcaps) \<Rightarrow>
                  (case install_slot (REGISTRY s) name version (checksum bs) of
                     Inl r \<Rightarrow> (r, s)
                   | Inr slot \<Rightarrow> install_tx vb slot pkg name version mcaps bs s)))"

section \<open>Run, remove, recover, verify\<close>

text \<open>\<open>pkg_run\<close> up to the launch: the entry and the capabilities it runs with.\<close>

definition pkg_run :: "'d vblk \<Rightarrow> str \<Rightarrow> 'd pkgs \<Rightarrow> PkgReply \<times> 'd pkgs" where
  "pkg_run vb arg s =
     attempt (ensure_loaded vb s) Unavailable (\<lambda>s.
       case find_runtime_pkg (trim arg) (PKGS s) of
         None \<Rightarrow> (RunDenied, s)
       | Some i \<Rightarrow> (RunEntry i (e_mcaps (PKGS s ! i)), s))"

definition remove_tx :: "'d vblk \<Rightarrow> nat \<Rightarrow> 'd pkgs \<Rightarrow> PkgReply \<times> 'd pkgs" where
  "remove_tx vb slot s =
     (let reg = REGISTRY s;
          rec = journal_record JOURNAL_OP_REMOVE JOURNAL_PHASE_STARTED slot STATE_ACTIVE STATE_REMOVED (entry_name reg slot)
            (entry_version reg slot) (get_u32 reg (slot * ENTRY_SIZE + 8)) (unat (get_u32 reg (slot * ENTRY_SIZE + 12)))
            (get_u32 reg (slot * ENTRY_SIZE + 16)) (registry_checksum s) 0 in
      attempt (write_journal vb rec s) JournalFailed (\<lambda>s.
      let s = update_registry (set_entry_state slot STATE_PENDING_REMOVE) s;
          s = s\<lparr> PKGS := (PKGS s)[slot := (PKGS s ! slot)\<lparr> e_used := False \<rparr>] \<rparr> in
      attempt (write_registry vb s) PendingFailed (\<lambda>s.
      attempt (commit_store vb (update_registry (set_entry_state slot STATE_REMOVED) s)) CommitFailed (\<lambda>s.
      (RemovedPkg, invalidate_loaded s)))))"

definition pkg_remove :: "'d vblk \<Rightarrow> str \<Rightarrow> 'd pkgs \<Rightarrow> PkgReply \<times> 'd pkgs" where
  "pkg_remove vb arg s =
     attempt (ensure_loaded vb s) Unavailable (\<lambda>s.
       case find_registry_slot (trim arg) (REGISTRY s) of
         None \<Rightarrow> (NoSuchPackage, s)
       | Some slot \<Rightarrow>
           if entry_state (REGISTRY s) slot \<noteq> STATE_ACTIVE then (NotActive (entry_state (REGISTRY s) slot), s)
           else remove_tx vb slot s)"

definition pkg_recover :: "'d vblk \<Rightarrow> 'd pkgs \<Rightarrow> PkgReply \<times> 'd pkgs" where
  "pkg_recover vb s =
     attempt (read_registry vb s) Unavailable (\<lambda>s.
       attempt (recover_from_journal vb True s) RecoverFailed (\<lambda>s. (Recovered, s)))"

definition pkg_verify :: "'d vblk \<Rightarrow> str \<Rightarrow> 'd pkgs \<Rightarrow> PkgReply \<times> 'd pkgs" where
  "pkg_verify vb arg s =
     attempt (ensure_loaded vb s) Unavailable (\<lambda>s.
       case find_registry_slot (trim arg) (REGISTRY s) of
         None \<Rightarrow> (NoSuchPackage, s)
       | Some slot \<Rightarrow>
           let reg = REGISTRY s; e = slot * ENTRY_SIZE; raw_len = unat (get_u32 reg (e + 12)); raw_crc = get_u32 reg (e + 16) in
           if entry_state reg slot \<noteq> STATE_ACTIVE then (NotActive (entry_state reg slot), s)
           else attempt (read_blob_into_stage vb slot raw_len s) VerifyError (\<lambda>s.
             let bs = mem_read (STAGE s) 0 raw_len in
             if checksum bs \<noteq> raw_crc then (VerifyError, s)
             else (case parse bs of
                 Ok pkg \<Rightarrow>
                   (if \<not> verify_payload pkg then VerifyError
                    else case parse_mcaps (pkg_manifest pkg) of Ok _ \<Rightarrow> Verified | _ \<Rightarrow> VerifyError, s)
               | _ \<Rightarrow> (VerifyError, s))))"

section \<open>Update and rollback\<close>

function split_whitespace :: "str \<Rightarrow> str list" where
  "split_whitespace s =
     (let s = dropWhile is_whitespace s in
      if s = [] then [] else takeWhile (\<lambda>c. \<not> is_whitespace c) s # split_whitespace (dropWhile (\<lambda>c. \<not> is_whitespace c) s))"
  by pat_completeness auto
termination
proof (relation "measure length", goal_cases)
  case (2 s t)
  have "length t \<le> length s" using 2(1) by (simp add: length_dropWhile_le)
  moreover have "\<not> is_whitespace (hd t)" using 2 by (metis hd_dropWhile)
  then have "length (dropWhile (\<lambda>c. \<not> is_whitespace c) t) < length t"
    using 2(2) length_dropWhile_le [of _ "tl t"] by (cases t) (auto simp: less_Suc_eq_le)
  ultimately show ?case by simp
qed simp

declare split_whitespace.simps [simp del]

text \<open>The checks of an update; the length test allows an empty name, which no slot has.\<close>

definition admit_update :: "str \<Rightarrow> u8 list \<Rightarrow> PkgReply + Package \<times> str \<times> str \<times> u32" where
  "admit_update target bs =
     (case parse bs of
        Err e \<Rightarrow> Inl (BadPackage e)
      | Panic \<Rightarrow> Inl (BadPackage DzpTooShort)
      | Ok pkg \<Rightarrow> (case manifest_str (pkg_manifest pkg) (lit ''name'') of
            None \<Rightarrow> Inl NoName
          | Some name \<Rightarrow> let version = manifest_version (pkg_manifest pkg) in
              if name \<noteq> target then Inl NameMismatch
              else if str_len name > NAME_MAX \<or> str_len version > VER_MAX then Inl BadLength
              else (case parse_mcaps (pkg_manifest pkg) of
                  Ok mcaps \<Rightarrow> if \<not> verify_payload pkg then Inl BadPayload else Inr (pkg, name, version, mcaps)
                | _ \<Rightarrow> Inl UnknownCap)))"

text \<open>The update, in the same two parts; the previous version is preserved before the registry changes.\<close>

definition update_commit ::
    "'d vblk \<Rightarrow> nat \<Rightarrow> Package \<Rightarrow> str \<Rightarrow> str \<Rightarrow> u32 \<Rightarrow> u8 list \<Rightarrow> JournalRecord \<Rightarrow> mem \<Rightarrow> 'd pkgs \<Rightarrow> PkgReply \<times> 'd pkgs" where
  "update_commit vb slot pkg name version new_caps bs rec reg s =
     (let e = slot * ENTRY_SIZE;
          old_version = entry_version reg slot; old_kind = get_u16 reg (e + 6); old_caps = get_u32 reg (e + 8);
          old_raw_len = unat (get_u32 reg (e + 12)); old_raw_crc = get_u32 reg (e + 16);
          s = update_registry (encode_registry_entry slot STATE_PENDING_INSTALL name version (pkg_kind pkg) new_caps (length bs) (checksum bs)) s;
          s = update_registry (encode_previous_metadata slot old_version old_kind old_caps old_raw_len old_raw_crc) s;
          rec = rec\<lparr> j_phase := JOURNAL_PHASE_REGISTRY_PENDING, j_registry_after_crc := registry_checksum s \<rparr> in
      attempt (both (write_journal vb rec) (write_registry vb) s) PendingFailed (\<lambda>s.
      attempt (copy_blob_area vb (stage_blob_sector slot) (slot_blob_sector slot) (length bs) s) PromoteFailed (\<lambda>s.
      attempt (commit_store vb (update_registry (set_entry_state slot STATE_ACTIVE) s)) CommitFailed (\<lambda>s.
      let (added, removed, unchanged) = cap_delta old_caps new_caps in
      (Updated added removed unchanged, invalidate_loaded s)))))"

definition update_tx ::
    "'d vblk \<Rightarrow> nat \<Rightarrow> Package \<Rightarrow> str \<Rightarrow> str \<Rightarrow> u32 \<Rightarrow> u8 list \<Rightarrow> 'd pkgs \<Rightarrow> PkgReply \<times> 'd pkgs" where
  "update_tx vb slot pkg name version new_caps bs s =
     (let reg = REGISTRY s; old_raw_len = unat (get_u32 reg (slot * ENTRY_SIZE + 12));
          rec = journal_record JOURNAL_OP_REPLACE JOURNAL_PHASE_STARTED slot STATE_ACTIVE STATE_ACTIVE name version new_caps
            (length bs) (checksum bs) (registry_checksum s) 0 in
      attempt (write_journal vb rec s) JournalFailed (\<lambda>s.
      attempt (write_stage_blob vb slot bs s) BlobFailed (\<lambda>s.
      let rec = rec\<lparr> j_phase := JOURNAL_PHASE_BLOB_WRITTEN \<rparr> in
      attempt (both (write_journal vb rec) (verify_stage_blob vb rec) s) VerifyFailed (\<lambda>s.
      attempt (copy_blob_area vb (slot_blob_sector slot) (previous_blob_sector slot) old_raw_len s) PreserveFailed
        (update_commit vb slot pkg name version new_caps bs rec reg)))))"

definition pkg_update :: "'d vblk \<Rightarrow> str \<Rightarrow> 'd pkgs \<Rightarrow> PkgReply \<times> 'd pkgs" where
  "pkg_update vb arg s =
     (case split_whitespace arg of
        [] \<Rightarrow> (Usage, s)
      | target # opts \<Rightarrow>
          let allow_new_caps = lit ''--allow-new-caps'' \<in> set opts in
          attempt (ensure_loaded vb s) Unavailable (\<lambda>s.
            case find_registry_slot target (REGISTRY s) of
              None \<Rightarrow> (NoSuchPackage, s)
            | Some slot \<Rightarrow>
                let reg = REGISTRY s; e = slot * ENTRY_SIZE in
                if entry_state reg slot \<noteq> STATE_ACTIVE then (NotActive (entry_state reg slot), s)
                else if entry_is_pinned reg slot then (PinnedPkg, s)
                else (case receive_raw_into_stage s of
                    (UploadWaiting, s) \<Rightarrow> (Waiting, s)
                  | (UploadAborted, s) \<Rightarrow> (UploadFailed, s)
                  | (Staged got, s) \<Rightarrow>
                      if got = 0 \<or> got > PKG_MAX_RAW_BYTES then (TooLarge, s)
                      else let bs = mem_read (STAGE s) 0 got in
                        (case admit_update target bs of
                           Inl r \<Rightarrow> (r, s)
                         | Inr (pkg, name, version, new_caps) \<Rightarrow>
                             if entry_version reg slot = version \<and> get_u32 reg (e + 16) = checksum bs then (AlreadyInstalled, s)
                             else let (added, _, _) = cap_delta (get_u32 reg (e + 8)) new_caps in
                               if added \<noteq> 0 \<and> \<not> allow_new_caps then (ReviewRequired added, s)
                               else update_tx vb slot pkg name version new_caps bs s))))"

definition rollback_tx :: "'d vblk \<Rightarrow> nat \<Rightarrow> str \<Rightarrow> 'd pkgs \<Rightarrow> PkgReply \<times> 'd pkgs" where
  "rollback_tx vb slot name s =
     (let reg = REGISTRY s; e = slot * ENTRY_SIZE;
          prev_version = entry_previous_version reg slot; prev_kind = get_u16 reg (e + 82); prev_caps = get_u32 reg (e + 84);
          prev_raw_len = unat (get_u32 reg (e + 88)); prev_raw_crc = get_u32 reg (e + 92);
          before_crc = registry_checksum s in
      attempt (read_previous_blob_into_stage vb slot prev_raw_len s) PreviousBad (\<lambda>s.
      if checksum (mem_read (STAGE s) 0 prev_raw_len) \<noteq> prev_raw_crc then (PreviousBad, s)
      else let rec = journal_record JOURNAL_OP_ROLLBACK JOURNAL_PHASE_REGISTRY_PENDING slot STATE_ACTIVE STATE_ACTIVE name prev_version
                 prev_caps prev_raw_len prev_raw_crc before_crc 0 in
      attempt (write_journal vb rec s) JournalFailed (\<lambda>s.
      let s = update_registry (encode_registry_entry slot STATE_PENDING_INSTALL name prev_version prev_kind prev_caps prev_raw_len prev_raw_crc) s;
          s = (if entry_is_pinned reg slot then update_registry (set_entry_flags slot ENTRY_FLAG_PINNED) s else s) in
      attempt (write_registry vb s) PendingFailed (\<lambda>s.
      attempt (write_blob_at vb (slot_blob_sector slot) (mem_read (STAGE s) 0 prev_raw_len) s) RestoreFailed (\<lambda>s.
      attempt (commit_store vb (update_registry (set_entry_state slot STATE_ACTIVE) s)) CommitFailed (\<lambda>s.
      (Restored, invalidate_loaded s)))))))"

definition pkg_rollback :: "'d vblk \<Rightarrow> str \<Rightarrow> 'd pkgs \<Rightarrow> PkgReply \<times> 'd pkgs" where
  "pkg_rollback vb arg s =
     (case split_whitespace arg of
        [] \<Rightarrow> (Usage, s)
      | name # opts \<Rightarrow>
          let force = lit ''--force'' \<in> set opts in
          attempt (ensure_loaded vb s) Unavailable (\<lambda>s.
            case find_registry_slot name (REGISTRY s) of
              None \<Rightarrow> (NoSuchPackage, s)
            | Some slot \<Rightarrow>
                if entry_state (REGISTRY s) slot \<noteq> STATE_ACTIVE \<or> \<not> entry_previous_valid (REGISTRY s) slot then (NoPrevious, s)
                else if entry_is_pinned (REGISTRY s) slot \<and> \<not> force then (PinnedPkg, s)
                else rollback_tx vb slot name s))"

section \<open>Pinning, garbage collection, fault injection\<close>

definition pkg_pin :: "'d vblk \<Rightarrow> str \<Rightarrow> bool \<Rightarrow> 'd pkgs \<Rightarrow> PkgReply \<times> 'd pkgs" where
  "pkg_pin vb arg pinned s =
     attempt (ensure_loaded vb s) Unavailable (\<lambda>s.
       case find_registry_slot (trim arg) (REGISTRY s) of
         None \<Rightarrow> (NoSuchPackage, s)
       | Some slot \<Rightarrow>
           let flags = entry_flags (REGISTRY s) slot;
               flags = (if pinned then flags OR ENTRY_FLAG_PINNED else flags AND NOT ENTRY_FLAG_PINNED) in
           attempt (both (write_registry vb) (init_store_marker vb) (update_registry (set_entry_flags slot flags) s)) CommitFailed (\<lambda>s.
           (PinSet, invalidate_loaded s)))"

text \<open>Wipe the areas of the removed slots, one after the other; the first failure stops.\<close>

fun gc_wipe :: "'d vblk \<Rightarrow> nat list \<Rightarrow> 'd pkgs \<Rightarrow> bool \<times> 'd pkgs" where
  "gc_wipe vb [] s = (True, s)"
| "gc_wipe vb (slot # slots) s =
     (let (ok, s) = both (zero_blob_slot vb slot) (both (zero_blob_area vb (previous_blob_sector slot))
            (zero_blob_area vb (stage_blob_sector slot))) s in
      if \<not> ok then (False, s) else gc_wipe vb slots (update_registry (clear_registry_slot slot) s))"

definition pkg_gc :: "'d vblk \<Rightarrow> str \<Rightarrow> 'd pkgs \<Rightarrow> PkgReply \<times> 'd pkgs" where
  "pkg_gc vb arg s =
     (let mode = trim arg in
      if mode \<noteq> [] \<and> mode \<noteq> lit ''plan'' \<and> mode \<noteq> lit ''run'' then (Usage, s)
      else attempt (ensure_loaded vb s) Unavailable (\<lambda>s.
        case read_journal_raw vb s of
          (None, s) \<Rightarrow> (Unavailable, s)
        | (Some raw, s) \<Rightarrow>
            if decode_journal raw \<noteq> JournalEmpty then (GcRefused, s)
            else let removed = filter (\<lambda>slot. entry_state (REGISTRY s) slot = STATE_REMOVED) [0..<MAX_PKGS];
                     reclaimable = length removed * PKG_SLOT_SECTORS * 512 in
              if mode \<noteq> lit ''run'' then (GcPlan (length removed) reclaimable, s)
              else if removed = [] then (GcNothing, s)
              else attempt (gc_wipe vb removed s) GcFailed (\<lambda>s.
                attempt (both (write_registry vb) (init_store_marker vb) s) GcFailed (\<lambda>s.
                (GcDone (length removed) reclaimable, invalidate_loaded s)))))"

definition fault_slot :: "mem \<Rightarrow> nat" where
  "fault_slot reg = (case registry_slot_for (lit ''faultpkg'') reg of Some k \<Rightarrow> k | None \<Rightarrow> MAX_PKGS - 1)"

definition fault_corrupt_image :: mem where
  "fault_corrupt_image = mem_write (mem_write (\<lambda>_. 0) 0 (bytes ''BROK'')) 64 (bytes ''faultpkg'')"

definition pkg_fault :: "'d vblk \<Rightarrow> str \<Rightarrow> 'd pkgs \<Rightarrow> PkgReply \<times> 'd pkgs" where
  "pkg_fault vb arg s =
     attempt (read_registry vb s) Unavailable (\<lambda>s.
       let mode = trim arg; reg = REGISTRY s; name = lit ''faultpkg''; version = lit ''0.0.1'' in
       if mode = lit ''install-after-blob'' then
         let slot = fault_slot reg;
             rec = journal_record JOURNAL_OP_INSTALL JOURNAL_PHASE_BLOB_WRITTEN slot (entry_state reg slot) STATE_ACTIVE name version
               MCAP_PRINT 128 0xfeedb10b (registry_checksum s) 0 in
         attempt (write_journal vb rec s) FaultFailed (\<lambda>s. (FaultInjected, invalidate_loaded s))
       else if mode = lit ''install-pending-registry'' then
         let slot = fault_slot reg;
             s = update_registry (encode_registry_entry slot STATE_PENDING_INSTALL name version KIND_DEZH_IR MCAP_PRINT 128 0xfeedb10b) s;
             rec = journal_record JOURNAL_OP_INSTALL JOURNAL_PHASE_REGISTRY_PENDING slot (entry_state reg slot) STATE_ACTIVE name version
               MCAP_PRINT 128 0xfeedb10b 0 (registry_checksum s) in
         attempt (both (write_registry vb) (write_journal vb rec) s) FaultFailed (\<lambda>s. (FaultInjected, invalidate_loaded s))
       else if mode = lit ''remove-pending'' then
         (case find_registry_slot (lit ''hello'') reg of
            None \<Rightarrow> (NoSuchPackage, s)
          | Some slot \<Rightarrow>
              let rec = journal_record JOURNAL_OP_REMOVE JOURNAL_PHASE_STARTED slot STATE_ACTIVE STATE_REMOVED (entry_name reg slot)
                    (entry_version reg slot) (get_u32 reg (slot * ENTRY_SIZE + 8)) (unat (get_u32 reg (slot * ENTRY_SIZE + 12)))
                    (get_u32 reg (slot * ENTRY_SIZE + 16)) (registry_checksum s) 0;
                  s = update_registry (set_entry_state slot STATE_PENDING_REMOVE) s in
              attempt (both (write_registry vb) (write_journal vb rec) s) FaultFailed (\<lambda>s. (FaultInjected, invalidate_loaded s)))
       else if mode = lit ''corrupt-journal'' then
         attempt (write_journal_raw vb fault_corrupt_image s) FaultFailed (\<lambda>s. (FaultInjected, invalidate_loaded s))
       else (Usage, s))"

end
