(* ===== verification/Pkg_Service.thy ===== *)
theory Pkg_Service
  imports Pkg_Store
begin

text \<open>
  The daemon's package requests, reached through the client process, are a sector service: what
  the package store relies on holds for every device that is a block device.
\<close>

section \<open>The daemon provides it\<close>

definition daemon_vblk :: "'d device \<Rightarrow> ('d blk \<Rightarrow> bool) \<Rightarrow> ('d blk \<Rightarrow> bool) \<Rightarrow> 'd blk vblk" where
  "daemon_vblk dv up sent =
     \<lparr> vb_status = (\<lambda>req sector inp s.
         case run_registered_virtio_sector_status dv up sent req sector inp s of
           Some r \<Rightarrow> r | None \<Rightarrow> (IPC_STATUS_FAULTED, s)),
       vb_output = read_virtio_output_sector 512 \<rparr>"

definition sectors_of :: "('d \<Rightarrow> u64 \<Rightarrow> mem) \<Rightarrow> 'd blk \<Rightarrow> nat \<Rightarrow> u8 list" where
  "sectors_of content p sec = (if sec < 65536 then mem_read (content (dev p) (of_nat sec)) 0 512 else replicate 512 0)"

lemma region_bounds:
  "25 \<le> sec \<Longrightarrow> sec \<le> 31 \<Longrightarrow> \<not> (of_nat sec < PKG_REGISTRY_FIRST_SECTOR \<or> of_nat sec > PKG_REGISTRY_LAST_SECTOR)"
  "32 \<le> sec \<Longrightarrow> sec \<le> 39 \<Longrightarrow> \<not> (of_nat sec < PKG_JOURNAL_FIRST_SECTOR \<or> of_nat sec > PKG_JOURNAL_LAST_SECTOR)"
  "64 \<le> sec \<Longrightarrow> sec \<le> 1599 \<Longrightarrow> \<not> (of_nat sec < PKG_BLOB_FIRST_SECTOR \<or> of_nat sec > PKG_BLOB_LAST_SECTOR)"
  by (auto simp: word_less_nat_alt unat_of_nat_small PKG_REGISTRY_FIRST_SECTOR_def PKG_REGISTRY_LAST_SECTOR_def
      PKG_JOURNAL_FIRST_SECTOR_def PKG_JOURNAL_LAST_SECTOR_def PKG_BLOB_FIRST_SECTOR_def PKG_BLOB_LAST_SECTOR_def)

text \<open>In their region a read and a write are one transfer.\<close>

lemma pkg_request_read:
  assumes "pkg_read_ok req sec"
  shows "pkg_request dv req (pkg_arg req sec) s = Some (map_prod status_from_io id (rw dv (of_nat sec) False s))"
    "req \<in> set pkg_reqs" "sec < 65536"
  using assms region_bounds [of sec]
  by (auto simp: pkg_read_ok_def pkg_request_def pkg_reqs_def pkg_arg_def req_defs region_read_def split_beta map_prod_def)

lemma pkg_request_write:
  assumes "pkg_write_ok req sec"
  shows "pkg_request dv req (pkg_arg req sec) s =
      Some (map_prod status_from_io id (rw dv (of_nat sec) True (copy_input SECTOR_SIZE s)))"
    "req \<in> set pkg_reqs" "sec < 65536"
  using assms region_bounds [of sec]
  by (auto simp: pkg_write_ok_def pkg_request_def pkg_reqs_def pkg_arg_def req_defs region_write_def split_beta map_prod_def)

lemma staged_sector: "length bs \<le> 512 \<Longrightarrow>
  mem_read (sector_of (data (copy_input SECTOR_SIZE (prepare_virtio_input_bytes bs s)))) 0 512 = zero_padded 512 bs"
  by (auto intro!: nth_equalityI simp: nth_zero_padded sector_of_def copy_input_def prepare_virtio_input_bytes_def SECTOR_SIZE_def Let_def)

lemma status_bits: "take_bit 8 (status_from_io st) = IPC_STATUS_OK \<longleftrightarrow> st = 0"
  by (simp add: status_from_io_def IPC_STATUS_OK_def IPC_STATUS_IO_FAILURE_def)

lemma refusal_status: "SYS_DENIED \<noteq> IPC_STATUS_OK" "IPC_STATUS_UNAVAILABLE \<noteq> IPC_STATUS_OK"
  by (simp_all add: SYS_DENIED_def IPC_STATUS_OK_def IPC_STATUS_UNAVAILABLE_def)

lemma of_nat_sector_inj: "a < 65536 \<Longrightarrow> b < 65536 \<Longrightarrow> (of_nat a :: u64) = of_nat b \<longleftrightarrow> a = b"
  by (auto dest: arg_cong [of _ _ unat] simp: unat_of_nat_small)

lemma sectors_of_write:
  assumes "sec < 65536" and "content (dev p') = (content (dev p))(of_nat sec := m)"
  shows "sectors_of content p' = (sectors_of content p)(sec := mem_read m 0 512)"
  using assms by (intro ext) (auto simp: sectors_of_def of_nat_sector_inj)

lemma vb_status_daemon:
  assumes "req \<in> set pkg_reqs" and "sec < 65536"
  shows "vb_status (daemon_vblk dv up sent) req sec inp s =
     (if \<not> up s then (SYS_DENIED, s)
      else let s' = (case inp of None \<Rightarrow> s | Some bs \<Rightarrow> prepare_virtio_input_bytes bs s) in
        if \<not> sent s' then (IPC_STATUS_UNAVAILABLE, s')
        else case pkg_request dv req (pkg_arg req sec) s' of Some (st, s) \<Rightarrow> (take_bit 8 st, s) | None \<Rightarrow> (IPC_STATUS_FAULTED, s))"
  by (simp add: daemon_vblk_def sector_status_pkg [OF assms] Let_def split: option.splits)

lemma daemon_read:
  assumes dv: "block_device dv content" and ok: "pkg_read_ok req sec"
    and st: "vb_status (daemon_vblk dv up sent) req sec None p = (st, p')"
  shows "sectors_of content p' = sectors_of content p \<and>
    (st = IPC_STATUS_OK \<longrightarrow> vb_output (daemon_vblk dv up sent) p' = sectors_of content p sec)"
proof -
  obtain io q where rw: "rw dv (of_nat sec) False p = (io, q)" by fastforce
  note rd = rw_read [OF dv rw]
  have cases: "p' = p \<and> st \<noteq> IPC_STATUS_OK \<or> p' = q \<and> st = take_bit 8 (status_from_io io)"
    using st pkg_request_read(1) [OF ok, of dv p] pkg_request_read(2,3) [OF ok] refusal_status
    by (auto simp: vb_status_daemon rw split: if_splits)
  moreover have "sectors_of content q = sectors_of content p" using rd by (intro ext) (simp add: sectors_of_def)
  moreover have "io = 0 \<Longrightarrow> mem_read (data q) 0 512 = mem_read (content (dev p) (of_nat sec)) 0 512"
    using rd mem_read_as_sector [of "data q" _ 0 512] by auto
  ultimately show ?thesis using pkg_request_read(3) [OF ok]
    by (auto simp: daemon_vblk_def read_virtio_output_sector_def sectors_of_def status_bits)
qed

lemma daemon_write:
  assumes dv: "block_device dv content" and ok: "pkg_write_ok req sec" and len: "length bs \<le> 512"
    and st: "vb_status (daemon_vblk dv up sent) req sec (Some bs) p = (st, p')"
  shows "sectors_of content p' = (sectors_of content p)(sec := zero_padded 512 bs) \<or>
    st \<noteq> IPC_STATUS_OK \<and> sectors_of content p' = sectors_of content p"
proof -
  let ?s = "prepare_virtio_input_bytes bs p"
  obtain io q where rw: "rw dv (of_nat sec) True (copy_input SECTOR_SIZE ?s) = (io, q)" by fastforce
  have same: "sectors_of content ?s = sectors_of content p" by (intro ext) (simp add: sectors_of_def)
  have cases: "(p' = p \<or> p' = ?s) \<and> st \<noteq> IPC_STATUS_OK \<or> p' = q \<and> st = take_bit 8 (status_from_io io)"
    using st pkg_request_write(1) [OF ok, of dv ?s] pkg_request_write(2,3) [OF ok] refusal_status
    by (auto simp: vb_status_daemon rw Let_def split: if_splits)
  have "content (dev q) = (content (dev p))(of_nat sec := sector_of (data (copy_input SECTOR_SIZE ?s))) \<or>
      io \<noteq> 0 \<and> content (dev q) = content (dev p)"
    using rw_write [OF dv rw] by simp
  then have "sectors_of content q = (sectors_of content p)(sec := zero_padded 512 bs) \<or>
      io \<noteq> 0 \<and> sectors_of content q = sectors_of content p"
    using sectors_of_write [OF pkg_request_write(3) [OF ok], of content q p] staged_sector [OF len, of p]
    by (auto simp: sectors_of_def intro!: ext)
  with cases same show ?thesis by (auto simp: status_bits)
qed

lemma marker_request:
  "pkg_request dv REQ_PKG_STORE_INIT (pkg_arg REQ_PKG_STORE_INIT PKG_MARKER_SECTOR) s =
     Some (map_prod status_from_io id (rw dv (of_nat PKG_MARKER_SECTOR) True
       (set_data (bytes ''DEZHPKGS v0 slots=8 registry=25..31 blob=64..575 slot_sectors=64'') s)))"
  "REQ_PKG_STORE_INIT \<in> set pkg_reqs"
  by (simp_all add: pkg_request_def pkg_reqs_def split_beta map_prod_def PKG_STORE_MARKER_SECTOR_def PKG_MARKER_SECTOR_def)

lemma daemon_marker:
  assumes dv: "block_device dv content"
    and st: "vb_status (daemon_vblk dv up sent) REQ_PKG_STORE_INIT PKG_MARKER_SECTOR None p = (st, p')"
  shows "\<exists>m. length m = 512 \<and> sectors_of content p' = (sectors_of content p)(PKG_MARKER_SECTOR := m)"
proof -
  let ?s = "set_data (bytes ''DEZHPKGS v0 slots=8 registry=25..31 blob=64..575 slot_sectors=64'') p"
  have sec: "PKG_MARKER_SECTOR < 65536" by (simp add: PKG_MARKER_SECTOR_def)
  obtain io q where rw: "rw dv (of_nat PKG_MARKER_SECTOR) True ?s = (io, q)" by fastforce
  have cases: "p' = p \<or> p' = q"
    using st unfolding vb_status_daemon [OF marker_request(2) sec] marker_request(1)
    by (auto simp: rw split: if_splits)
  have "content (dev q) = (content (dev p))(of_nat PKG_MARKER_SECTOR := sector_of (data ?s)) \<or>
      content (dev q) = content (dev p)"
    using rw_write [OF dv rw] by auto
  then have "sectors_of content q = (sectors_of content p)(PKG_MARKER_SECTOR := mem_read (sector_of (data ?s)) 0 512) \<or>
      sectors_of content q = sectors_of content p"
    using sectors_of_write [OF sec, of content q p] by (auto simp: sectors_of_def [abs_def])
  moreover have len: "length (sectors_of content p sec) = 512" for sec by (simp add: sectors_of_def)
  ultimately consider "sectors_of content p' = sectors_of content p"
    | "sectors_of content p' = (sectors_of content p)(PKG_MARKER_SECTOR := mem_read (sector_of (data ?s)) 0 512)"
    using cases by blast
  then show ?thesis
  proof cases
    case 1
    then show ?thesis using len by (intro exI [of _ "sectors_of content p PKG_MARKER_SECTOR"]) simp
  next
    case 2
    then show ?thesis by (intro exI conjI) (rule length_mem_read)
  qed
qed

lemma daemon_sector_service:
  assumes "block_device dv content"
  shows "sector_service (daemon_vblk dv up sent) (sectors_of content)"
  by unfold_locales
    (simp add: sectors_of_def, rule daemon_read [OF assms], assumption+, rule daemon_write [OF assms], assumption+,
     rule daemon_marker [OF assms])

lemma daemon_reliable_service:
  assumes dv: "block_device dv content" and "reliable dv"
  shows "reliable_service (daemon_vblk dv (\<lambda>_. True) (\<lambda>_. True)) (sectors_of content)"
proof (intro reliable_service.intro reliable_service_axioms.intro daemon_sector_service [OF dv])
  have io: "fst (rw dv sec w s) = 0" for sec w s using reliable_rw [OF assms(2)] by (metis prod.collapse)
  fix req sec bs and p :: "'a blk"
  show "pkg_read_ok req sec \<Longrightarrow> fst (vb_status (daemon_vblk dv (\<lambda>_. True) (\<lambda>_. True)) req sec None p) = IPC_STATUS_OK"
    by (simp add: vb_status_daemon pkg_request_read split_beta io status_bits)
  show "pkg_write_ok req sec \<Longrightarrow> fst (vb_status (daemon_vblk dv (\<lambda>_. True) (\<lambda>_. True)) req sec (Some bs) p) = IPC_STATUS_OK"
    by (simp add: vb_status_daemon pkg_request_write split_beta io status_bits)
  show "fst (vb_status (daemon_vblk dv (\<lambda>_. True) (\<lambda>_. True)) REQ_PKG_STORE_INIT PKG_MARKER_SECTOR None p) = IPC_STATUS_OK"
    by (subst vb_status_daemon) (simp_all add: marker_request split_beta io status_bits PKG_MARKER_SECTOR_def
        marker_request(1) [unfolded PKG_MARKER_SECTOR_def])
qed

interpretation pkg_ram: sector_service "daemon_vblk ramdisk_io (\<lambda>_. True) (\<lambda>_. True)" "sectors_of ramdisk_content"
  by (rule daemon_sector_service [OF ramdisk_block_device])

interpretation pkg_plain: reliable_service "daemon_vblk plain_disk_io (\<lambda>_. True) (\<lambda>_. True)" "sectors_of plain_content"
  by (rule daemon_reliable_service [OF plain_disk_block_device plain_disk_reliable])

end
