(* ===== verification/Pkg_Load.thy ===== *)
theory Pkg_Load
  imports Pkg Pkg_Service
begin

text \<open>
  Loading the package store: whatever the disk holds and whatever requests fail, a package that
  is in the runtime table afterwards is one whose bytes on the disk passed every check, and it
  runs with the payload, the name and the capabilities of those bytes.
\<close>

unbundle bit_operations_syntax

section \<open>Text taken from a manifest\<close>

lemma split_once_set: "split_once c s = Some (a, b) \<Longrightarrow> set a \<subseteq> set s \<and> set b \<subseteq> set s"
  by (drule split_once_sound) auto

lemma trim_set: "set (trim s) \<subseteq> set s"
  by (auto simp: trim_def trim_by_def dest!: set_dropWhileD)

lemma str_lines_set: "l \<in> set (str_lines s) \<Longrightarrow> set l \<subseteq> set s"
proof (induction s rule: str_lines.induct)
  case (1 s)
  show ?case
  proof (cases "s = [] \<or> split_once 10 s = None")
    case True
    then show ?thesis using 1(2) by (subst (asm) str_lines.simps) (auto split: if_splits)
  next
    case False
    then obtain a b where ab: "split_once 10 s = Some (a, b)" by auto
    have "l = (case strip_suffix 13 a of None \<Rightarrow> a | Some l' \<Rightarrow> l') \<or> l \<in> set (str_lines b)"
      using 1(2) ab False by (subst (asm) str_lines.simps) auto
    then show ?thesis
    proof
      assume "l \<in> set (str_lines b)"
      then show ?thesis using 1(1) [OF _ ab refl] False split_once_set [OF ab] by blast
    next
      assume "l = (case strip_suffix 13 a of None \<Rightarrow> a | Some l' \<Rightarrow> l')"
      then show ?thesis using split_once_set [OF ab]
        by (auto simp: strip_suffix_def split: option.splits if_splits dest: in_set_butlastD)
    qed
  qed
qed

lemma manifest_values_set: "v \<in> set (manifest_values key ls) \<Longrightarrow> \<exists>l \<in> set ls. set v \<subseteq> set l"
proof (induction ls)
  case (Cons line ls)
  show ?case
  proof (cases "v \<in> set (manifest_values key ls)")
    case True
    then show ?thesis using Cons.IH by auto
  next
    case False
    then obtain k w where "split_once 61 (trim line) = Some (k, w)" "v = trim w"
      using Cons.prems by (auto simp: Let_def split: if_splits option.splits)
    then have "set v \<subseteq> set line" using split_once_set trim_set by blast
    then show ?thesis by auto
  qed
qed simp

lemma manifest_str_valid:
  assumes "manifest_str m key = Some v" and "valid_str m"
  shows "valid_str v"
proof -
  obtain w rest inner where "manifest_values key (str_lines m) = w # rest" "strip_prefix 34 w = Some inner"
    "map_option fst (split_once 34 inner) = Some v"
    using assms(1) by (auto simp: manifest_str_def split: list.splits Option.bind_splits)
  moreover then have "set w \<subseteq> set m" using manifest_values_set [of w key "str_lines m"] str_lines_set by force
  moreover have "set inner \<subseteq> set w" using calculation(2) by (auto simp: strip_prefix_def split: list.splits if_splits)
  moreover have "set v \<subseteq> set inner" using calculation(3) split_once_set by fastforce
  ultimately show ?thesis using assms(2) by (auto simp: valid_str_def list_all_iff)
qed

lemma parse_valid: "parse bs = Ok pkg \<Longrightarrow> valid_str (pkg_manifest pkg)"
  by (auto simp: parse_def Let_def from_utf8_exact split: if_splits option.splits)

lemma valid_lit: "valid_str (lit ''0.0.0'')"
  by (simp add: valid_str_def lit_def scalar_def)

lemma checked_valid:
  assumes "checked_package bs = Some (pkg, name, version, mcaps)"
  shows "valid_str name" "valid_str version" "parse bs = Ok pkg" "verify_payload pkg"
    "manifest_str (pkg_manifest pkg) (lit ''name'') = Some name" "parse_mcaps (pkg_manifest pkg) = Ok mcaps"
proof -
  show parts: "parse bs = Ok pkg" "verify_payload pkg"
    "manifest_str (pkg_manifest pkg) (lit ''name'') = Some name" "parse_mcaps (pkg_manifest pkg) = Ok mcaps"
    using assms by (auto simp: checked_package_def split: outcome.splits option.splits if_splits)
  show "valid_str name" using parts parse_valid manifest_str_valid by blast
  have "version = manifest_version (pkg_manifest pkg)"
    using assms by (auto simp: checked_package_def split: outcome.splits option.splits if_splits)
  then show "valid_str version" using parts(1) parse_valid manifest_str_valid valid_lit
    by (auto simp: manifest_version_def split: option.splits)
qed

lemma stored_name:
  assumes "valid_str name" and "str_len name \<le> NAME_MAX"
  shows "str_or d (take (unat (of_nat (str_len name) :: u8)) (zero_padded NAME_MAX (as_bytes name))) = name"
proof -
  have "unat (of_nat (str_len name) :: u8) = length (as_bytes name)"
    using assms(2) by (simp add: str_len_def NAME_MAX_def unat_of_nat_small)
  then show ?thesis using assms take_zero_padded [of "as_bytes name" NAME_MAX] from_utf8_as_bytes
    by (simp add: str_or_def str_len_def)
qed

section \<open>Requests leave the runtime table alone\<close>

lemma write_run_PKGS [simp]: "PKGS (snd (write_run vb req base cs s)) = PKGS s"
  by (induction cs arbitrary: base s) (auto simp: write_sector_def split: prod.splits)

lemma read_run_PKGS [simp]: "PKGS (snd (snd (read_run vb req base n s))) = PKGS s"
proof (induction n arbitrary: base s)
  case (Suc n)
  have "PKGS (snd (read_sector vb req base s)) = PKGS s" by (simp add: read_sector_def split_beta Let_def)
  then show ?case using Suc [of "Suc base" "snd (read_sector vb req base s)"] by (simp add: split_beta Let_def split: option.splits)
qed simp

lemma both_PKGS [simp]:
  "(\<And>s. PKGS (snd (f s)) = PKGS s) \<Longrightarrow> (\<And>s. PKGS (snd (g s)) = PKGS s) \<Longrightarrow> PKGS (snd (both f g s)) = PKGS s"
  by (simp add: both_def split_beta)

lemma requests_PKGS [simp]:
  "PKGS (snd (write_registry vb s)) = PKGS s" "PKGS (snd (init_store_marker vb s)) = PKGS s"
  "PKGS (snd (write_journal_raw vb m s)) = PKGS s" "PKGS (snd (clear_journal vb s)) = PKGS s"
  "PKGS (snd (write_blob_at vb base raw s)) = PKGS s" "PKGS (update_registry f s) = PKGS s"
  "PKGS (snd (commit_store vb s)) = PKGS s"
  by (simp_all add: write_registry_def init_store_marker_def write_journal_raw_def clear_journal_def write_blob_at_def
      update_registry_def commit_store_def split: prod.splits)

lemma reads_PKGS [simp]:
  "PKGS (snd (read_registry vb s)) = PKGS s" "PKGS (snd (read_journal_raw vb s)) = PKGS s"
  "PKGS (snd (read_blob_area_into_stage vb base n s)) = PKGS s"
  using read_run_PKGS [of vb REQ_PKG_REGISTRY_READ PKG_REGISTRY_SECTOR PKG_REGISTRY_SECTORS_USED s]
    read_run_PKGS [of vb REQ_PKG_JOURNAL_READ PKG_JOURNAL_SECTOR JOURNAL_SECTORS s]
    read_run_PKGS [of vb REQ_PKG_BLOB_READ base "div_ceil n 512" s]
  by (auto simp: read_registry_def read_journal_raw_def read_blob_area_into_stage_def simp del: read_run_PKGS split: prod.splits)

lemma verify_PKGS [simp]:
  "PKGS (snd (verify_slot_blob vb rec s)) = PKGS s" "PKGS (snd (verify_stage_blob vb rec s)) = PKGS s"
proof -
  have "PKGS (snd (verify_blob_record_at vb base rec s)) = PKGS s" for base
    using reads_PKGS(3) [of vb base "j_raw_len rec" s]
    by (auto simp: verify_blob_record_at_def Let_def simp del: reads_PKGS split: prod.splits option.splits)
  then show "PKGS (snd (verify_slot_blob vb rec s)) = PKGS s" "PKGS (snd (verify_stage_blob vb rec s)) = PKGS s"
    by (simp_all add: verify_slot_blob_def verify_stage_blob_def)
qed

lemma copy_PKGS [simp]: "PKGS (snd (copy_blob_area vb a b n s)) = PKGS s"
  using reads_PKGS(3) [of vb a n s]
  by (auto simp: copy_blob_area_def Let_def simp del: reads_PKGS split: prod.splits)

lemma replay_PKGS:
  "PKGS (replay_pending vb rec s) = PKGS s" "PKGS (snd (replay_rollback vb rec s)) = PKGS s"
proof -
  show "PKGS (replay_pending vb rec s) = PKGS s"
    by (simp add: replay_pending_def Let_def split_beta)
  show "PKGS (snd (replay_rollback vb rec s)) = PKGS s"
    by (simp add: replay_rollback_def read_previous_blob_into_stage_def Let_def split_beta)
qed

text \<open>Recovery keeps the table or empties it.\<close>

lemma recover_PKGS:
  assumes "PKGS s = replicate MAX_PKGS EMPTY_PKG"
  shows "PKGS (snd (recover_from_journal vb manual s)) = replicate MAX_PKGS EMPTY_PKG"
proof -
  have deg: "PKGS (set_degraded v s) = (if v then replicate MAX_PKGS EMPTY_PKG else PKGS s)" "PKGS (invalidate_loaded s) = PKGS s"
    for v and s :: "'a pkgs"
    by (simp_all add: set_degraded_def clear_runtime_registry_def invalidate_loaded_def)
  have replay: "PKGS (snd (replay_journal vb rec s)) \<in> {PKGS s, replicate MAX_PKGS EMPTY_PKG}" for rec s
    by (simp add: replay_journal_def deg replay_PKGS Let_def split_beta)
  have "PKGS (snd (both (replay_journal vb rec) (commit_store vb) s)) \<in> {PKGS s, replicate MAX_PKGS EMPTY_PKG}" for rec s
    using replay [of rec s] by (simp add: both_def split_beta)
  then show ?thesis using assms
    by (auto simp: recover_from_journal_def deg Let_def split_beta split: option.splits JournalState.splits)
       (metis reads_PKGS(2))+
qed

section \<open>The invariant of loading\<close>

text \<open>What is known of a runtime entry, given the sectors of the blobs.\<close>

definition verified_entry :: "disk \<Rightarrow> 'd pkgs \<Rightarrow> nat \<Rightarrow> bool" where
  "verified_entry D s k \<longleftrightarrow>
     (\<exists>raw pkg name version mcaps. raw = blob_of D (slot_blob_sector k) (length raw) \<and>
        checked_package raw = Some (pkg, name, version, mcaps) \<and>
        pkg_entry_name (PKGS s ! k) = name \<and> e_kind (PKGS s ! k) = pkg_kind pkg \<and> e_mcaps (PKGS s ! k) = mcaps \<and>
        entry_payload s (PKGS s ! k) = pkg_payload pkg \<and> entry_state (REGISTRY s) k = STATE_ACTIVE)"

definition load_inv :: "disk \<Rightarrow> nat \<Rightarrow> 'd pkgs \<Rightarrow> bool" where
  "load_inv D n s \<longleftrightarrow> length (PKGS s) = MAX_PKGS \<and> ARENA_USED s \<le> ARENA_SIZE \<and>
     (\<forall>k < MAX_PKGS. e_used (PKGS s ! k) \<longrightarrow> k < n \<and> verified_entry D s k \<and>
        unat (e_off (PKGS s ! k)) + unat (e_len (PKGS s ! k)) \<le> ARENA_USED s)"

lemma verified_entry_cong:
  assumes "PKGS s' ! k = PKGS s ! k" and "entry_state (REGISTRY s') k = entry_state (REGISTRY s) k"
    and "\<And>i. i < unat (e_off (PKGS s ! k)) + unat (e_len (PKGS s ! k)) \<Longrightarrow> ARENA s' i = ARENA s i"
  shows "verified_entry D s' k = verified_entry D s k"
proof -
  have "entry_payload s' (PKGS s ! k) = entry_payload s (PKGS s ! k)"
    using assms(3) by (auto simp: entry_payload_def intro!: mem_read_cong)
  then show ?thesis using assms by (simp add: verified_entry_def)
qed

lemma load_inv_registry:
  assumes "load_inv D n s" and "s' = s\<lparr> port := p, REGISTRY := r, STAGE := st \<rparr>"
    and "\<And>k. k < n \<Longrightarrow> r (k * ENTRY_SIZE) = REGISTRY s (k * ENTRY_SIZE)" and "n \<le> m"
  shows "load_inv D m s'"
  unfolding load_inv_def
proof (intro conjI allI impI)
  fix k assume k: "k < MAX_PKGS" and used: "e_used (PKGS s' ! k)"
  then have old: "k < n" "verified_entry D s k" "unat (e_off (PKGS s ! k)) + unat (e_len (PKGS s ! k)) \<le> ARENA_USED s"
    using assms(1,2) by (auto simp: load_inv_def)
  then show "k < m" using assms(4) by simp
  show "verified_entry D s' k" using verified_entry_cong [of s' k s D] old assms(2,3) by (simp add: entry_state_def)
  show "unat (e_off (PKGS s' ! k)) + unat (e_len (PKGS s' ! k)) \<le> ARENA_USED s'" using old assms(2) by simp
qed (use assms(1,2) in \<open>auto simp: load_inv_def\<close>)

context sector_service
begin

text \<open>The blob sectors, which loading never writes.\<close>

definition blobs :: "'d \<Rightarrow> disk" where
  "blobs p = (\<lambda>sec. if sec \<ge> 64 then content p sec else [])"

lemma blobs_cong: "content p = content q \<Longrightarrow> blobs p = blobs q"
  by (simp only: blobs_def)

lemma blob_of_blobs: "64 \<le> base \<Longrightarrow> blob_of (blobs p) base n = blob_of (content p) base n"
  by (rule blob_of_cong) (simp add: blobs_def)

lemma write_registry_frame:
  assumes "write_registry vb s = (ok, s')"
  shows "\<exists>p. s' = s\<lparr> port := p \<rparr> \<and> (\<forall>sec. sec \<noteq> 25 \<and> sec \<noteq> 26 \<longrightarrow> content p sec = content (port s) sec)"
proof -
  let ?cs = "[mem_read (REGISTRY s) 0 512, mem_read (REGISTRY s) 512 512]"
  have "\<forall>i < length ?cs. pkg_write_ok REQ_PKG_REGISTRY_WRITE (25 + i)" "\<forall>c \<in> set ?cs. length c \<le> 512"
    by (auto simp: pkg_write_ok_def)
  from write_run_spec [OF assms [unfolded write_registry_def registry_chunks PKG_REGISTRY_SECTOR_def] this]
  obtain p k where "s' = s\<lparr> port := p \<rparr>" "k \<le> length ?cs" "content p = overwrite (content (port s)) 25 (take k ?cs)" by blast
  then show ?thesis by (intro exI [of _ p]) (auto simp: overwrite_def)
qed

lemma mark_corrupt_frame:
  "\<exists>p r. mark_corrupt vb slot s = s\<lparr> port := p, REGISTRY := r \<rparr> \<and> blobs p = blobs (port s) \<and>
     (\<forall>i. i \<noteq> slot * ENTRY_SIZE \<longrightarrow> r i = REGISTRY s i)"
proof (cases "REGISTRY s (slot * ENTRY_SIZE) = STATE_ACTIVE")
  case True
  let ?s = "update_registry (set_entry_state slot STATE_CORRUPT) s"
  obtain p where p: "snd (write_registry vb ?s) = ?s\<lparr> port := p \<rparr>"
    "\<forall>sec. sec \<noteq> 25 \<and> sec \<noteq> 26 \<longrightarrow> content p sec = content (port ?s) sec"
    using write_registry_frame [of ?s "fst (write_registry vb ?s)" "snd (write_registry vb ?s)"] by auto
  then show ?thesis using True
    by (intro exI [of _ p] exI [of _ "set_entry_state slot STATE_CORRUPT (REGISTRY s)"])
      (auto simp: mark_corrupt_def update_registry_def blobs_def set_entry_state_def ENTRY_SIZE_def)
next
  case False
  then show ?thesis by (intro exI [of _ "port s"] exI [of _ "REGISTRY s"]) (simp add: mark_corrupt_def)
qed

lemma load_inv_mark_corrupt:
  assumes "load_inv D slot s" and "blobs (port s) = D"
  shows "load_inv D (Suc slot) (mark_corrupt vb slot s) \<and> blobs (port (mark_corrupt vb slot s)) = D"
proof -
  obtain p r where c: "mark_corrupt vb slot s = s\<lparr> port := p, REGISTRY := r \<rparr>" "blobs p = blobs (port s)"
    "\<forall>i. i \<noteq> slot * ENTRY_SIZE \<longrightarrow> r i = REGISTRY s i"
    using mark_corrupt_frame by blast
  have "load_inv D (Suc slot) (mark_corrupt vb slot s)"
    by (rule load_inv_registry [OF assms(1), where p = p and r = r and st = "STAGE s"]) (use c in \<open>auto simp: ENTRY_SIZE_def\<close>)
  then show ?thesis using c assms(2) by simp
qed

lemma load_inv_install:
  assumes inv: "load_inv D slot s" and slot: "slot < MAX_PKGS" and D: "blobs (port s) = D"
    and raw: "raw = blob_of D (slot_blob_sector slot) (length raw)"
    and chk: "checked_package raw = Some (pkg, name, version, mcaps)" and len: "str_len name \<le> NAME_MAX"
    and act: "REGISTRY s (slot * ENTRY_SIZE) = STATE_ACTIVE"
    and run: "install_runtime_entry slot name version (pkg_kind pkg) mcaps n crc (pkg_payload pkg) s = (True, s')"
  shows "load_inv D (Suc slot) s' \<and> blobs (port s') = D"
proof -
  let ?pl = "pkg_payload pkg"
  have fits: "ARENA_USED s + length ?pl \<le> ARENA_SIZE"
    using run by (auto simp: install_runtime_entry_def Let_def split: if_splits)
  obtain e where s': "s' = s\<lparr> ARENA := mem_write (ARENA s) (ARENA_USED s) ?pl,
      PKGS := (PKGS s)[slot := e], ARENA_USED := ARENA_USED s + length ?pl \<rparr>"
    and e: "e_off e = of_nat (ARENA_USED s)" "e_len e = of_nat (length ?pl)" "e_kind e = pkg_kind pkg" "e_mcaps e = mcaps"
      "e_name e = zero_padded NAME_MAX (as_bytes name)" "e_name_len e = of_nat (str_len name)"
    using run by (auto simp: install_runtime_entry_def Let_def split: if_splits)
  have proj: "PKGS s' = (PKGS s)[slot := e]" "ARENA_USED s' = ARENA_USED s + length ?pl" "REGISTRY s' = REGISTRY s"
    "ARENA s' = mem_write (ARENA s) (ARENA_USED s) ?pl" "port s' = port s"
    by (simp_all add: s')
  have slot': "slot < length (PKGS s)" "length (PKGS s) = MAX_PKGS" "ARENA_USED s \<le> ARENA_SIZE" using inv slot by (auto simp: load_inv_def)
  have nums: "unat (e_off e) = ARENA_USED s" "unat (e_len e) = length ?pl"
    using fits e(1,2) by (simp_all add: ARENA_SIZE_def unat_of_nat_small)
  have name: "pkg_entry_name e = name"
    using stored_name [OF checked_valid(1) [OF chk] len] by (simp add: pkg_entry_name_def e)
  have pay: "entry_payload s' e = ?pl" by (simp add: entry_payload_def nums proj mem_read_write_same)
  have at: "PKGS s' ! slot = e" using slot' by (simp add: proj)
  have new: "verified_entry D s' slot"
    unfolding verified_entry_def at entry_state_def proj(3)
    by (intro exI conjI) (rule raw chk name pay act e)+
  have "k < Suc slot \<and> verified_entry D s' k \<and> unat (e_off (PKGS s' ! k)) + unat (e_len (PKGS s' ! k)) \<le> ARENA_USED s'"
    if k: "k < MAX_PKGS" and used: "e_used (PKGS s' ! k)" for k
  proof (cases "k = slot")
    case True
    then show ?thesis using new nums at by (simp add: proj(2))
  next
    case False
    have same: "PKGS s' ! k = PKGS s ! k" using False by (simp add: proj)
    then have old: "k < slot" "verified_entry D s k" "unat (e_off (PKGS s ! k)) + unat (e_len (PKGS s ! k)) \<le> ARENA_USED s"
      using inv k used by (auto simp: load_inv_def)
    have "verified_entry D s' k = verified_entry D s k"
      by (rule verified_entry_cong [OF same]) (use old(3) in \<open>simp_all add: proj mem_write_outside\<close>)
    then show ?thesis using old same by (simp add: proj(2))
  qed
  moreover have "length (PKGS s') = MAX_PKGS" "ARENA_USED s' \<le> ARENA_SIZE" using slot' fits by (simp_all add: proj)
  ultimately show ?thesis using D by (simp add: load_inv_def proj(5))
qed

lemma load_slot_step:
  assumes "REGISTRY s (slot * ENTRY_SIZE) = STATE_ACTIVE" "mem_read (REGISTRY s) (slot * ENTRY_SIZE + 1) 4 = REG_MAGIC"
    and "n = unat (get_u32 (REGISTRY s) (slot * ENTRY_SIZE + 12))" "n \<noteq> 0" "n \<le> PKG_MAX_RAW_BYTES"
    and "read_blob_into_stage vb slot n s = (ok, q)" and "crc = get_u32 (REGISTRY s) (slot * ENTRY_SIZE + 16)"
    and "bs = mem_read (STAGE q) 0 n"
  shows "load_slot vb slot s =
    (if \<not> ok \<or> checksum bs \<noteq> crc then mark_corrupt vb slot q
     else case checked_package bs of None \<Rightarrow> mark_corrupt vb slot q
       | Some (pkg, name, version, mcaps) \<Rightarrow> if str_len name > NAME_MAX \<or> str_len version > VER_MAX then mark_corrupt vb slot q
         else let (ok, s) = install_runtime_entry slot name version (pkg_kind pkg) mcaps n crc (pkg_payload pkg) q in
           if ok then s else mark_corrupt vb slot s)"
  using assms(1,2,4,5,6) unfolding load_slot_def Let_def assms(3,7,8) by simp

lemma load_slot_inv:
  assumes inv: "load_inv D slot s" and D: "blobs (port s) = D" and slot: "slot < MAX_PKGS"
  shows "load_inv D (Suc slot) (load_slot vb slot s) \<and> blobs (port (load_slot vb slot s)) = D"
proof -
  let ?reg = "REGISTRY s" and ?e = "slot * ENTRY_SIZE"
  let ?len = "unat (get_u32 ?reg (?e + 12))"
  have skip: "load_inv D (Suc slot) s \<and> blobs (port s) = D"
    using load_inv_registry [OF inv, where s' = s and p = "port s" and r = "REGISTRY s" and st = "STAGE s" and m = "Suc slot"] D by simp
  have bad: "load_inv D (Suc slot) (mark_corrupt vb slot s) \<and> blobs (port (mark_corrupt vb slot s)) = D"
    by (rule load_inv_mark_corrupt [OF inv D])
  show ?thesis
  proof (cases "?reg ?e \<noteq> STATE_ACTIVE \<or> mem_read ?reg (?e + 1) 4 \<noteq> REG_MAGIC \<or> ?len = 0 \<or> ?len > PKG_MAX_RAW_BYTES")
    case True
    then show ?thesis using skip bad by (auto simp: load_slot_def Let_def)
  next
    case False
    obtain ok q where run: "read_blob_into_stage vb slot ?len s = (ok, q)" by fastforce
    obtain p st where q: "q = s\<lparr> port := p, STAGE := st \<rparr>" "content p = content (port s)"
      "ok \<longrightarrow> mem_read st 0 ?len = blob_of (content (port s)) (slot_blob_sector slot) ?len"
      using read_blob_effect [OF run [unfolded read_blob_into_stage_def]] slot
      by (auto simp: slot_blob_sector_def size_defs)
    have "blobs p = blobs (port s)" using q(2) by (rule blobs_cong)
    then have qD: "blobs (port q) = D" using q(1) D by simp
    have qinv: "load_inv D slot q" by (rule load_inv_registry [OF inv, where p = p and r = "REGISTRY s" and st = st]) (simp_all add: q(1))
    have qbad: "load_inv D (Suc slot) (mark_corrupt vb slot q) \<and> blobs (port (mark_corrupt vb slot q)) = D"
      by (rule load_inv_mark_corrupt [OF qinv qD])
    let ?bs = "mem_read (STAGE q) 0 ?len"
    have "?reg ?e = STATE_ACTIVE" "mem_read ?reg (?e + 1) 4 = REG_MAGIC" "?len \<noteq> 0" "?len \<le> PKG_MAX_RAW_BYTES"
      using False by auto
    note step = load_slot_step [OF this(1,2) refl this(3,4) run refl refl]
    show ?thesis
    proof (cases "ok \<and> checksum ?bs = get_u32 ?reg (?e + 16)")
      case False
      then have "load_slot vb slot s = mark_corrupt vb slot q" unfolding step by auto
      then show ?thesis using qbad by simp
    next
      case good: True
      have "?bs = blob_of (content (port s)) (slot_blob_sector slot) ?len" using good q by simp
      also have "\<dots> = blob_of D (slot_blob_sector slot) ?len"
        unfolding D [symmetric] by (rule blob_of_blobs [symmetric]) (simp add: slot_blob_sector_def size_defs)
      finally have raw: "?bs = blob_of D (slot_blob_sector slot) (length ?bs)" unfolding length_mem_read .
      show ?thesis
      proof (cases "checked_package ?bs")
        case None
        then have "load_slot vb slot s = mark_corrupt vb slot q" unfolding step None using good by auto
        then show ?thesis using qbad by simp
      next
        case (Some t)
        obtain pkg name version mcaps where t: "t = (pkg, name, version, mcaps)" by (cases t)
        obtain b r where ins: "install_runtime_entry slot name version (pkg_kind pkg) mcaps ?len (get_u32 ?reg (?e + 16)) (pkg_payload pkg) q = (b, r)"
          by fastforce
        consider "str_len name > NAME_MAX \<or> str_len version > VER_MAX" | "str_len name \<le> NAME_MAX" "str_len version \<le> VER_MAX" "\<not> b"
          | "str_len name \<le> NAME_MAX" "str_len version \<le> VER_MAX" "b" using leI by blast
        then show ?thesis
        proof cases
          case 1
          then have "load_slot vb slot s = mark_corrupt vb slot q" unfolding step Some t using good by auto
          then show ?thesis using qbad by simp
        next
          case 2
          have "r = q" using ins 2(3) by (auto simp: install_runtime_entry_def Let_def split: if_splits)
          then have "load_slot vb slot s = mark_corrupt vb slot q" unfolding step Some t using good ins 2 by simp
          then show ?thesis using qbad by simp
        next
          case 3
          have "load_slot vb slot s = r" unfolding step Some t using good ins 3 by simp
          moreover have "load_inv D (Suc slot) r \<and> blobs (port r) = D"
            by (rule load_inv_install [OF qinv slot qD raw Some [unfolded t] 3(1)])
              (use False ins 3 q(1) in auto)
          ultimately show ?thesis by simp
        qed
      qed
    qed
  qed
qed

lemma load_slots_inv:
  assumes "load_inv D 0 s" and "blobs (port s) = D" and "n \<le> MAX_PKGS"
  shows "load_inv D n (fold (load_slot vb) [0..<n] s) \<and> blobs (port (fold (load_slot vb) [0..<n] s)) = D"
  using assms(3)
proof (induction n)
  case (Suc n)
  then show ?case using load_slot_inv [of D n "fold (load_slot vb) [0..<n] s"] by simp
qed (use assms in simp)

lemma load_inv_cleared: "load_inv D 0 (clear_runtime_registry s)"
  by (auto simp: load_inv_def clear_runtime_registry_def EMPTY_PKG_def)

lemma load_verified:
  assumes "k < MAX_PKGS" and s': "s' = fold (load_slot vb) [0..<MAX_PKGS] (clear_runtime_registry q)" and "e_used (PKGS s' ! k)"
  shows "verified_entry (content (port s')) s' k"
proof -
  let ?D = "blobs (port (clear_runtime_registry q))"
  have inv: "load_inv ?D MAX_PKGS s'" and D: "blobs (port s') = ?D"
    using load_slots_inv [OF load_inv_cleared refl order_refl] s' by blast+
  then have "verified_entry ?D s' k" using assms by (auto simp: load_inv_def)
  moreover have "blob_of ?D (slot_blob_sector k) n = blob_of (content (port s')) (slot_blob_sector k) n" for n
    unfolding D [symmetric] by (rule blob_of_blobs) (simp add: slot_blob_sector_def size_defs)
  ultimately show ?thesis by (simp add: verified_entry_def)
qed

lemma ensure_loaded_verified:
  assumes s': "s' = snd (ensure_loaded vb s)" and fresh: "\<not> STORE_LOADED s" "PKGS s = replicate MAX_PKGS EMPTY_PKG"
    and k: "k < MAX_PKGS" and used: "e_used (PKGS s' ! k)"
  shows "verified_entry (content (port s')) s' k"
proof -
  have empty: "\<not> e_used (replicate MAX_PKGS EMPTY_PKG ! k)" using k by (simp add: EMPTY_PKG_def)
  let ?a = "snd (read_registry vb s)" let ?b = "snd (recover_from_journal vb False ?a)" let ?c = "snd (read_registry vb ?b)"
  have b: "PKGS ?b = replicate MAX_PKGS EMPTY_PKG" by (rule recover_PKGS) (simp add: fresh)
  have "s' = ?a \<or> s' = ?b \<or> s' = ?c \<or>
      s' = (fold (load_slot vb) [0..<MAX_PKGS] (clear_runtime_registry ?c))\<lparr> STORE_LOADED := True \<rparr>"
    using s' fresh by (auto simp: ensure_loaded_def both_def split_beta)
  then have s'': "s' = (fold (load_slot vb) [0..<MAX_PKGS] (clear_runtime_registry ?c))\<lparr> STORE_LOADED := True \<rparr>"
    using used empty b fresh(2) by auto
  show ?thesis using load_verified [OF k refl, of ?c] used by (simp add: s'' verified_entry_def entry_payload_def)
qed

end

end
