(* ===== verification/Pkg_Intact.thy ===== *)
theory Pkg_Intact
  imports Pkg_Load
begin

text \<open>
  On a service that answers every request, a boot fills the runtime table with exactly the
  packages that stand intact on the disk, as long as their payloads fit the arena together.
\<close>

unbundle bit_operations_syntax

section \<open>Requests that are answered\<close>

context reliable_service
begin

lemma read_run_answered: "\<forall>i < n. pkg_read_ok req (base + i) \<Longrightarrow> fst (read_run vb req base n s)"
proof (induction n arbitrary: base s)
  case (Suc n)
  have ok: "fst (vb_status vb req base None (port s)) = IPC_STATUS_OK"
    by (rule reads_answered) (use Suc.prems in \<open>auto dest: spec [of _ 0]\<close>)
  have "\<forall>i < n. pkg_read_ok req (Suc base + i)" using Suc.prems by (auto dest: spec [of _ "Suc _"])
  from Suc.IH [OF this] ok show ?case by (simp add: read_sector_def split_beta Let_def)
qed simp

lemma write_run_answered:
  "\<forall>i < length cs. pkg_write_ok req (base + i) \<Longrightarrow> \<forall>c \<in> set cs. length c \<le> 512 \<Longrightarrow> fst (write_run vb req base cs s)"
proof (induction cs arbitrary: base s)
  case (Cons c cs)
  have ok: "fst (vb_status vb req base (Some c) (port s)) = IPC_STATUS_OK"
    by (rule writes_answered) (use Cons.prems in \<open>auto dest: spec [of _ 0]\<close>)
  have "\<forall>i < length cs. pkg_write_ok req (Suc base + i)" using Cons.prems(1) by (auto dest: spec [of _ "Suc _"])
  from Cons.IH [OF this] Cons.prems(2) ok show ?case by (simp add: write_sector_def split_beta Let_def)
qed simp

lemma registry_answered: "fst (read_registry vb s)" "fst (write_registry vb s)"
proof -
  have "\<forall>i < 2. pkg_read_ok REQ_PKG_REGISTRY_READ (25 + i)" by (auto simp: pkg_read_ok_def)
  from read_run_answered [OF this, of s] show "fst (read_registry vb s)"
    by (simp add: read_registry_def size_defs split_beta Let_def)
  let ?cs = "[mem_read (REGISTRY s) 0 512, mem_read (REGISTRY s) 512 512]"
  have "\<forall>i < length ?cs. pkg_write_ok REQ_PKG_REGISTRY_WRITE (25 + i)" "\<forall>c \<in> set ?cs. length c \<le> 512"
    by (auto simp: pkg_write_ok_def)
  from write_run_answered [OF this] show "fst (write_registry vb s)"
    by (simp only: write_registry_def registry_chunks PKG_REGISTRY_SECTOR_def)
qed

lemma journal_answered:
  "fst (read_journal_raw vb s) = Some (journal_of (content (port s)))"
  "(\<And>i. 512 \<le> i \<Longrightarrow> m i = 0) \<Longrightarrow> fst (write_journal_raw vb m s)"
proof -
  have "\<forall>i < 8. pkg_read_ok REQ_PKG_JOURNAL_READ (32 + i)" by (auto simp: pkg_read_ok_def)
  from read_run_answered [OF this, of s] have "fst (read_journal_raw vb s) \<noteq> None"
    by (simp add: read_journal_raw_def size_defs split_beta Let_def)
  then show "fst (read_journal_raw vb s) = Some (journal_of (content (port s)))"
    using read_journal_effect [of s "fst (read_journal_raw vb s)" "snd (read_journal_raw vb s)"] by auto
  assume m: "\<And>i. 512 \<le> i \<Longrightarrow> m i = 0"
  let ?cs = "mem_read m 0 512 # replicate 7 (replicate 512 (0 :: u8))"
  have "\<forall>i < length ?cs. pkg_write_ok REQ_PKG_JOURNAL_WRITE (32 + i)" "\<forall>c \<in> set ?cs. length c \<le> 512"
    by (auto simp: pkg_write_ok_def)
  from write_run_answered [OF this] show "fst (write_journal_raw vb m s)"
    by (simp only: write_journal_raw_def journal_chunks [OF m] PKG_JOURNAL_SECTOR_def)
qed

lemma blob_answered:
  assumes "64 \<le> base" "base + 64 \<le> 1600" "n \<le> PKG_MAX_RAW_BYTES"
  shows "fst (read_blob_area_into_stage vb base n s)"
proof -
  have "div_ceil n 512 \<le> 64" using assms(3) by (auto simp: size_defs div_ceil_def)
  then have "\<forall>i < div_ceil n 512. pkg_read_ok REQ_PKG_BLOB_READ (base + i)"
    using assms by (auto simp: pkg_read_ok_def)
  from read_run_answered [OF this] assms(3) show ?thesis
    by (simp add: read_blob_area_into_stage_def size_defs split_beta Let_def)
qed

lemma marker_ok: "fst (init_store_marker vb s)"
  using marker_answered by (simp add: init_store_marker_def split_beta)

lemma commit_answered: "fst (commit_store vb s)"
  using registry_answered(2) marker_ok journal_answered(2) [of "\<lambda>_. 0"]
  by (simp add: commit_store_def both_def clear_journal_def split_beta)

end

section \<open>Registry entries\<close>

lemma encode_entry_fields:
  assumes "str_len name \<le> NAME_MAX" and "str_len version \<le> VER_MAX"
    and "r = encode_registry_entry slot st name version kind mcaps n crc reg"
  shows "r (slot * ENTRY_SIZE) = st" "mem_read r (slot * ENTRY_SIZE + 1) 4 = REG_MAGIC"
    "get_u32 r (slot * ENTRY_SIZE + 8) = mcaps" "get_u32 r (slot * ENTRY_SIZE + 12) = of_nat n" "get_u32 r (slot * ENTRY_SIZE + 16) = crc"
proof -
  show "r (slot * ENTRY_SIZE) = st" "get_u32 r (slot * ENTRY_SIZE + 8) = mcaps" "get_u32 r (slot * ENTRY_SIZE + 12) = of_nat n"
    "get_u32 r (slot * ENTRY_SIZE + 16) = crc"
    by (simp_all add: assms(3) encode_registry_entry_def Let_def mem_write_outside put_u32_outside put_u16_def)
  show "mem_read r (slot * ENTRY_SIZE + 1) 4 = REG_MAGIC"
    by (rule nth_equalityI)
      (auto simp: assms(3) encode_registry_entry_def Let_def mem_write_outside put_u32_outside put_u16_def mem_write_def)
qed

lemma encode_entry_outside:
  assumes "str_len name \<le> NAME_MAX" and "str_len version \<le> VER_MAX" and "i div ENTRY_SIZE \<noteq> slot"
  shows "encode_registry_entry slot st name version kind mcaps n crc reg i = reg i"
proof -
  have "i < slot * 128 \<or> slot * 128 + 128 \<le> i" using assms(3) by (auto simp: ENTRY_SIZE_def)
  then show ?thesis using assms(1,2)
    by (auto simp: encode_registry_entry_def Let_def mem_write_outside put_u32_outside put_u16_def size_defs str_len_def)
qed

section \<open>What stands intact on the disk\<close>

definition slot_package :: "disk \<Rightarrow> nat \<Rightarrow> (Package \<times> str \<times> str \<times> u32) option" where
  "slot_package D k =
     (let reg = reg_of D; e = k * ENTRY_SIZE; n = unat (get_u32 reg (e + 12)); raw = blob_of D (slot_blob_sector k) n in
      if entry_state reg k = STATE_ACTIVE \<and> mem_read reg (e + 1) 4 = REG_MAGIC \<and> n \<noteq> 0 \<and> n \<le> PKG_MAX_RAW_BYTES \<and>
         checksum raw = get_u32 reg (e + 16)
      then case checked_package raw of
          None \<Rightarrow> None
        | Some (pkg, name, version, mcaps) \<Rightarrow>
            if str_len name > NAME_MAX \<or> str_len version > VER_MAX then None else Some (pkg, name, version, mcaps)
      else None)"

definition payload_size :: "disk \<Rightarrow> nat \<Rightarrow> nat" where
  "payload_size D k = (case slot_package D k of None \<Rightarrow> 0 | Some (pkg, _) \<Rightarrow> length (pkg_payload pkg))"

text \<open>The runtime entry of a slot holds what stands on the disk, and none when nothing intact does.\<close>

definition runtime_matches :: "(Package \<times> str \<times> str \<times> u32) option \<Rightarrow> 'd pkgs \<Rightarrow> nat \<Rightarrow> bool" where
  "runtime_matches pk s k \<longleftrightarrow>
     (case pk of
        None \<Rightarrow> \<not> e_used (PKGS s ! k)
      | Some (pkg, name, version, mcaps) \<Rightarrow>
          e_used (PKGS s ! k) \<and> pkg_entry_name (PKGS s ! k) = name \<and> e_kind (PKGS s ! k) = pkg_kind pkg \<and>
          e_mcaps (PKGS s ! k) = mcaps \<and> entry_payload s (PKGS s ! k) = pkg_payload pkg)"

definition loading :: "disk \<Rightarrow> nat \<Rightarrow> 'd pkgs \<Rightarrow> bool" where
  "loading D n s \<longleftrightarrow> length (PKGS s) = MAX_PKGS \<and> ARENA_USED s = sum (payload_size D) {..<n} \<and>
     (\<forall>k < n. runtime_matches (slot_package D k) s k \<and>
        (e_used (PKGS s ! k) \<longrightarrow> unat (e_off (PKGS s ! k)) + unat (e_len (PKGS s ! k)) \<le> ARENA_USED s)) \<and>
     (\<forall>k < MAX_PKGS. n \<le> k \<longrightarrow> \<not> e_used (PKGS s ! k)) \<and>
     (\<forall>i. n * ENTRY_SIZE \<le> i \<longrightarrow> REGISTRY s i = reg_of D i)"

lemma runtime_matches_cong:
  assumes "PKGS s' ! k = PKGS s ! k" and "\<And>i. e_used (PKGS s ! k) \<Longrightarrow>
      i < unat (e_off (PKGS s ! k)) + unat (e_len (PKGS s ! k)) \<Longrightarrow> ARENA s' i = ARENA s i"
  shows "runtime_matches pk s' k = runtime_matches pk s k"
proof -
  have "e_used (PKGS s ! k) \<Longrightarrow> entry_payload s' (PKGS s ! k) = entry_payload s (PKGS s ! k)"
    using assms(2) by (auto simp: entry_payload_def intro!: mem_read_cong)
  then show ?thesis using assms(1) by (auto simp: runtime_matches_def split: option.splits)
qed

lemma loading_window: "loading D n (s\<lparr> port := p, STAGE := st \<rparr>) = loading D n s"
proof -
  have "runtime_matches (slot_package D k) (s\<lparr> port := p, STAGE := st \<rparr>) k = runtime_matches (slot_package D k) s k" for k
    by (rule runtime_matches_cong) simp_all
  then show ?thesis by (simp add: loading_def)
qed

lemma loading_skip:
  assumes "loading D slot s" and "slot < MAX_PKGS" and "slot_package D slot = None"
    and "s' = s\<lparr> port := p, STAGE := st, REGISTRY := r \<rparr>" and "\<And>i. i \<noteq> slot * ENTRY_SIZE \<Longrightarrow> r i = REGISTRY s i"
  shows "loading D (Suc slot) s'"
proof -
  have match: "runtime_matches (slot_package D k) s' k = runtime_matches (slot_package D k) s k" for k
    by (rule runtime_matches_cong) (simp_all add: assms(4))
  have "runtime_matches (slot_package D slot) s slot" using assms(1,2,3) by (simp add: loading_def runtime_matches_def)
  then show ?thesis using assms match
    by (auto simp: loading_def payload_size_def less_Suc_eq ENTRY_SIZE_def)
qed

lemma get_u32_registry: "(\<And>i. off \<le> i \<Longrightarrow> m i = m' i) \<Longrightarrow> get_u32 m off = get_u32 m' off"
  by (rule get_u32_cong) simp

lemma loading_install:
  assumes inv: "loading D slot s" and slot: "slot < MAX_PKGS" and pkg: "slot_package D slot = Some (pkg, name, version, mcaps)"
    and fits: "sum (payload_size D) {..<MAX_PKGS} \<le> ARENA_SIZE"
    and run: "install_runtime_entry slot name version (pkg_kind pkg) mcaps n crc (pkg_payload pkg) s = (ok, s')"
  shows "ok" "loading D (Suc slot) s'" "port s' = port s"
proof -
  let ?pl = "pkg_payload pkg"
  have used: "ARENA_USED s = sum (payload_size D) {..<slot}" and len: "length (PKGS s) = MAX_PKGS" using inv by (auto simp: loading_def)
  have "sum (payload_size D) {..<Suc slot} \<le> sum (payload_size D) {..<MAX_PKGS}"
    using slot by (intro sum_mono2) auto
  then have room: "ARENA_USED s + length ?pl \<le> ARENA_SIZE" using fits used pkg by (simp add: payload_size_def)
  then show "ok" using run by (auto simp: install_runtime_entry_def Let_def split: if_splits)
  obtain e where s': "s' = s\<lparr> ARENA := mem_write (ARENA s) (ARENA_USED s) ?pl,
      PKGS := (PKGS s)[slot := e], ARENA_USED := ARENA_USED s + length ?pl \<rparr>" and "e_used e"
    and e: "e_off e = of_nat (ARENA_USED s)" "e_len e = of_nat (length ?pl)" "e_kind e = pkg_kind pkg" "e_mcaps e = mcaps"
      "e_name e = zero_padded NAME_MAX (as_bytes name)" "e_name_len e = of_nat (str_len name)"
    using run room by (auto simp: install_runtime_entry_def Let_def split: if_splits)
  have proj: "PKGS s' = (PKGS s)[slot := e]" "ARENA_USED s' = ARENA_USED s + length ?pl" "REGISTRY s' = REGISTRY s"
    "ARENA s' = mem_write (ARENA s) (ARENA_USED s) ?pl"
    by (simp_all add: s')
  show "port s' = port s" by (simp add: s')
  have nums: "unat (e_off e) = ARENA_USED s" "unat (e_len e) = length ?pl"
    using room e(1,2) by (simp_all add: ARENA_SIZE_def unat_of_nat_small)
  have valid: "valid_str name" "str_len name \<le> NAME_MAX"
    using pkg checked_valid(1) by (auto simp: slot_package_def Let_def split: if_splits option.splits)
  have name: "pkg_entry_name e = name"
    using stored_name [OF valid] by (simp add: pkg_entry_name_def e)
  have at: "PKGS s' ! slot = e" using slot len by (simp add: proj)
  have new: "runtime_matches (slot_package D slot) s' slot"
    using name e(3,4) \<open>e_used e\<close> by (simp add: runtime_matches_def pkg at entry_payload_def nums proj(4) mem_read_write_same)
  have "runtime_matches (slot_package D k) s' k \<and> (e_used (PKGS s' ! k) \<longrightarrow>
      unat (e_off (PKGS s' ! k)) + unat (e_len (PKGS s' ! k)) \<le> ARENA_USED s')" if "k < Suc slot" for k
  proof (cases "k = slot")
    case True
    then show ?thesis using new nums at by (simp add: proj(2))
  next
    case False
    have same: "PKGS s' ! k = PKGS s ! k" using False by (simp add: proj)
    have old: "runtime_matches (slot_package D k) s k"
      "e_used (PKGS s ! k) \<longrightarrow> unat (e_off (PKGS s ! k)) + unat (e_len (PKGS s ! k)) \<le> ARENA_USED s"
      using inv that False by (auto simp: loading_def)
    have "runtime_matches (slot_package D k) s' k = runtime_matches (slot_package D k) s k"
      by (rule runtime_matches_cong [OF same]) (use old(2) in \<open>simp add: proj mem_write_outside\<close>)
    then show ?thesis using old same by (auto simp: proj(2))
  qed
  then show "loading D (Suc slot) s'" using inv pkg
    by (auto simp: loading_def proj payload_size_def)
qed

context reliable_service
begin

lemma load_slot_loading:
  assumes inv: "loading D slot s" and D: "blobs (port s) = blobs p0" "D = content p0" and slot: "slot < MAX_PKGS"
    and fits: "sum (payload_size D) {..<MAX_PKGS} \<le> ARENA_SIZE"
  shows "loading D (Suc slot) (load_slot vb slot s) \<and> blobs (port (load_slot vb slot s)) = blobs p0"
proof -
  let ?e = "slot * ENTRY_SIZE"
  define n where "n = unat (get_u32 (reg_of D) (?e + 12))"
  define crc where "crc = get_u32 (reg_of D) (?e + 16)"
  define raw where "raw = blob_of D (slot_blob_sector slot) n"
  have agree: "REGISTRY s i = reg_of D i" if "?e \<le> i" for i using inv that by (auto simp: loading_def)
  have reg: "REGISTRY s ?e = entry_state (reg_of D) slot" "mem_read (REGISTRY s) (?e + 1) 4 = mem_read (reg_of D) (?e + 1) 4"
    "n = unat (get_u32 (REGISTRY s) (?e + 12))" "crc = get_u32 (REGISTRY s) (?e + 16)"
    using agree get_u32_registry [of "?e + 12" "REGISTRY s" "reg_of D"] get_u32_registry [of "?e + 16" "REGISTRY s" "reg_of D"]
    by (auto simp: entry_state_def n_def crc_def intro!: mem_read_cong)
  have skip: "loading D (Suc slot) t \<and> blobs (port t) = blobs p0"
    if "slot_package D slot = None" "t = q \<or> t = mark_corrupt vb slot q" "q = s\<lparr> port := p, STAGE := st \<rparr>" "blobs p = blobs p0"
    for t q p st
  proof -
    obtain p' r where c: "mark_corrupt vb slot q = q\<lparr> port := p', REGISTRY := r \<rparr>" "blobs p' = blobs (port q)"
      "\<forall>i. i \<noteq> ?e \<longrightarrow> r i = REGISTRY q i"
      using mark_corrupt_frame by blast
    have "mark_corrupt vb slot q = s\<lparr> port := p', STAGE := st, REGISTRY := r \<rparr>" unfolding c(1) unfolding that(3) by simp
    then have "loading D (Suc slot) q" "loading D (Suc slot) (mark_corrupt vb slot q)"
      using loading_skip [OF inv slot that(1), where p = p and st = st and r = "REGISTRY s"] loading_skip [OF inv slot that(1), where p = p' and st = st and r = r] c that(3)
      by auto
    then show ?thesis using that c by auto
  qed
  have self: "s = s\<lparr> port := port s, STAGE := STAGE s \<rparr>" by simp
  let ?act = "entry_state (reg_of D) slot = STATE_ACTIVE" and ?mag = "mem_read (reg_of D) (?e + 1) 4 = REG_MAGIC"
  show ?thesis
  proof (cases "?act \<and> ?mag \<and> n \<noteq> 0 \<and> n \<le> PKG_MAX_RAW_BYTES")
    case False
    then have none: "slot_package D slot = None" by (auto simp: slot_package_def Let_def n_def)
    have "load_slot vb slot s = s \<or> load_slot vb slot s = mark_corrupt vb slot s"
      using False reg unfolding load_slot_def Let_def by auto
    from skip [OF none this self D(1)] show ?thesis .
  next
    case True
    then have len: "n \<noteq> 0" "n \<le> PKG_MAX_RAW_BYTES" by auto
    obtain ok q where run: "read_blob_into_stage vb slot n s = (ok, q)" by fastforce
    have area: "64 \<le> slot_blob_sector slot" "slot_blob_sector slot + 64 \<le> 1600" using slot by (auto simp: slot_blob_sector_def size_defs)
    have ok: "ok" using blob_answered [OF area len(2), of s] run by (simp add: read_blob_into_stage_def)
    obtain p st where q: "q = s\<lparr> port := p, STAGE := st \<rparr>" "content p = content (port s)"
      "mem_read st 0 n = blob_of (content (port s)) (slot_blob_sector slot) n"
      using read_blob_effect [OF run [unfolded read_blob_into_stage_def] area] ok by auto
    have "blob_of (content (port s)) (slot_blob_sector slot) n = blob_of (blobs p0) (slot_blob_sector slot) n"
      using blob_of_blobs [OF area(1), of "port s" n] D(1) by simp
    also have "\<dots> = raw" using blob_of_blobs [OF area(1), of p0 n] by (simp add: raw_def D(2))
    finally have bs: "raw = mem_read (STAGE q) 0 n" using q by simp
    have "blobs p = blobs (port s)" using q(2) by (rule blobs_cong)
    then have pD: "blobs p = blobs p0" using D(1) by simp
    have act: "REGISTRY s ?e = STATE_ACTIVE" "mem_read (REGISTRY s) (?e + 1) 4 = REG_MAGIC" using True reg(1,2) by auto
    note step = load_slot_step [OF act reg(3) len run reg(4) bs]
    have pk: "slot_package D slot = (if checksum raw = crc then case checked_package raw of None \<Rightarrow> None
        | Some (pkg, name, version, mcaps) \<Rightarrow> if str_len name > NAME_MAX \<or> str_len version > VER_MAX then None
          else Some (pkg, name, version, mcaps) else None)"
      using True unfolding slot_package_def Let_def n_def crc_def raw_def by simp
    show ?thesis
    proof (cases "slot_package D slot")
      case None
      have "load_slot vb slot s = mark_corrupt vb slot q"
        using None ok unfolding step pk by (auto split: if_splits option.splits)
      then show ?thesis using skip [OF None disjI2 q(1) pD] by blast
    next
      case (Some t)
      obtain pkg name version mcaps where t: "t = (pkg, name, version, mcaps)" by (cases t)
      have good: "checksum raw = crc" "checked_package raw = Some t" "str_len name \<le> NAME_MAX" "str_len version \<le> VER_MAX"
        using Some t unfolding pk by (auto split: if_splits option.splits)
      obtain b r where ins: "install_runtime_entry slot name version (pkg_kind pkg) mcaps n crc (pkg_payload pkg) q = (b, r)"
        by fastforce
      have "loading D slot q" using inv unfolding q(1) loading_window .
      note i = loading_install [OF this slot Some [unfolded t] fits ins]
      have "load_slot vb slot s = r" unfolding step good(2) t using good ok ins i(1) by simp
      then show ?thesis using i(2,3) q(1) pD by simp
    qed
  qed
qed

lemma load_slots_loading:
  assumes "loading (content p0) 0 s" and "blobs (port s) = blobs p0" and "n \<le> MAX_PKGS"
    and "sum (payload_size (content p0)) {..<MAX_PKGS} \<le> ARENA_SIZE"
  shows "loading (content p0) n (fold (load_slot vb) [0..<n] s) \<and> blobs (port (fold (load_slot vb) [0..<n] s)) = blobs p0"
  using assms(3)
proof (induction n)
  case (Suc n)
  then show ?case using load_slot_loading [of "content p0" n "fold (load_slot vb) [0..<n] s" p0] assms(4) by simp
qed (use assms in simp)

lemma boot_after_recovery:
  assumes a: "read_registry vb (pkg_boot p inp) = (True, a)" and rec: "recover_from_journal vb False a = (True, b)"
    and fits: "sum (payload_size (content (port b))) {..<MAX_PKGS} \<le> ARENA_SIZE"
  shows "\<exists>s'. ensure_loaded vb (pkg_boot p inp) = (True, s') \<and>
    (\<forall>k < MAX_PKGS. runtime_matches (slot_package (content (port b)) k) s' k)"
proof -
  let ?D = "content (port b)"
  obtain c where c: "read_registry vb b = (True, c)" using registry_answered(1) [of b] by (cases "read_registry vb b") auto
  then obtain p3 where p3: "content p3 = ?D" "port c = p3" "REGISTRY c = reg_of ?D"
    using read_registry_effect [OF c] by auto
  let ?s = "clear_runtime_registry c"
  let ?f = "fold (load_slot vb) [0..<MAX_PKGS] ?s"
  have "loading ?D 0 ?s" using p3 by (simp add: loading_def clear_runtime_registry_def EMPTY_PKG_def)
  moreover have "blobs (port ?s) = blobs (port b)" using p3 blobs_cong [of p3 "port b"] by (simp add: clear_runtime_registry_def)
  ultimately have "loading ?D MAX_PKGS ?f" using load_slots_loading fits by blast
  then have "\<forall>k < MAX_PKGS. runtime_matches (slot_package ?D k) (?f\<lparr> STORE_LOADED := True \<rparr>) k"
    using runtime_matches_cong [of "?f\<lparr> STORE_LOADED := True \<rparr>" _ ?f] by (simp add: loading_def)
  moreover have "ensure_loaded vb (pkg_boot p inp) = (True, ?f\<lparr> STORE_LOADED := True \<rparr>)"
    using a rec c by (simp add: ensure_loaded_def both_def pkg_boot_def)
  ultimately show ?thesis by blast
qed

lemma boot_reads:
  obtains a where "read_registry vb (pkg_boot p inp) = (True, a)" "content (port a) = content p"
    "REGISTRY a = reg_of (content p)" "PKGS a = replicate MAX_PKGS EMPTY_PKG"
proof -
  obtain a where a: "read_registry vb (pkg_boot p inp) = (True, a)"
    using registry_answered(1) [of "pkg_boot p inp"] by (cases "read_registry vb (pkg_boot p inp)") auto
  then show ?thesis using read_registry_effect [OF a] by (intro that [OF a]) (auto simp: pkg_boot_def)
qed

lemma recover_empty:
  assumes "decode_journal (journal_of (content (port a))) = JournalEmpty"
  obtains b where "recover_from_journal vb False a = (True, b)" "content (port b) = content (port a)"
proof -
  obtain m b where b: "read_journal_raw vb a = (m, b)" by fastforce
  then have m: "m = Some (journal_of (content (port a)))" using journal_answered(1) [of a] by simp
  have "recover_from_journal vb False a = (True, set_degraded False b)"
    using assms by (simp add: recover_from_journal_def b m)
  moreover have "content (port (set_degraded False b)) = content (port a)"
    using read_journal_effect [OF b] by (auto simp: set_degraded_def)
  ultimately show ?thesis by (rule that)
qed

lemma boot_loads:
  assumes empty: "decode_journal (journal_of (content p)) = JournalEmpty"
    and fits: "sum (payload_size (content p)) {..<MAX_PKGS} \<le> ARENA_SIZE"
  shows "\<exists>s'. ensure_loaded vb (pkg_boot p inp) = (True, s') \<and> (\<forall>k < MAX_PKGS. runtime_matches (slot_package (content p) k) s' k)"
proof -
  obtain a where a: "read_registry vb (pkg_boot p inp) = (True, a)" "content (port a) = content p" by (rule boot_reads)
  obtain b where "recover_from_journal vb False a = (True, b)" "content (port b) = content (port a)"
    using recover_empty a empty by metis
  then show ?thesis using boot_after_recovery [OF a(1)] a(2) fits by simp
qed

end

section \<open>A disk with one package\<close>

definition sample_package :: Package where
  "sample_package = \<lparr> pkg_kind = KIND_DEZH_IR, pkg_manifest = sample_manifest, pkg_payload = [0] \<rparr>"

definition sample_raw :: "u8 list" where
  "sample_raw = dzp_bytes KIND_DEZH_IR sample_manifest [0]"

definition sample_registry :: mem where
  "sample_registry = encode_registry_entry 0 STATE_ACTIVE (lit ''note'') (lit ''0.0.0'') KIND_DEZH_IR 0x11
     (length sample_raw) (checksum sample_raw) (\<lambda>_. 0)"

definition sample_disk :: "(u64 \<Rightarrow> mem) blk" where
  "sample_disk = \<lparr> dev = (\<lambda>sec. if sec = 25 then sample_registry else if sec = 64 then mem_of sample_raw else (\<lambda>_. 0)),
     data = (\<lambda>_. 0), input = (\<lambda>_. 0) \<rparr>"

lemma sample_checks:
  "verify [0] = Ok ()" "valid_str sample_manifest" "length (as_bytes sample_manifest) = 46"
  "manifest_str sample_manifest (lit ''name'') = Some (lit ''note'')" "manifest_str sample_manifest (lit ''version'') = None"
  "parse_mcaps sample_manifest = Ok 0x11"
proof -
  show "verify [0] = Ok ()" by code_simp
  show "valid_str sample_manifest" "length (as_bytes sample_manifest) = 46"
    by (simp_all add: valid_str_def sample_manifest_def lit_def scalar_def as_bytes_def utf8_char_def)
  show "manifest_str sample_manifest (lit ''name'') = Some (lit ''note'')" "manifest_str sample_manifest (lit ''version'') = None"
    by (simp_all add: manifest_str_def sample_manifest_def lit_def str_lines.simps split_once_def strip_suffix_def strip_prefix_def
        trim_def trim_by_def is_whitespace_def)
  show "parse_mcaps sample_manifest = Ok 0x11"
    unfolding parse_mcaps_def sample_caps by (simp add: mcap_bit_def MCAP_TABLE_def mcap_defs)
qed

lemma sample_raw_checked:
  "checked_package sample_raw = Some (sample_package, lit ''note'', lit ''0.0.0'', 0x11)" "length sample_raw = 67"
proof -
  have ok: "package_ok sample_package" by (simp add: package_ok_def sample_package_def sample_checks)
  have "parse sample_raw = Ok sample_package" using parse_dzp_bytes [OF ok] by (simp add: sample_package_def sample_raw_def)
  then show "checked_package sample_raw = Some (sample_package, lit ''note'', lit ''0.0.0'', 0x11)"
    by (simp add: checked_package_def verify_payload_def manifest_version_def sample_package_def sample_checks)
  show "length sample_raw = 67" by (simp add: sample_raw_def length_dzp_bytes HEADER_LEN_def sample_checks)
qed

definition sample_sectors :: disk where
  "sample_sectors = sectors_of plain_content sample_disk"

lemma sample_sector:
  "sec < 65536 \<Longrightarrow> sample_sectors sec = (if sec = 25 then mem_read sample_registry 0 512
     else if sec = 64 then mem_read (mem_of sample_raw) 0 512 else replicate 512 0)"
proof -
  assume sec: "sec < 65536"
  have "(of_nat sec :: u64) = 25 \<longleftrightarrow> sec = 25" "(of_nat sec :: u64) = 64 \<longleftrightarrow> sec = 64"
    using of_nat_sector_inj [OF sec, of 25] of_nat_sector_inj [OF sec, of 64] by simp_all
  moreover have "mem_read (\<lambda>_. 0) 0 512 = replicate 512 (0 :: u8)" by (simp add: mem_read_def map_replicate_const)
  ultimately show ?thesis using sec
    by (simp add: sample_sectors_def sectors_of_def plain_content_def sample_disk_def)
qed

lemma sample_reg: "i < 1024 \<Longrightarrow> reg_of sample_sectors i = (if i < 512 then sample_registry i else 0)"
  by (simp add: reg_of_def sample_sector mem_of_def nth_append)

lemma sample_slots:
  "slot_package sample_sectors 0 = Some (sample_package, lit ''note'', lit ''0.0.0'', 0x11)"
  "0 < k \<Longrightarrow> k < MAX_PKGS \<Longrightarrow> slot_package sample_sectors k = None"
proof -
  have lens: "str_len (lit ''note'') = 4" "str_len (lit ''0.0.0'') = 5" by (simp_all add: str_len_def lit_def as_bytes_def utf8_char_def)
  note f = encode_entry_fields [OF _ _ sample_registry_def, unfolded lens]
  have agree: "reg_of sample_sectors i = sample_registry i" if "i < 512" for i using that by (simp add: sample_reg)
  have word: "get_u32 (reg_of sample_sectors) i = get_u32 sample_registry i" if "i + 4 \<le> 512" for i
    by (rule get_u32_cong) (use that in \<open>auto simp: sample_reg\<close>)
  have magic: "mem_read (reg_of sample_sectors) 1 4 = REG_MAGIC"
    using f(2) mem_read_cong [of 1 4 "reg_of sample_sectors" sample_registry] agree by (simp add: size_defs)
  have raw: "blob_of sample_sectors 64 67 = sample_raw"
    by (simp add: blob_of_def div_ceil_def upt_rec sample_sector) (rule nth_equalityI, auto simp: sample_raw_checked mem_of_def)
  show "slot_package sample_sectors 0 = Some (sample_package, lit ''note'', lit ''0.0.0'', 0x11)"
    using f agree [of 0] word [of 12] word [of 16] magic raw lens
    by (simp add: slot_package_def entry_state_def slot_blob_sector_def size_defs sample_raw_checked)
  assume k: "0 < k" "k < MAX_PKGS"
  have "reg_of sample_sectors (k * 128) = 0"
    using k encode_entry_outside [of "lit ''note''" "lit ''0.0.0''" "k * 128" 0] lens
    by (auto simp: sample_reg sample_registry_def size_defs)
  then show "slot_package sample_sectors k = None"
    by (simp add: slot_package_def entry_state_def size_defs STATE_ACTIVE_def)
qed

lemma sample_boot:
  "decode_journal (journal_of sample_sectors) = JournalEmpty"
  "sum (payload_size sample_sectors) {..<MAX_PKGS} \<le> ARENA_SIZE"
proof -
  have "journal_of sample_sectors = (\<lambda>_. 0)"
    by (rule ext) (auto simp: journal_of_def upt_rec sample_sector mem_of_def nth_append)
  then show "decode_journal (journal_of sample_sectors) = JournalEmpty" by (simp add: decode_journal_zero)
  have "payload_size sample_sectors k \<le> 1" if "k < MAX_PKGS" for k
    using sample_slots(1) sample_slots(2) [of k] that by (cases "k = 0") (auto simp: payload_size_def sample_package_def)
  then have "sum (payload_size sample_sectors) {..<MAX_PKGS} \<le> sum (\<lambda>_. 1) {..<MAX_PKGS}" by (intro sum_mono) simp
  then show "sum (payload_size sample_sectors) {..<MAX_PKGS} \<le> ARENA_SIZE" by (simp add: size_defs ARENA_SIZE_def)
qed

text \<open>
  C8. On a block service that answers, with no transaction pending and payloads that fit the arena together,
  a boot loads exactly the packages that stand intact on the disk: the entry of every slot holds the name, the
  kind, the capability mask and the payload of that slot's container, and slots without an intact one stay unused.
\<close>

theorem boot_loads_intact_packages:
  assumes "block_device dv content" and "reliable dv"
    and "decode_journal (journal_of (sectors_of content p)) = JournalEmpty"
    and "sum (payload_size (sectors_of content p)) {..<MAX_PKGS} \<le> ARENA_SIZE"
  shows "\<exists>s'. ensure_loaded (daemon_vblk dv (\<lambda>_. True) (\<lambda>_. True)) (pkg_boot p inp) = (True, s') \<and>
    (\<forall>k < MAX_PKGS. runtime_matches (slot_package (sectors_of content p) k) s' k)"
  by (rule reliable_service.boot_loads [OF daemon_reliable_service [OF assms(1,2)] assms(3,4)])

theorem boot_loads_intact_packages_witness:
  "\<exists>s'. ensure_loaded (daemon_vblk plain_disk_io (\<lambda>_. True) (\<lambda>_. True)) (pkg_boot sample_disk []) = (True, s') \<and>
    e_used (PKGS s' ! 0) \<and> pkg_entry_name (PKGS s' ! 0) = lit ''note'' \<and> e_mcaps (PKGS s' ! 0) = 0x11 \<and>
    entry_payload s' (PKGS s' ! 0) = [0] \<and> \<not> e_used (PKGS s' ! 1)"
proof -
  obtain s' where s': "ensure_loaded (daemon_vblk plain_disk_io (\<lambda>_. True) (\<lambda>_. True)) (pkg_boot sample_disk []) = (True, s')"
    and m: "\<forall>k < MAX_PKGS. runtime_matches (slot_package sample_sectors k) s' k"
    using boot_loads_intact_packages [OF plain_disk_block_device plain_disk_reliable, of sample_disk "[]"] sample_boot
    unfolding sample_sectors_def [symmetric] by blast
  have "runtime_matches (slot_package sample_sectors 0) s' 0" "runtime_matches (slot_package sample_sectors 1) s' 1" using m by (auto simp: size_defs)
  then show ?thesis using s' sample_slots(2) [of 1]
    by (auto simp: runtime_matches_def sample_slots(1) sample_package_def size_defs)
qed



end
