(* ===== verification/Spec2Isabelle.thy ===== *)
theory Spec2Isabelle
  imports Boot_Contract Authority Ocap Difc Ticket_Lock Runq Daemon_Refinement Dezh_IR Base64 Net_Checksum Signed_Install Pkg_Intact
begin

text \<open>
  Dezh is a small capability operating system: a RISC-V kernel (\<open>dezh-boot\<close>), a storage daemon in user
  mode (\<open>dezh-boot/virtio-blk\<close>), the platform-independent boot contract (\<open>dezh-kernel\<close>) and the library
  they share (\<open>dezh-core\<close>). The console reaches the daemon by starting a client process that sends one
  typed message; the daemon keeps the Cairn store, an append-only log of effects with a reference per
  namespace, and serves raw sectors to the kernel's package store, which loads, installs, updates and
  removes packages. Every authority decision is a test on a capability word.

  \<^bold>\<open>How the code is rendered.\<close> Rust functions are HOL functions with the source's names (suffixed where HOL
  owns the name). Integers are words of their width, sizes and offsets are naturals where a bound on the
  data keeps them far from \<open>2^64\<close> and words where the code lets them grow (the ring's indices). A
  \<open>Result\<close> or a function that can panic is an \<open>outcome\<close>, with the constructors \<open>Ok\<close>, \<open>Err\<close> and \<open>Panic\<close>;
  arithmetic that the compiler checks panics, as in the images the repository builds. Statics are records
  passed from step to step. Printed lines and audit records are left out. Loops are recursion; the two
  loops without a bound in the source, the bytecode interpreter \<open>ir_loop\<close> and the mission rollback
  \<open>sfar_loop\<close>, are partial functions whose value \<open>None\<close> means that they do not return, so no fuel occurs in
  the development. The lemmas state where they return.

  \<^bold>\<open>Shared vocabulary.\<close> \<open>Dezh_Prelude\<close>: word types, \<open>outcome\<close>, little-endian codecs, slices, byte memory and
  the subset order on capability words. \<open>Rust_Str\<close>: the part of \<open>str\<close> that manifests need, UTF-8 included.

  \<^bold>\<open>Boot and authority.\<close> \<open>Boot_Contract\<close> (dezh-kernel/src/lib.rs: \<open>BootInfo\<close>, \<open>validate_memory_map\<close>,
  \<open>validate_services\<close>, \<open>plan_boot\<close>): the memory map is accepted exactly when it is sound, a plan carries no
  authority that was not seeded, and its byte total is exact. \<open>Authority\<close> (module \<open>authority\<close> of the same file):
  derivation as intersection; the locales \<open>attenuation\<close> and \<open>reported_attenuation\<close> hold the algebra once and
  are interpreted for intents, publishers and handle rights. \<open>Ocap\<close> (dezh-core/src/ocap.rs,
  dezh-boot/src/ocap/ns.rs and device.rs): generation-stamped handles; over any history a handle is valid exactly while its
  object has not been revoked since the handle's root was minted, below \<open>2^32 - 1\<close> revocations, and the exact
  behaviour beyond that; the two clients of the table interpret the locale \<open>kill_switch\<close>. \<open>Difc\<close>
  (dezh-core/src/difc.rs, dezh-boot/src/difc.rs): labels, the operator's taint and the exact write gate.

  \<^bold>\<open>Concurrency.\<close> \<open>Ticket_Lock\<close> (dezh-core/src/sync.rs, dezh-boot/src/sync.rs): every atomic access of
  \<open>acquire\<close> and \<open>release\<close>, interrupt masking included, is a step of a hart; any interleaving refines a FIFO lock,
  gives mutual exclusion and is never stuck, across the wrap-around of the counters. Memory is sequentially
  consistent in the model. \<open>Runq\<close> (dezh-core/src/runq.rs, dezh-boot/src/smp.rs): the ring satisfies the locale
  \<open>bounded_fifo\<close> for the whole life of its 64-bit indices, and the concurrent drain runs each job exactly once.

  \<^bold>\<open>The storage daemon\<close> (dezh-boot/virtio-blk/src/main.rs). \<open>Virtio_Blk\<close>: the data and input windows and sector
  transfer; the disk is a parameter \<open>dv\<close> of which only \<open>block_device\<close> is assumed (a read returns what a
  sector holds, a failed write changes nothing or one sector), with or without faults. \<open>Cairn_Record\<close>
  (dezh-core/src/cairn.rs): the commit record byte for byte and its round trip. \<open>Ledger\<close>: the specification, a
  log, a stack of standing effects per namespace and the cut-off flags. \<open>Cairn_Store\<close>: superblock, commit, read,
  rollback, verification and revocation; the relation \<open>store_rel\<close> says that a disk holds a ledger (in
  particular that commits link only to earlier commits). \<open>Sfar\<close>: missions, their authority, forecast,
  provenance and rollback with compensations, and a forecast that promises more than the rollback does.
  \<open>Blk_Daemon\<close>: the typed IPC word and the dispatcher with every
  request. \<open>Daemon_Refinement\<close>: the daemon refines the ledger; under faults it survives with an append-only
  log; namespaces are isolated, acknowledged changes are durable and a cut-off persists; two theorems show
  where the code falls short (a failed superblock read opens a revocation, the raw block write checks no
  capability).

  \<^bold>\<open>Packages.\<close> \<open>Base64\<close>, \<open>Dzp\<close>, \<open>Mcap\<close>, \<open>Sig\<close> and \<open>Net_Checksum\<close> model dezh-core/src/b64.rs, dzp.rs,
  mcap.rs, sig.rs and net.rs: round trips, detection of any changed byte, the exact authority a manifest asks
  for, the envelope of a signed package and the receiver's checksum test. \<open>Dezh_IR\<close> (ir.rs): the bytecode
  verifier is exact, verified code is type safe and confined to its capabilities, and two verified
  programs that stop the kernel. \<open>Signed_Install\<close> (dezh-boot/src/pkg.rs, dezh-boot/build.rs): the trust store
  and the decision on a signed package; the Ed25519 check is a parameter assumed unforgeable. \<open>Vblk\<close>
  (dezh-boot/src/vblk.rs and the client half of the daemon's file): the client path, composed with the daemon's
  step; that the service is up and that the message is accepted are parameters. \<open>Pkg_Store\<close> and \<open>Pkg\<close>
  (dezh-boot/src/pkg.rs): the registry, journal and blob areas byte for byte, and every command over them with
  its early returns. \<open>Pkg_Service\<close> shows that the daemon behind the client is a \<open>sector_service\<close>, and a
  \<open>reliable_service\<close> on a device without faults; \<open>Pkg_Disk\<close> says in which states of the disk each loop can
  stop. \<open>Pkg_Load\<close> and \<open>Pkg_Intact\<close>: under any faults, what is in the runtime table after a boot passed every
  check; without faults a boot loads exactly the intact packages.

  \<^bold>\<open>Not modelled.\<close> The scheduler with its traps, page tables and mailboxes, the ELF loader, the frame allocator,
  device registers and drivers (raw memory and assembly); the network service; service restarts and the audit
  ring; the launch of a loaded package and the intent leases of pkg.rs; the console, its demos and all printing;
  the x86_64 kernel, whose logic is the shared library; the user-mode programs and the host-side prototypes
  (spikes), which are not part of the kernel image.
\<close>

end
